(* ===== verification/Prelude.thy ===== *)
theory Prelude
  imports Main "HOL-Library.Word" "HOL-Library.AList"
begin

text \<open>
  Shared vocabulary of the development: bytes and buffers, Rust's \<open>Result\<close> with the
  \<open>?\<close> operator, \<open>usize\<close> arithmetic on a 64-bit target, little-endian integer codecs
  (\<open>to_le_bytes\<close> / \<open>from_le_bytes\<close>), sub-slices, the UTF-8 validity check of
  \<open>std::str::from_utf8\<close>, and the finite maps (association lists) that stand for
  \<open>HashMap\<close> and \<open>BTreeMap\<close>. The generic lemmas the component theories rest on are
  collected in \<open>bytes_simps\<close>, \<open>glue_simps\<close> and \<open>result_simps\<close>.
\<close>

named_theorems bytes_simps \<open>facts on little-endian bytes and slices\<close>
named_theorems glue_simps \<open>adjacent slices of one buffer joined back together\<close>
named_theorems result_simps \<open>inversion facts for Result-valued steps\<close>

section \<open>Types\<close>

type_synonym byte = "8 word"
type_synonym bytes = "8 word list"
type_synonym u16 = "16 word"
type_synonym u32 = "32 word"
type_synonym u64 = "64 word"

section \<open>Results\<close>

text \<open>
  \<open>Result<T, E>\<close> is the sum \<open>'e + 't\<close> with \<open>Inl\<close> for \<open>Err\<close>. \<open>result_bind\<close> is the
  \<open>?\<close> operator followed by the rest of the function.
\<close>

definition result_bind :: "'e + 'a \<Rightarrow> ('a \<Rightarrow> 'e + 'b) \<Rightarrow> 'e + 'b" where
  "result_bind r f = (case r of Inl e \<Rightarrow> Inl e | Inr x \<Rightarrow> f x)"

definition map_err :: "('e \<Rightarrow> 'f) \<Rightarrow> 'e + 'a \<Rightarrow> 'f + 'a" where
  "map_err g r = (case r of Inl e \<Rightarrow> Inl (g e) | Inr x \<Rightarrow> Inr x)"

definition ok_or :: "'e \<Rightarrow> 'a option \<Rightarrow> 'e + 'a" where
  "ok_or e x = (case x of None \<Rightarrow> Inl e | Some v \<Rightarrow> Inr v)"

definition is_ok :: "'e + 'a \<Rightarrow> bool" where
  "is_ok r = (case r of Inl _ \<Rightarrow> False | Inr _ \<Rightarrow> True)"

lemma result_bind_Inr [simp]: "result_bind (Inr x) f = f x"
  by (simp add: result_bind_def)

lemma result_bind_Inl [simp]: "result_bind (Inl e) f = Inl e"
  by (simp add: result_bind_def)

lemma map_err_Inr [simp]: "map_err g (Inr x) = Inr x"
  by (simp add: map_err_def)

lemma map_err_Inl [simp]: "map_err g (Inl e) = Inl (g e)"
  by (simp add: map_err_def)

lemma ok_or_Some [simp]: "ok_or e (Some v) = Inr v"
  by (simp add: ok_or_def)

lemma ok_or_None [simp]: "ok_or e None = Inl e"
  by (simp add: ok_or_def)

lemma is_ok_simps [simp]: "is_ok (Inr x)" "\<not> is_ok (Inl e)"
  by (simp_all add: is_ok_def)

lemma is_ok_iff: "is_ok r \<longleftrightarrow> (\<exists>x. r = Inr x)"
  by (cases r) auto

lemma result_bind_eq_Inr [result_simps]:
  "result_bind r f = Inr y \<longleftrightarrow> (\<exists>x. r = Inr x \<and> f x = Inr y)"
  by (cases r) auto

lemma result_bind_eq_Inl [result_simps]:
  "result_bind r f = Inl e \<longleftrightarrow> r = Inl e \<or> (\<exists>x. r = Inr x \<and> f x = Inl e)"
  by (cases r) auto

lemma map_err_eq_Inr [result_simps]: "map_err g r = Inr x \<longleftrightarrow> r = Inr x"
  by (cases r) auto

lemma map_err_eq_Inl [result_simps]: "map_err g r = Inl e \<longleftrightarrow> (\<exists>d. r = Inl d \<and> e = g d)"
  by (cases r) auto

lemma ok_or_eq_Inr [result_simps]: "ok_or e x = Inr v \<longleftrightarrow> x = Some v"
  by (cases x) auto

lemma ok_or_eq_Inl [result_simps]: "ok_or e x = Inl d \<longleftrightarrow> x = None \<and> d = e"
  by (cases x) auto

lemma result_bind_cong [fundef_cong]:
  assumes "r = r'" and "\<And>x. r' = Inr x \<Longrightarrow> f x = f' x"
  shows "result_bind r f = result_bind r' f'"
  using assms by (cases r') auto

section \<open>Machine arithmetic on \<open>usize\<close> and \<open>u64\<close>\<close>

text \<open>
  \<open>usize\<close> values are \<open>nat\<close> on a 64-bit target; the checked and saturating operations
  write the bound out.
\<close>

definition USIZE_MAX :: nat where
  "USIZE_MAX = 2 ^ 64 - 1"

definition U32_MAX :: nat where
  "U32_MAX = 2 ^ 32 - 1"

definition checked_add :: "nat \<Rightarrow> nat \<Rightarrow> nat option" where
  "checked_add a b = (if a + b \<le> USIZE_MAX then Some (a + b) else None)"

definition saturating_add :: "nat \<Rightarrow> nat \<Rightarrow> nat" where
  "saturating_add a b = min (a + b) USIZE_MAX"

definition saturating_mul :: "nat \<Rightarrow> nat \<Rightarrow> nat" where
  "saturating_mul a b = min (a * b) USIZE_MAX"

definition u32_try_from :: "nat \<Rightarrow> u32 option" where
  "u32_try_from n = (if n \<le> U32_MAX then Some (of_nat n) else None)"

definition checked_add_u64 :: "u64 \<Rightarrow> u64 \<Rightarrow> u64 option" where
  "checked_add_u64 a b = (if unat a + unat b < 2 ^ 64 then Some (a + b) else None)"

lemma checked_add_eq_Some [result_simps]:
  "checked_add a b = Some c \<longleftrightarrow> c = a + b \<and> a + b \<le> USIZE_MAX"
  by (auto simp: checked_add_def)

lemma checked_add_eq_None [result_simps]:
  "checked_add a b = None \<longleftrightarrow> USIZE_MAX < a + b"
  by (auto simp: checked_add_def)

lemma U32_lt_USIZE: "U32_MAX < USIZE_MAX"
  by (simp add: U32_MAX_def USIZE_MAX_def)

lemma U32_bound: "U32_MAX = 4294967295"
  by (simp add: U32_MAX_def)

lemma USIZE_bound: "USIZE_MAX = 18446744073709551615"
  by (simp add: USIZE_MAX_def)

lemma u32_try_from_eq_Some [result_simps]:
  "u32_try_from n = Some w \<longleftrightarrow> n \<le> U32_MAX \<and> w = of_nat n"
  by (auto simp: u32_try_from_def)

lemma u32_try_from_eq_None [result_simps]: "u32_try_from n = None \<longleftrightarrow> U32_MAX < n"
  by (auto simp: u32_try_from_def)

lemma unat_word_less: "unat (w :: 'a::len word) < 2 ^ LENGTH('a)"
  by (rule unsigned_less)

lemma unat_of_nat_u32: "n \<le> U32_MAX \<Longrightarrow> unat (of_nat n :: u32) = n"
  by (simp add: unat_of_nat U32_MAX_def take_bit_nat_eq_self)

lemma unat_u32_le: "unat (w :: u32) \<le> U32_MAX"
  using unat_word_less [of w] by (simp add: U32_MAX_def)

lemma checked_add_u64_eq_Some [result_simps]:
  "checked_add_u64 a b = Some c \<longleftrightarrow> c = a + b \<and> unat a + unat b < 2 ^ 64"
  by (auto simp: checked_add_u64_def)

section \<open>Little-endian integers\<close>

fun le_bytes :: "nat \<Rightarrow> nat \<Rightarrow> bytes" where
  "le_bytes 0 v = []"
| "le_bytes (Suc n) v = of_nat (v mod 256) # le_bytes n (v div 256)"

fun le_nat :: "bytes \<Rightarrow> nat" where
  "le_nat [] = 0"
| "le_nat (b # bs) = unat b + 256 * le_nat bs"

definition u16_to_le :: "u16 \<Rightarrow> bytes" where "u16_to_le w = le_bytes 2 (unat w)"
definition u32_to_le :: "u32 \<Rightarrow> bytes" where "u32_to_le w = le_bytes 4 (unat w)"
definition u64_to_le :: "u64 \<Rightarrow> bytes" where "u64_to_le w = le_bytes 8 (unat w)"

definition u16_from_le :: "bytes \<Rightarrow> u16" where "u16_from_le bs = of_nat (le_nat bs)"
definition u32_from_le :: "bytes \<Rightarrow> u32" where "u32_from_le bs = of_nat (le_nat bs)"
definition u64_from_le :: "bytes \<Rightarrow> u64" where "u64_from_le bs = of_nat (le_nat bs)"

lemma length_le_bytes [simp]: "length (le_bytes n v) = n"
  by (induction n arbitrary: v) simp_all

lemma unat_byte_of_nat_mod: "unat (of_nat (v mod 256) :: byte) = v mod 256"
proof -
  have "v mod 256 < 2 ^ LENGTH(8)" by simp
  then show ?thesis by (simp add: unat_of_nat take_bit_nat_eq_self)
qed

lemma le_nat_le_bytes: "le_nat (le_bytes n v) = v mod 256 ^ n"
proof (induction n arbitrary: v)
  case 0
  then show ?case by simp
next
  case (Suc n)
  have "v mod (256 * 256 ^ n) = 256 * (v div 256 mod 256 ^ n) + v mod 256"
    by (rule mod_mult2_eq)
  with Suc show ?case by (simp add: unat_byte_of_nat_mod)
qed

lemma le_nat_bound: "le_nat bs < 256 ^ length bs"
proof (induction bs)
  case Nil
  then show ?case by simp
next
  case (Cons b bs)
  have "unat b < 256" using unat_word_less [of b] by simp
  with Cons show ?case by simp
qed

lemma le_bytes_le_nat: "length bs = n \<Longrightarrow> le_bytes n (le_nat bs) = bs"
proof (induction bs arbitrary: n)
  case Nil
  then show ?case by simp
next
  case (Cons b bs)
  then obtain m where n: "n = Suc m" "length bs = m" by (cases n) auto
  have b: "unat b < 256" using unat_word_less [of b] by simp
  have "(unat b + 256 * le_nat bs) mod 256 = unat b" using b by simp
  moreover have "(unat b + 256 * le_nat bs) div 256 = le_nat bs" using b by simp
  ultimately show ?case using Cons.IH [OF n(2)] n by simp
qed

lemma length_u16_to_le [simp]: "length (u16_to_le w) = 2"
  by (simp add: u16_to_le_def)

lemma length_u32_to_le [simp]: "length (u32_to_le w) = 4"
  by (simp add: u32_to_le_def)

lemma length_u64_to_le [simp]: "length (u64_to_le w) = 8"
  by (simp add: u64_to_le_def)

lemma u16_from_to_le [simp, bytes_simps]: "u16_from_le (u16_to_le w) = w"
  using unat_word_less [of w]
  by (simp add: u16_from_le_def u16_to_le_def le_nat_le_bytes)

lemma u32_from_to_le [simp, bytes_simps]: "u32_from_le (u32_to_le w) = w"
  using unat_word_less [of w]
  by (simp add: u32_from_le_def u32_to_le_def le_nat_le_bytes)

lemma u64_from_to_le [simp, bytes_simps]: "u64_from_le (u64_to_le w) = w"
  using unat_word_less [of w]
  by (simp add: u64_from_le_def u64_to_le_def le_nat_le_bytes)

lemma u16_to_from_le: "length bs = 2 \<Longrightarrow> u16_to_le (u16_from_le bs) = bs"
  using le_nat_bound [of bs] le_bytes_le_nat [of bs 2]
  by (simp add: u16_from_le_def u16_to_le_def unat_of_nat take_bit_nat_eq_self)

lemma u32_to_from_le: "length bs = 4 \<Longrightarrow> u32_to_le (u32_from_le bs) = bs"
  using le_nat_bound [of bs] le_bytes_le_nat [of bs 4]
  by (simp add: u32_from_le_def u32_to_le_def unat_of_nat take_bit_nat_eq_self)

lemma u64_to_from_le: "length bs = 8 \<Longrightarrow> u64_to_le (u64_from_le bs) = bs"
  using le_nat_bound [of bs] le_bytes_le_nat [of bs 8]
  by (simp add: u64_from_le_def u64_to_le_def unat_of_nat take_bit_nat_eq_self)

lemma le_bytes_numeral [simp]:
  "le_bytes (numeral k) v = of_nat (v mod 256) # le_bytes (pred_numeral k) (v div 256)"
  by (metis le_bytes.simps(2) numeral_eq_Suc)

section \<open>Slices\<close>

text \<open>
  \<open>&buf[a..b]\<close>. Rust panics unless \<open>a \<le> b \<le> buf.len()\<close>; every use in the source stands
  behind a length check, and where it does \<open>subslice\<close> has exactly \<open>b - a\<close> bytes.
\<close>

definition subslice :: "nat \<Rightarrow> nat \<Rightarrow> 'a list \<Rightarrow> 'a list" where
  "subslice a b xs = take (b - a) (drop a xs)"

lemma length_subslice [simp]: "b \<le> length xs \<Longrightarrow> length (subslice a b xs) = b - a"
  by (simp add: subslice_def)

lemma subslice_append_left: "b \<le> length xs \<Longrightarrow> subslice a b (xs @ ys) = subslice a b xs"
  by (simp add: subslice_def)

lemma subslice_append_right [bytes_simps]:
  "length xs \<le> a \<Longrightarrow> subslice a b (xs @ ys) = subslice (a - length xs) (b - length xs) ys"
  by (simp add: subslice_def)

lemma subslice_append_exact [bytes_simps]:
  "a = 0 \<Longrightarrow> b = length xs \<Longrightarrow> subslice a b (xs @ ys) = xs"
  by (simp add: subslice_def)

lemma subslice_Cons [bytes_simps]: "0 < a \<Longrightarrow> subslice a b (x # xs) = subslice (a - 1) (b - 1) xs"
  by (cases a; cases b) (simp_all add: subslice_def)

lemma subslice_0_take: "subslice 0 b xs = take b xs"
  by (simp add: subslice_def)

lemma subslice_all [bytes_simps]: "a = 0 \<Longrightarrow> b = length xs \<Longrightarrow> subslice a b xs = xs"
  by (simp add: subslice_def)

lemma subslice_join: "a \<le> b \<Longrightarrow> b \<le> c \<Longrightarrow> subslice a b xs @ subslice b c xs = subslice a c xs"
proof -
  assume ab: "a \<le> b" and bc: "b \<le> c"
  have "take (c - a) (drop a xs) = take (b - a) (drop a xs) @ take (c - b) (drop (b - a) (drop a xs))"
    using ab bc by (metis Nat.diff_add_assoc2 add.commute le_add_diff_inverse le_add_diff_inverse2 take_add)
  with ab show ?thesis by (simp add: subslice_def)
qed

lemma subslice_join_glue [glue_simps]:
  "a \<le> b \<Longrightarrow> b \<le> c \<Longrightarrow> subslice a b xs @ subslice b c xs = subslice a c xs"
  "a \<le> b \<Longrightarrow> b \<le> c \<Longrightarrow> subslice a b xs @ subslice b c xs @ ys = subslice a c xs @ ys"
  by (simp_all add: subslice_join flip: append_assoc)

lemma subslice_Suc: "a \<le> b \<Longrightarrow> b < length xs \<Longrightarrow> subslice a (Suc b) xs = subslice a b xs @ [xs ! b]"
  by (simp add: subslice_def Suc_diff_le take_Suc_conv_app_nth)

lemma subslice_byte_glue [glue_simps]:
  "j = Suc i \<Longrightarrow> i < length xs \<Longrightarrow> j \<le> c \<Longrightarrow> xs ! i # subslice j c xs = subslice i c xs"
  "j = Suc i \<Longrightarrow> i < length xs \<Longrightarrow> j \<le> c \<Longrightarrow> xs ! i # subslice j c xs @ ys = subslice i c xs @ ys"
  "a \<le> i \<Longrightarrow> i < length xs \<Longrightarrow> subslice a i xs @ xs ! i # ys = subslice a (Suc i) xs @ ys"
proof -
  assume ij: "j = Suc i" "i < length xs" "j \<le> c"
  have *: "xs ! i # subslice j c xs = subslice i c xs"
    using subslice_join [of i "Suc i" c xs] subslice_Suc [of i i xs] ij
    by (simp add: subslice_def)
  then show "xs ! i # subslice j c xs = subslice i c xs" .
  from * show "xs ! i # subslice j c xs @ ys = subslice i c xs @ ys"
    by (metis append_Cons)
next
  assume "a \<le> i" "i < length xs"
  then show "subslice a i xs @ xs ! i # ys = subslice a (Suc i) xs @ ys"
    by (simp add: subslice_Suc)
qed

lemma take_subslice [glue_simps]: "take n xs = subslice 0 n xs"
  by (simp add: subslice_def)

lemma take_Cons_subslice: "0 < n \<Longrightarrow> n \<le> length xs \<Longrightarrow> take n xs = xs ! 0 # subslice 1 n xs"
  by (cases xs; cases n) (simp_all add: subslice_def)

lemma nth_append_skip [bytes_simps]: "length xs \<le> i \<Longrightarrow> (xs @ ys) ! i = ys ! (i - length xs)"
  by (simp add: nth_append)

lemma subslice_subslice: "d \<le> b - a \<Longrightarrow> subslice c d (subslice a b xs) = subslice (a + c) (a + d) xs"
  by (simp add: subslice_def drop_take add.commute min_def)

lemma subslice_drop: "subslice a b (drop n xs) = subslice (a + n) (b + n) xs"
  by (simp add: subslice_def add.commute)

section \<open>Text\<close>

text \<open>
  A Rust \<open>str\<close> is its UTF-8 bytes. \<open>utf8_valid\<close> is the well-formedness table of the
  Unicode standard that \<open>std::str::from_utf8\<close> implements.
\<close>

definition utf8_cont :: "byte \<Rightarrow> bool" where
  "utf8_cont b \<longleftrightarrow> 0x80 \<le> b \<and> b \<le> 0xBF"

fun utf8_valid :: "bytes \<Rightarrow> bool" where
  "utf8_valid [] = True"
| "utf8_valid (b # bs) =
    (if b < 0x80 then utf8_valid bs
     else if 0xC2 \<le> b \<and> b \<le> 0xDF then
       (case bs of c1 # rest \<Rightarrow> utf8_cont c1 \<and> utf8_valid rest | _ \<Rightarrow> False)
     else if 0xE0 \<le> b \<and> b \<le> 0xEF then
       (case bs of c1 # c2 # rest \<Rightarrow>
          (if b = 0xE0 then 0xA0 \<le> c1 \<and> c1 \<le> 0xBF
           else if b = 0xED then 0x80 \<le> c1 \<and> c1 \<le> 0x9F else utf8_cont c1)
          \<and> utf8_cont c2 \<and> utf8_valid rest
        | _ \<Rightarrow> False)
     else if 0xF0 \<le> b \<and> b \<le> 0xF4 then
       (case bs of c1 # c2 # c3 # rest \<Rightarrow>
          (if b = 0xF0 then 0x90 \<le> c1 \<and> c1 \<le> 0xBF
           else if b = 0xF4 then 0x80 \<le> c1 \<and> c1 \<le> 0x8F else utf8_cont c1)
          \<and> utf8_cont c2 \<and> utf8_cont c3 \<and> utf8_valid rest
        | _ \<Rightarrow> False)
     else False)"

definition from_utf8 :: "bytes \<Rightarrow> bytes option" where
  "from_utf8 bs = (if utf8_valid bs then Some bs else None)"

lemma from_utf8_eq_Some [result_simps]: "from_utf8 bs = Some s \<longleftrightarrow> s = bs \<and> utf8_valid bs"
  by (auto simp: from_utf8_def)

lemma from_utf8_eq_None [result_simps]: "from_utf8 bs = None \<longleftrightarrow> \<not> utf8_valid bs"
  by (auto simp: from_utf8_def)

text \<open>The bytes of an ASCII literal of the source.\<close>

definition ascii :: "string \<Rightarrow> bytes" where
  "ascii s = map (\<lambda>c. of_nat (of_char c)) s"

lemma length_ascii [simp]: "length (ascii s) = length s"
  by (simp add: ascii_def)

section \<open>Finite maps and sets\<close>

text \<open>
  \<open>HashMap\<close> and \<open>BTreeMap\<close> values are association lists with distinct keys
  (\<open>map_of\<close>, \<open>AList.update\<close>, \<open>length\<close> for \<open>get\<close>, \<open>insert\<close>, \<open>len\<close>), and a
  \<open>HashSet\<close> is a list without duplicates (\<open>List.insert\<close>).
\<close>

abbreviation distinct_keys :: "('k \<times> 'v) list \<Rightarrow> bool" where
  "distinct_keys m \<equiv> distinct (map fst m)"

lemma map_of_update [simp]: "map_of (AList.update k v m) = (map_of m)(k \<mapsto> v)"
  by (rule AList.update_conv')

lemma distinct_keys_update [simp]: "distinct_keys m \<Longrightarrow> distinct_keys (AList.update k v m)"
  by (rule AList.distinct_update)

lemma length_update_new: "map_of m k = None \<Longrightarrow> length (AList.update k v m) = Suc (length m)"
  by (induction m) (auto split: if_splits)

lemma length_update_old: "map_of m k = Some w \<Longrightarrow> length (AList.update k v m) = length m"
  by (induction m) (auto split: if_splits)

lemma length_update: "length (AList.update k v m) =
    (if map_of m k = None then Suc (length m) else length m)"
  using length_update_new [of m k v] length_update_old [of m k _ v] by (cases "map_of m k") auto

lemma values_update:
  assumes "distinct_keys m"
  shows "snd ` set (AList.update k v m) = insert v (snd ` set (filter (\<lambda>p. fst p \<noteq> k) m))"
  using assms by (induction m) (auto simp: image_iff)

lemma length_insert_set: "length (List.insert x xs) = (if x \<in> set xs then length xs else Suc (length xs))"
  by (simp add: List.insert_def)

end
