(* ===== verification/Errors.thy ===== *)
theory Errors
  imports Prelude
begin

text \<open>
  The error vocabularies of \<open>encoding.rs\<close> (\<open>ValueConstraint\<close>, \<open>DecodeError\<close> with
  \<open>error_kind\<close>, \<open>EncodeError\<close>) and of \<open>store.rs\<close> (\<open>CausalChainError\<close>,
  \<open>FailureCondition\<close> with \<open>remedy\<close>, and the inspection predicates of \<open>OperationFailure\<close>).
  An \<open>OperationFailure\<close> is represented by its condition: the diagnostic text and the
  optional backend source it also carries are read by no branch of the program. Where a
  constructor name occurs in two enums of the source, the second one has a suffix here.
\<close>

section \<open>Wire-level errors\<close>

datatype value_constraint = TooLong | Empty | NotReal | InvalidChar | InvalidUtf8_constraint

datatype decode_error =
    InvalidMagic
  | UnsupportedFormatVersion u32
  | ChecksumMismatch u32 u32
  | TruncatedPayload nat nat
  | TruncatedHeader nat nat
  | InvalidBooleanDiscriminant byte
  | InvalidBoolean byte
  | LengthExceeded nat nat
  | EmptyNonEmptyString
  | InvalidUtf8
  | ItemCountExceeded nat nat
  | InvalidOptionTag byte
  | UnknownVariantDiscriminant u32
  | InvalidTimestampSentinel
  | UnknownRecordTag byte
  | UnknownConstructorTag byte
  | UnknownPartitioningRuleTag byte
  | InvalidMigrationStatus byte
  | InvalidRescuePolicy byte
  | InvalidDiscriminantWidth byte
  | CycleDetected string
  | UnterminatedDescriptor
  | ValueConstraintViolated value_constraint
  | Custom string

fun error_kind :: "decode_error \<Rightarrow> string" where
  "error_kind InvalidMagic = ''InvalidMagic''"
| "error_kind (UnsupportedFormatVersion _) = ''UnsupportedFormatVersion''"
| "error_kind (ChecksumMismatch _ _) = ''ChecksumMismatch''"
| "error_kind (TruncatedPayload _ _) = ''TruncatedPayload''"
| "error_kind (TruncatedHeader _ _) = ''TruncatedHeader''"
| "error_kind (InvalidBooleanDiscriminant _) = ''InvalidBooleanDiscriminant''"
| "error_kind (InvalidBoolean _) = ''InvalidBoolean''"
| "error_kind (LengthExceeded _ _) = ''LengthExceeded''"
| "error_kind EmptyNonEmptyString = ''EmptyNonEmptyString''"
| "error_kind InvalidUtf8 = ''InvalidUtf8''"
| "error_kind (ItemCountExceeded _ _) = ''ItemCountExceeded''"
| "error_kind (InvalidOptionTag _) = ''InvalidOptionTag''"
| "error_kind (UnknownVariantDiscriminant _) = ''UnknownVariantDiscriminant''"
| "error_kind InvalidTimestampSentinel = ''InvalidTimestampSentinel''"
| "error_kind (UnknownRecordTag _) = ''UnknownRecordTag''"
| "error_kind (UnknownConstructorTag _) = ''UnknownConstructorTag''"
| "error_kind (UnknownPartitioningRuleTag _) = ''UnknownPartitioningRuleTag''"
| "error_kind (InvalidMigrationStatus _) = ''InvalidMigrationStatus''"
| "error_kind (InvalidRescuePolicy _) = ''InvalidRescuePolicy''"
| "error_kind (InvalidDiscriminantWidth _) = ''InvalidDiscriminantWidth''"
| "error_kind (CycleDetected _) = ''CycleDetected''"
| "error_kind UnterminatedDescriptor = ''UnterminatedDescriptor''"
| "error_kind (ValueConstraintViolated c) =
    (case c of
       TooLong \<Rightarrow> ''LengthExceeded''
     | Empty \<Rightarrow> ''EmptyNonEmptyString''
     | NotReal \<Rightarrow> ''NotReal''
     | InvalidChar \<Rightarrow> ''InvalidChar''
     | InvalidUtf8_constraint \<Rightarrow> ''InvalidUtf8'')"
| "error_kind (Custom _) = ''Custom''"

datatype encode_error =
    LengthExceeded_enc nat nat
  | EmptyNonEmptyString_enc
  | InvalidTimestampSentinel_enc
  | ItemCountExceeded_enc nat nat
  | DepthExceeded nat nat
  | ChecksumMismatch_enc u32 u32
  | Custom_enc string

type_synonym 'a decoded = "decode_error + 'a \<times> nat"

section \<open>Operation failures\<close>

datatype causal_chain_error = PrecursorOutOfRange | PrecursorWrongFiber

datatype failure_condition =
    StoreAlreadyExists
  | NoArtefactExists
  | ConcurrencyConflict
  | StaleEpoch
  | OwnershipUnestablished
  | OwnershipRecordUnreadable
  | ExclusionUnavailable
  | AnotherOwnerHoldsExclusion
  | MigrationExclusionAbsent
  | MigrationAlreadyRunning
  | PrecursorChainBroken "causal_chain_error option"
  | UncoveredPartitionMembership
  | SchemaMismatch
  | EnvelopeMismatch
  | MismatchUndeterminedSubject
  | ArtefactMismatch
  | ValueConstraintViolated_fc value_constraint
  | UnrecognisedWireTag byte
  | InvariantBreakingConfiguration
  | MissingSchemaDescriptor
  | TransformationRefused
  | RetiredMigrationSource
  | TransportUnavailable

type_synonym operation_failure = failure_condition
type_synonym 'a operation = "operation_failure + 'a"

fun remedy :: "failure_condition \<Rightarrow> string" where
  "remedy StoreAlreadyExists = ''open the existing artefact instead of creating it''"
| "remedy NoArtefactExists = ''create the artefact first with strict create''"
| "remedy ConcurrencyConflict = ''stop; another writer took ownership by compare-and-set''"
| "remedy StaleEpoch = ''stop; writer lost ownership, do not retry with stale epoch''"
| "remedy OwnershipUnestablished = ''establish ownership or perform read-only open''"
| "remedy OwnershipRecordUnreadable =
    ''re-establish current authority and determine which events landed before resubmitting''"
| "remedy ExclusionUnavailable = ''wait or configure the required platform exclusion mechanism''"
| "remedy AnotherOwnerHoldsExclusion =
    ''wait for other owner to release exclusion or initiate operator takeover''"
| "remedy MigrationExclusionAbsent = ''obtain exclusive access to target before starting migration''"
| "remedy MigrationAlreadyRunning = ''wait for running migration to finish''"
| "remedy (PrecursorChainBroken _) =
    ''enter broken artefact only through explicit call-site migration election''"
| "remedy UncoveredPartitionMembership = ''configure explicit partition mapping for the fiber''"
| "remedy SchemaMismatch = ''reconcile schema descriptor or migrate payload''"
| "remedy EnvelopeMismatch = ''align envelope header shape''"
| "remedy MismatchUndeterminedSubject =
    ''inspect diagnostic detail and provide matching descriptor/envelope''"
| "remedy ArtefactMismatch =
    ''inspect diagnostic detail for pairing check failure and supply matching pair''"
| "remedy (ValueConstraintViolated_fc _) = ''adjust value to satisfy the constraint''"
| "remedy (UnrecognisedWireTag _) = ''upgrade reader to recognise the wire tag''"
| "remedy InvariantBreakingConfiguration = ''adjust open configuration to respect invariants''"
| "remedy MissingSchemaDescriptor =
    ''supply schema descriptor; no artefact omitting descriptor is admitted''"
| "remedy TransformationRefused = ''provide valid payload transformation for migration''"
| "remedy RetiredMigrationSource =
    ''redirect writes to migration target; source append authority is permanently retired''"
| "remedy TransportUnavailable =
    ''inspect network connectivity, cluster health, and authentication credentials; retry operation''"

definition is_already_exists :: "operation_failure \<Rightarrow> bool" where
  "is_already_exists f \<longleftrightarrow> f = StoreAlreadyExists"

definition is_not_found :: "operation_failure \<Rightarrow> bool" where
  "is_not_found f \<longleftrightarrow> f = NoArtefactExists"

definition is_concurrency_conflict :: "operation_failure \<Rightarrow> bool" where
  "is_concurrency_conflict f \<longleftrightarrow> f = ConcurrencyConflict"

definition is_stale_epoch :: "operation_failure \<Rightarrow> bool" where
  "is_stale_epoch f \<longleftrightarrow> f = StaleEpoch"

end
