(* ===== verification/Codec.thy ===== *)
theory Codec
  imports Errors
begin

text \<open>
  The contracts the wire components share. \<open>codec\<close> is what a reader of a buffer relies on:
  decoding an encoding, whatever follows it, returns the value and consumes exactly its
  bytes, and a successful decode stays inside the buffer. \<open>canonical_codec\<close> adds that the
  bytes consumed are the encoding of the value returned, so a value has one wire form.
  \<open>pardosa_type\<close> is the contract of the trait \<open>PardosaType\<close> in \<open>schema.rs\<close>, whose encoder
  may refuse a value and whose decoder computes with offsets into a buffer of at most \<open>usize::MAX\<close> bytes;
  every codec gives one.
\<close>

locale codec =
  fixes enc :: "'a \<Rightarrow> bytes"
    and dec :: "bytes \<Rightarrow> 'a decoded"
    and valid :: "'a \<Rightarrow> bool"
  assumes dec_enc: "valid x \<Longrightarrow> dec (enc x @ rest) = Inr (x, length (enc x))"
    and dec_sound: "dec buf = Inr (x, n) \<Longrightarrow> valid x \<and> n \<le> length buf"
begin

lemma dec_enc_exact: "valid x \<Longrightarrow> dec (enc x) = Inr (x, length (enc x))"
  using dec_enc [of x "[]"] by simp

lemma enc_prefix_free:
  assumes "valid x" and "valid y" and "enc x @ r = enc y @ s"
  shows "x = y \<and> r = s"
proof -
  have "dec (enc x @ r) = dec (enc y @ s)" using assms(3) by simp
  then have eq: "(x, length (enc x)) = (y, length (enc y))"
    using dec_enc [OF assms(1)] dec_enc [OF assms(2)] by simp
  with assms(3) show ?thesis by simp
qed

lemma enc_inject: "valid x \<Longrightarrow> valid y \<Longrightarrow> enc x = enc y \<Longrightarrow> x = y"
  using enc_prefix_free [of x y "[]" "[]"] by simp

lemma dec_consumed_le: "dec buf = Inr (x, n) \<Longrightarrow> n \<le> length buf"
  using dec_sound by blast

lemma dec_valid: "dec buf = Inr (x, n) \<Longrightarrow> valid x"
  using dec_sound by blast

end

locale canonical_codec = codec +
  assumes dec_canonical: "dec buf = Inr (x, n) \<Longrightarrow> take n buf = enc x"
begin

lemma dec_split:
  assumes "dec buf = Inr (x, n)"
  shows "buf = enc x @ drop n buf \<and> n = length (enc x)"
proof -
  have "take n buf = enc x" and "n \<le> length buf"
    using dec_canonical [OF assms] dec_sound [OF assms] by auto
  then have "length (enc x) = n" by (metis length_take min.absorb2)
  with \<open>take n buf = enc x\<close> show ?thesis by (metis append_take_drop_id)
qed

lemma dec_exact_unique:
  assumes "dec buf = Inr (x, length buf)"
  shows "buf = enc x"
  using dec_split [OF assms] by simp

lemma dec_ignores_tail:
  assumes "dec buf = Inr (x, n)"
  shows "dec (take n buf @ tail) = Inr (x, n)"
  using dec_enc [OF dec_valid [OF assms], of tail] dec_canonical [OF assms] dec_split [OF assms]
  by simp

end

locale pardosa_type =
  fixes encode_type :: "'a \<Rightarrow> encode_error + bytes"
    and decode_type :: "bytes \<Rightarrow> 'a decoded"
    and admitted :: "'a \<Rightarrow> bool"
  assumes encode_total: "admitted x \<Longrightarrow> \<exists>bs. encode_type x = Inr bs"
    and decode_encode: "admitted x \<Longrightarrow> encode_type x = Inr bs \<Longrightarrow> length (bs @ rest) \<le> USIZE_MAX \<Longrightarrow>
      decode_type (bs @ rest) = Inr (x, length bs)"
    and decode_sound: "decode_type buf = Inr (x, n) \<Longrightarrow> admitted x \<and> n \<le> length buf"
begin

lemma encode_inject:
  assumes "admitted x" and "admitted y" and "encode_type x = Inr bs" and "encode_type y = Inr bs"
    and "length bs \<le> USIZE_MAX"
  shows "x = y"
  using decode_encode [OF assms(1,3), of "[]"] decode_encode [OF assms(2,4), of "[]"] assms(5) by simp

end

sublocale codec \<subseteq> as_type: pardosa_type "\<lambda>x. Inr (enc x)" dec valid
  by unfold_locales (use dec_enc dec_sound in auto)

end
