(* ===== verification/Event_Values.thy ===== *)
theory Event_Values
  imports Codec
begin

text \<open>
  The bounded value types of \<open>encoding.rs\<close>: \<open>EventString\<close>, \<open>NonEmptyEventString\<close>,
  \<open>EventBytes\<close>, \<open>EventVec\<close> (its constructor; its codec is in \<open>Payload_Types\<close>),
  \<open>Timestamp\<close> and \<open>Uuid\<close>, with the constructor, encoder and decoder of each. The const
  generic \<open>MAX\<close> is the argument \<open>mx\<close>. A \<open>String\<close> is its UTF-8 bytes; the result of an encoder is
  the list of bytes it appends to the buffer.
\<close>

definition EventString_new :: "nat \<Rightarrow> bytes \<Rightarrow> decode_error + bytes" where
  "EventString_new mx s =
    (if mx > U32_MAX then Inl (ValueConstraintViolated TooLong)
     else if length s > mx then Inl (LengthExceeded (length s) mx)
     else Inr s)"

definition EventString_encode :: "bytes \<Rightarrow> bytes" where
  "EventString_encode s = u32_to_le (of_nat (length s)) @ s"

definition EventString_decode :: "nat \<Rightarrow> bytes \<Rightarrow> bytes decoded" where
  "EventString_decode mx buf =
    (if mx > U32_MAX then Inl (ValueConstraintViolated TooLong)
     else if length buf < 4 then Inl (TruncatedPayload 4 (length buf))
     else
       (let len = unat (u32_from_le (subslice 0 4 buf)) in
        if len > mx then Inl (LengthExceeded len mx)
        else if length buf < 4 + len then Inl (TruncatedPayload (4 + len) (length buf))
        else
          (case from_utf8 (subslice 4 (4 + len) buf) of
             None \<Rightarrow> Inl InvalidUtf8
           | Some s \<Rightarrow> Inr (s, 4 + len))))"

definition NonEmptyEventString_new :: "nat \<Rightarrow> bytes \<Rightarrow> decode_error + bytes" where
  "NonEmptyEventString_new mx s =
    (if mx > U32_MAX then Inl (ValueConstraintViolated TooLong)
     else if s = [] then Inl EmptyNonEmptyString
     else if length s > mx then Inl (LengthExceeded (length s) mx)
     else Inr s)"

definition NonEmptyEventString_encode :: "bytes \<Rightarrow> bytes" where
  "NonEmptyEventString_encode s = u32_to_le (of_nat (length s)) @ s"

definition NonEmptyEventString_decode :: "nat \<Rightarrow> bytes \<Rightarrow> bytes decoded" where
  "NonEmptyEventString_decode mx buf =
    (if mx > U32_MAX then Inl (ValueConstraintViolated TooLong)
     else if length buf < 4 then Inl (TruncatedPayload 4 (length buf))
     else
       (let len = unat (u32_from_le (subslice 0 4 buf)) in
        if len = 0 then Inl EmptyNonEmptyString
        else if len > mx then Inl (LengthExceeded len mx)
        else if length buf < 4 + len then Inl (TruncatedPayload (4 + len) (length buf))
        else
          (case from_utf8 (subslice 4 (4 + len) buf) of
             None \<Rightarrow> Inl InvalidUtf8
           | Some s \<Rightarrow> Inr (s, 4 + len))))"

definition EventBytes_new :: "nat \<Rightarrow> bytes \<Rightarrow> decode_error + bytes" where
  "EventBytes_new mx b =
    (if mx > U32_MAX then Inl (ValueConstraintViolated TooLong)
     else if length b > mx then Inl (LengthExceeded (length b) mx)
     else Inr b)"

definition EventBytes_encode :: "bytes \<Rightarrow> bytes" where
  "EventBytes_encode b = u32_to_le (of_nat (length b)) @ b"

definition EventBytes_decode :: "nat \<Rightarrow> bytes \<Rightarrow> bytes decoded" where
  "EventBytes_decode mx buf =
    (if mx > U32_MAX then Inl (ValueConstraintViolated TooLong)
     else if length buf < 4 then Inl (TruncatedPayload 4 (length buf))
     else
       (let len = unat (u32_from_le (subslice 0 4 buf)) in
        if len > mx then Inl (LengthExceeded len mx)
        else if length buf < 4 + len then Inl (TruncatedPayload (4 + len) (length buf))
        else Inr (subslice 4 (4 + len) buf, 4 + len)))"

definition EventVec_new :: "nat \<Rightarrow> 'a list \<Rightarrow> decode_error + 'a list" where
  "EventVec_new mx items =
    (if mx > U32_MAX then Inl (ValueConstraintViolated TooLong)
     else if length items > mx then Inl (ItemCountExceeded (length items) mx)
     else Inr items)"

definition Timestamp_new :: "u64 \<Rightarrow> decode_error + u64" where
  "Timestamp_new nanos = (if nanos = 0 then Inl InvalidTimestampSentinel else Inr nanos)"

definition Timestamp_encode :: "u64 \<Rightarrow> bytes" where
  "Timestamp_encode t = u64_to_le t"

definition Timestamp_decode :: "bytes \<Rightarrow> u64 decoded" where
  "Timestamp_decode buf =
    (if length buf < 8 then Inl (TruncatedPayload 8 (length buf))
     else
       (let nanos = u64_from_le (subslice 0 8 buf) in
        if nanos = 0 then Inl InvalidTimestampSentinel else Inr (nanos, 8)))"

definition Uuid_encode :: "bytes \<Rightarrow> bytes" where
  "Uuid_encode u = u"

definition Uuid_decode :: "bytes \<Rightarrow> bytes decoded" where
  "Uuid_decode buf =
    (if length buf < 16 then Inl (TruncatedPayload 16 (length buf))
     else Inr (subslice 0 16 buf, 16))"

section \<open>What a value of each type satisfies\<close>

definition EventString_inv :: "nat \<Rightarrow> bytes \<Rightarrow> bool" where
  "EventString_inv mx s \<longleftrightarrow> mx \<le> U32_MAX \<and> length s \<le> mx \<and> utf8_valid s"

definition NonEmptyEventString_inv :: "nat \<Rightarrow> bytes \<Rightarrow> bool" where
  "NonEmptyEventString_inv mx s \<longleftrightarrow> EventString_inv mx s \<and> s \<noteq> []"

definition EventBytes_inv :: "nat \<Rightarrow> bytes \<Rightarrow> bool" where
  "EventBytes_inv mx b \<longleftrightarrow> mx \<le> U32_MAX \<and> length b \<le> mx"

definition Timestamp_inv :: "u64 \<Rightarrow> bool" where
  "Timestamp_inv t \<longleftrightarrow> t \<noteq> 0"

definition Uuid_inv :: "bytes \<Rightarrow> bool" where
  "Uuid_inv u \<longleftrightarrow> length u = 16"

lemmas event_value_invs = EventString_inv_def NonEmptyEventString_inv_def EventBytes_inv_def
  Timestamp_inv_def Uuid_inv_def

section \<open>The length-prefixed layout\<close>

text \<open>Three decoders read a four-byte length and then that many bytes; these two lemmas carry them.\<close>

lemma length_prefix_read:
  assumes "length s \<le> U32_MAX"
  shows "unat (u32_from_le (subslice 0 4 (u32_to_le (of_nat (length s)) @ s @ rest))) = length s"
    and "subslice 4 (4 + length s) (u32_to_le (of_nat (length s)) @ s @ rest) = s"
  using assms by (simp_all add: subslice_append_exact subslice_append_right unat_of_nat_u32)

lemma length_prefix_write:
  assumes "4 \<le> length buf" and "n = unat (u32_from_le (subslice 0 4 buf))"
    and "4 + n \<le> length buf"
  shows "take (4 + n) buf = u32_to_le (of_nat n) @ subslice 4 (4 + n) buf"
proof -
  have "u32_to_le (of_nat n) = subslice 0 4 buf"
    using assms(1,2) u32_to_from_le [of "subslice 0 4 buf"] by simp
  then show ?thesis
    using subslice_join [of 0 4 "4 + n" buf] by (simp add: subslice_0_take)
qed

section \<open>Codecs\<close>

interpretation event_string: canonical_codec EventString_encode "EventString_decode mx" "EventString_inv mx"
  for mx
proof
  fix s rest
  assume s: "EventString_inv mx s"
  then have "length s \<le> U32_MAX" by (simp add: EventString_inv_def)
  then show "EventString_decode mx (EventString_encode s @ rest) = Inr (s, length (EventString_encode s))"
    using s length_prefix_read [of s rest]
    by (simp add: EventString_decode_def EventString_encode_def EventString_inv_def from_utf8_def Let_def)
next
  fix buf x n
  assume d: "EventString_decode mx buf = Inr (x, n)"
  then show "EventString_inv mx x \<and> n \<le> length buf"
    by (auto simp: EventString_decode_def EventString_inv_def Let_def result_simps
        split: if_splits option.splits)
  from d show "take n buf = EventString_encode x"
    by (auto simp: EventString_decode_def EventString_encode_def Let_def result_simps length_prefix_write
        split: if_splits option.splits)
qed

interpretation non_empty_event_string: canonical_codec NonEmptyEventString_encode
    "NonEmptyEventString_decode mx" "NonEmptyEventString_inv mx"
  for mx
proof
  fix s rest
  assume s: "NonEmptyEventString_inv mx s"
  then have "length s \<le> U32_MAX" by (simp add: event_value_invs)
  then show "NonEmptyEventString_decode mx (NonEmptyEventString_encode s @ rest) =
      Inr (s, length (NonEmptyEventString_encode s))"
    using s length_prefix_read [of s rest]
    by (simp add: NonEmptyEventString_decode_def NonEmptyEventString_encode_def event_value_invs
        from_utf8_def Let_def)
next
  fix buf x n
  assume d: "NonEmptyEventString_decode mx buf = Inr (x, n)"
  then show "NonEmptyEventString_inv mx x \<and> n \<le> length buf"
    by (auto simp: NonEmptyEventString_decode_def event_value_invs Let_def result_simps subslice_def
        split: if_splits option.splits)
  from d show "take n buf = NonEmptyEventString_encode x"
    by (auto simp: NonEmptyEventString_decode_def NonEmptyEventString_encode_def Let_def result_simps
        length_prefix_write split: if_splits option.splits)
qed

interpretation event_bytes: canonical_codec EventBytes_encode "EventBytes_decode mx" "EventBytes_inv mx"
  for mx
proof
  fix b rest
  assume b: "EventBytes_inv mx b"
  then have "length b \<le> U32_MAX" by (simp add: EventBytes_inv_def)
  then show "EventBytes_decode mx (EventBytes_encode b @ rest) = Inr (b, length (EventBytes_encode b))"
    using b length_prefix_read [of b rest]
    by (simp add: EventBytes_decode_def EventBytes_encode_def EventBytes_inv_def Let_def)
next
  fix buf x n
  assume d: "EventBytes_decode mx buf = Inr (x, n)"
  then show "EventBytes_inv mx x \<and> n \<le> length buf"
    by (auto simp: EventBytes_decode_def EventBytes_inv_def Let_def split: if_splits)
  from d show "take n buf = EventBytes_encode x"
    by (auto simp: EventBytes_decode_def EventBytes_encode_def Let_def length_prefix_write
        split: if_splits)
qed

interpretation timestamp: canonical_codec Timestamp_encode Timestamp_decode Timestamp_inv
proof
  fix t rest
  assume "Timestamp_inv t"
  then show "Timestamp_decode (Timestamp_encode t @ rest) = Inr (t, length (Timestamp_encode t))"
    by (simp add: Timestamp_decode_def Timestamp_encode_def Timestamp_inv_def Let_def bytes_simps)
next
  fix buf x n
  assume d: "Timestamp_decode buf = Inr (x, n)"
  then show "Timestamp_inv x \<and> n \<le> length buf"
    by (auto simp: Timestamp_decode_def Timestamp_inv_def Let_def split: if_splits)
  from d show "take n buf = Timestamp_encode x"
    by (auto simp: Timestamp_decode_def Timestamp_encode_def Let_def subslice_0_take u64_to_from_le
        split: if_splits)
qed

interpretation uuid: canonical_codec Uuid_encode Uuid_decode Uuid_inv
  by unfold_locales
    (auto simp: Uuid_decode_def Uuid_encode_def Uuid_inv_def subslice_0_take split: if_splits)

section \<open>Constructors\<close>

lemma EventString_new_iff:
  "utf8_valid s \<Longrightarrow> EventString_new mx s = Inr t \<longleftrightarrow> t = s \<and> EventString_inv mx s"
  by (auto simp: EventString_new_def EventString_inv_def)

lemma NonEmptyEventString_new_iff:
  "utf8_valid s \<Longrightarrow> NonEmptyEventString_new mx s = Inr t \<longleftrightarrow> t = s \<and> NonEmptyEventString_inv mx s"
  by (auto simp: NonEmptyEventString_new_def event_value_invs)

lemma EventBytes_new_iff: "EventBytes_new mx b = Inr t \<longleftrightarrow> t = b \<and> EventBytes_inv mx b"
  by (auto simp: EventBytes_new_def EventBytes_inv_def)

end
