(* ===== verification/Envelope.thy ===== *)
theory Envelope
  imports Event_Values
begin

text \<open>
  The event envelope of \<open>encoding.rs\<close>: the 81-byte header, the borrowed and owned decoders,
  the size-checked encoder (\<open>WireEnvelope\<close>), the genesis and chaining constructors and the
  commitment that links an event to its precursor. \<open>H\<close> is BLAKE3 (\<open>blake3::hash\<close>, a crate
  outside the repository); feeding a hasher piecewise hashes the concatenation. Identifiers
  and digests are byte lists, whose fixed lengths are the well-formedness predicate
  \<open>EnvelopeHeader_wf\<close>.
\<close>

type_synonym blake3 = "bytes \<Rightarrow> bytes"

definition zero_id :: bytes where "zero_id = replicate 16 0"
definition zero_hash :: bytes where "zero_hash = replicate 32 0"

lemma length_zero_id [simp]: "length zero_id = 16"
  by (simp add: zero_id_def)

lemma length_zero_hash [simp]: "length zero_hash = 32"
  by (simp add: zero_hash_def)

section \<open>Envelope identity\<close>

definition EnvelopeIdentity_current :: "blake3 \<Rightarrow> bytes" where
  "EnvelopeIdentity_current H = H (ascii (''PARDOSA_ENVELOPE_V1:event_id:16,fiber_id:16,detached:1,'' @
     ''precursor:16,precursor_hash:32,payload_length:4''))"

section \<open>Header\<close>

record EnvelopeHeader =
  hdr_event_id :: bytes
  hdr_fiber_id :: bytes
  hdr_detached :: bool
  hdr_precursor :: bytes
  hdr_precursor_hash :: bytes

definition u8_from_bool :: "bool \<Rightarrow> byte" where
  "u8_from_bool b = (if b then 1 else 0)"

definition EnvelopeHeader_decode :: "bytes \<Rightarrow> EnvelopeHeader decoded" where
  "EnvelopeHeader_decode buf =
    (if length buf < 81 then Inl (TruncatedHeader 81 (length buf))
     else result_bind
       (if buf ! 32 = 0x00 then Inr False
        else if buf ! 32 = 0x01 then Inr True
        else Inl (InvalidBooleanDiscriminant (buf ! 32)))
       (\<lambda>detached. Inr (\<lparr>hdr_event_id = subslice 0 16 buf, hdr_fiber_id = subslice 16 32 buf,
          hdr_detached = detached, hdr_precursor = subslice 33 49 buf,
          hdr_precursor_hash = subslice 49 81 buf\<rparr>, 81)))"

definition EnvelopeHeader_encode :: "EnvelopeHeader \<Rightarrow> bytes" where
  "EnvelopeHeader_encode h =
    hdr_event_id h @ hdr_fiber_id h @ [u8_from_bool (hdr_detached h)] @ hdr_precursor h @
    hdr_precursor_hash h"

section \<open>Envelope\<close>

record EventEnvelope =
  env_header :: EnvelopeHeader
  env_payload :: bytes

text \<open>\<open>EventEnvelopeRef::decode\<close>; the payload slice it borrows is the list of its bytes.\<close>

definition EventEnvelopeRef_decode :: "bytes \<Rightarrow> EventEnvelope decoded" where
  "EventEnvelopeRef_decode buf =
    result_bind (EnvelopeHeader_decode buf) (\<lambda>(hd, header_consumed).
      if length buf < header_consumed + 4
      then Inl (TruncatedHeader (header_consumed + 4) (length buf))
      else
        (let payload_len = unat (u32_from_le (subslice header_consumed (header_consumed + 4) buf)) in
         case Option.bind (checked_add header_consumed 4) (\<lambda>h. checked_add h payload_len) of
           None \<Rightarrow> Inl (ValueConstraintViolated TooLong)
         | Some total_consumed \<Rightarrow>
             if length buf < total_consumed then Inl (TruncatedPayload total_consumed (length buf))
             else Inr (\<lparr>env_header = hd,
                        env_payload = subslice (header_consumed + 4) total_consumed buf\<rparr>,
                       total_consumed)))"

definition EventEnvelope_decode :: "bytes \<Rightarrow> EventEnvelope decoded" where
  "EventEnvelope_decode buf =
    result_bind (EventEnvelopeRef_decode buf) (\<lambda>(env_ref, consumed). Inr (env_ref, consumed))"

definition envelope_wire_len :: "nat \<Rightarrow> nat \<Rightarrow> decode_error + u32" where
  "envelope_wire_len payload_len limit =
    ok_or (ValueConstraintViolated TooLong)
      (Option.bind (checked_add payload_len 85)
        (\<lambda>len. if len \<le> limit then u32_try_from len else None))"

record WireEnvelope =
  we_envelope :: EventEnvelope
  we_wire_len :: u32

definition WireEnvelope_bounded :: "EventEnvelope \<Rightarrow> nat \<Rightarrow> decode_error + WireEnvelope" where
  "WireEnvelope_bounded e limit =
    result_bind (envelope_wire_len (length (env_payload e)) limit)
      (\<lambda>n. Inr \<lparr>we_envelope = e, we_wire_len = n\<rparr>)"

definition WireEnvelope_try_from :: "EventEnvelope \<Rightarrow> decode_error + WireEnvelope" where
  "WireEnvelope_try_from e = WireEnvelope_bounded e U32_MAX"

definition WireEnvelope_encode :: "WireEnvelope \<Rightarrow> bytes" where
  "WireEnvelope_encode w =
    EnvelopeHeader_encode (env_header (we_envelope w)) @ u32_to_le (we_wire_len w - 85) @
    env_payload (we_envelope w)"

definition EventEnvelope_encode_bounded :: "EventEnvelope \<Rightarrow> nat \<Rightarrow> decode_error + bytes" where
  "EventEnvelope_encode_bounded e limit =
    result_bind (WireEnvelope_bounded e limit) (\<lambda>w. Inr (WireEnvelope_encode w))"

definition EventEnvelope_encode :: "EventEnvelope \<Rightarrow> decode_error + bytes" where
  "EventEnvelope_encode e = EventEnvelope_encode_bounded e U32_MAX"

definition compute_envelope_commitment :: "blake3 \<Rightarrow> EnvelopeHeader \<Rightarrow> bytes \<Rightarrow> bytes" where
  "compute_envelope_commitment H h pl =
    H (hdr_event_id h @ hdr_fiber_id h @ [u8_from_bool (hdr_detached h)] @ hdr_precursor h @
       hdr_precursor_hash h @ pl)"

definition commitment :: "blake3 \<Rightarrow> EventEnvelope \<Rightarrow> bytes" where
  "commitment H e = compute_envelope_commitment H (env_header e) (env_payload e)"

definition genesis :: "bytes \<Rightarrow> bytes \<Rightarrow> bytes \<Rightarrow> decode_error + EventEnvelope" where
  "genesis eid fid pl =
    (if eid = zero_id then Inl (ValueConstraintViolated Empty)
     else result_bind (envelope_wire_len (length pl) U32_MAX) (\<lambda>_.
       Inr \<lparr>env_header = \<lparr>hdr_event_id = eid, hdr_fiber_id = fid, hdr_detached = False,
              hdr_precursor = zero_id, hdr_precursor_hash = zero_hash\<rparr>,
            env_payload = pl\<rparr>))"

definition chain :: "blake3 \<Rightarrow> EventEnvelope \<Rightarrow> bytes \<Rightarrow> bytes \<Rightarrow> decode_error + EventEnvelope" where
  "chain H predecessor eid pl =
    (if eid = zero_id \<or> hdr_event_id (env_header predecessor) = zero_id
     then Inl (ValueConstraintViolated Empty)
     else result_bind (envelope_wire_len (length pl) U32_MAX) (\<lambda>_.
       Inr \<lparr>env_header = \<lparr>hdr_event_id = eid, hdr_fiber_id = hdr_fiber_id (env_header predecessor),
              hdr_detached = False, hdr_precursor = hdr_event_id (env_header predecessor),
              hdr_precursor_hash = commitment H predecessor\<rparr>,
            env_payload = pl\<rparr>))"

definition chain_detached ::
    "blake3 \<Rightarrow> EventEnvelope \<Rightarrow> bytes \<Rightarrow> bytes \<Rightarrow> decode_error + EventEnvelope" where
  "chain_detached H predecessor eid pl =
    (if eid = zero_id \<or> hdr_event_id (env_header predecessor) = zero_id
     then Inl (ValueConstraintViolated Empty)
     else result_bind (envelope_wire_len (length pl) U32_MAX) (\<lambda>_.
       Inr \<lparr>env_header = \<lparr>hdr_event_id = eid, hdr_fiber_id = hdr_fiber_id (env_header predecessor),
              hdr_detached = True, hdr_precursor = hdr_event_id (env_header predecessor),
              hdr_precursor_hash = commitment H predecessor\<rparr>,
            env_payload = pl\<rparr>))"

section \<open>Well-formedness\<close>

text \<open>The lengths the array types \<open>[u8; 16]\<close> and \<open>[u8; 32]\<close> enforce.\<close>

definition EnvelopeHeader_wf :: "EnvelopeHeader \<Rightarrow> bool" where
  "EnvelopeHeader_wf h \<longleftrightarrow> length (hdr_event_id h) = 16 \<and> length (hdr_fiber_id h) = 16 \<and>
     length (hdr_precursor h) = 16 \<and> length (hdr_precursor_hash h) = 32"

text \<open>An envelope the decoder can return.\<close>

definition EventEnvelope_wf :: "EventEnvelope \<Rightarrow> bool" where
  "EventEnvelope_wf e \<longleftrightarrow> EnvelopeHeader_wf (env_header e) \<and> length (env_payload e) \<le> U32_MAX"

text \<open>An envelope whose complete wire size fits a \<open>u32\<close> frame: what the encoder accepts.\<close>

definition EventEnvelope_fits :: "EventEnvelope \<Rightarrow> bool" where
  "EventEnvelope_fits e \<longleftrightarrow> length (env_payload e) + 85 \<le> U32_MAX"

lemma length_EnvelopeHeader_encode [simp]:
  "EnvelopeHeader_wf h \<Longrightarrow> length (EnvelopeHeader_encode h) = 81"
  by (simp add: EnvelopeHeader_encode_def EnvelopeHeader_wf_def)

lemma u8_from_bool_simps [simp]:
  "u8_from_bool b = 0 \<longleftrightarrow> \<not> b" "u8_from_bool b = 1 \<longleftrightarrow> b"
  "u8_from_bool True = 1" "u8_from_bool False = 0"
  by (simp_all add: u8_from_bool_def)

lemma EnvelopeHeader_decode_eq_Inr:
  "EnvelopeHeader_decode buf = Inr (x, n) \<longleftrightarrow>
     81 \<le> length buf \<and> n = 81 \<and> (buf ! 32 = 0 \<or> buf ! 32 = 1) \<and>
     x = \<lparr>hdr_event_id = subslice 0 16 buf, hdr_fiber_id = subslice 16 32 buf,
          hdr_detached = (buf ! 32 = 1), hdr_precursor = subslice 33 49 buf,
          hdr_precursor_hash = subslice 49 81 buf\<rparr>"
  by (cases "length buf < 81"; cases "buf ! 32 = 0"; cases "buf ! 32 = 1")
    (auto simp: EnvelopeHeader_decode_def)

interpretation envelope_header: canonical_codec EnvelopeHeader_encode EnvelopeHeader_decode EnvelopeHeader_wf
proof
  fix h :: EnvelopeHeader and rest
  assume wf: "EnvelopeHeader_wf h"
  let ?b = "EnvelopeHeader_encode h @ rest"
  have "subslice 0 16 ?b = hdr_event_id h" "subslice 16 32 ?b = hdr_fiber_id h"
    "?b ! 32 = u8_from_bool (hdr_detached h)" "subslice 33 49 ?b = hdr_precursor h"
    "subslice 49 81 ?b = hdr_precursor_hash h" "\<not> length ?b < 81"
    using wf by (simp_all add: EnvelopeHeader_wf_def EnvelopeHeader_encode_def bytes_simps)
  then show "EnvelopeHeader_decode ?b = Inr (h, length (EnvelopeHeader_encode h))"
    using wf by (simp add: EnvelopeHeader_decode_def u8_from_bool_def)
next
  fix buf x n
  assume d: "EnvelopeHeader_decode buf = Inr (x, n)"
  then show "EnvelopeHeader_wf x \<and> n \<le> length buf"
    by (simp add: EnvelopeHeader_decode_eq_Inr EnvelopeHeader_wf_def)
  from d have "u8_from_bool (hdr_detached x) = buf ! 32"
    by (auto simp: EnvelopeHeader_decode_eq_Inr)
  with d show "take n buf = EnvelopeHeader_encode x"
    by (simp add: EnvelopeHeader_decode_eq_Inr EnvelopeHeader_encode_def glue_simps)
qed

section \<open>Envelope codec\<close>

text \<open>The bytes of an envelope as the encoder lays them out, before its size check.\<close>

definition envelope_bytes :: "EventEnvelope \<Rightarrow> bytes" where
  "envelope_bytes e = EnvelopeHeader_encode (env_header e) @ EventBytes_encode (env_payload e)"

lemma envelope_wire_len_eq_Inr:
  "envelope_wire_len n limit = Inr w \<longleftrightarrow>
     n + 85 \<le> limit \<and> n + 85 \<le> U32_MAX \<and> w = of_nat (n + 85)"
  using U32_lt_USIZE
  by (auto simp: envelope_wire_len_def result_simps Option.bind_eq_Some_conv split: if_splits)

lemma envelope_wire_len_eq_Inl:
  "envelope_wire_len n limit = Inl err \<longleftrightarrow>
     \<not> (n + 85 \<le> limit \<and> n + 85 \<le> U32_MAX) \<and> err = ValueConstraintViolated TooLong"
proof (cases "envelope_wire_len n limit")
  case (Inr w)
  then show ?thesis using envelope_wire_len_eq_Inr [of n limit w] by auto
next
  case (Inl d)
  then have "\<not> (n + 85 \<le> limit \<and> n + 85 \<le> U32_MAX)"
    using envelope_wire_len_eq_Inr [of n limit "of_nat (n + 85)"] by auto
  moreover have "d = ValueConstraintViolated TooLong"
    using Inl by (simp add: envelope_wire_len_def result_simps)
  ultimately show ?thesis using Inl by auto
qed

lemma EventEnvelope_encode_eq:
  "EventEnvelope_encode e =
     (if EventEnvelope_fits e then Inr (envelope_bytes e) else Inl (ValueConstraintViolated TooLong))"
proof (cases "EventEnvelope_fits e")
  case True
  then have "envelope_wire_len (length (env_payload e)) U32_MAX = Inr (of_nat (length (env_payload e) + 85))"
    by (simp add: envelope_wire_len_eq_Inr EventEnvelope_fits_def)
  then show ?thesis using True
    by (simp add: EventEnvelope_encode_def EventEnvelope_encode_bounded_def WireEnvelope_bounded_def
        WireEnvelope_encode_def envelope_bytes_def EventBytes_encode_def)
next
  case False
  then have "envelope_wire_len (length (env_payload e)) U32_MAX = Inl (ValueConstraintViolated TooLong)"
    by (simp add: envelope_wire_len_eq_Inl EventEnvelope_fits_def)
  then show ?thesis using False
    by (simp add: EventEnvelope_encode_def EventEnvelope_encode_bounded_def WireEnvelope_bounded_def)
qed

lemma EventEnvelopeRef_decode_eq:
  assumes "EnvelopeHeader_decode buf = Inr (h, n)"
  shows "EventEnvelopeRef_decode buf =
    (let len = unat (u32_from_le (subslice 81 85 buf)) in
     if length buf < 85 then Inl (TruncatedHeader 85 (length buf))
     else if length buf < 85 + len then Inl (TruncatedPayload (85 + len) (length buf))
     else Inr (\<lparr>env_header = h, env_payload = subslice 85 (85 + len) buf\<rparr>, 85 + len))"
proof -
  let ?len = "unat (u32_from_le (subslice 81 85 buf))"
  have "?len \<le> U32_MAX" by (rule unat_u32_le)
  then have "Option.bind (checked_add 81 4) (\<lambda>k. checked_add k ?len) = Some (85 + ?len)"
    by (simp add: checked_add_def U32_bound USIZE_bound)
  moreover have "n = 81" using assms by (simp add: EnvelopeHeader_decode_eq_Inr)
  ultimately show ?thesis using assms
    by (simp add: EventEnvelopeRef_decode_def Let_def)
qed

lemma EventEnvelope_decode_eq_Inr:
  "EventEnvelope_decode buf = Inr (e, n) \<longleftrightarrow>
     (let len = unat (u32_from_le (subslice 81 85 buf)) in
      EnvelopeHeader_decode buf = Inr (env_header e, 81) \<and> 85 + len \<le> length buf \<and> n = 85 + len \<and>
      env_payload e = subslice 85 (85 + len) buf)"
proof (cases "EnvelopeHeader_decode buf")
  case (Inl err)
  then show ?thesis by (simp add: EventEnvelope_decode_def EventEnvelopeRef_decode_def)
next
  case (Inr r)
  obtain h m where r: "r = (h, m)" by (cases r)
  with Inr have h: "EnvelopeHeader_decode buf = Inr (h, m)" by simp
  then have "m = 81" by (simp add: EnvelopeHeader_decode_eq_Inr)
  with h show ?thesis
    by (cases e) (auto simp: EventEnvelope_decode_def EventEnvelopeRef_decode_eq [OF h] Let_def
        result_simps split: if_splits)
qed

interpretation envelope: canonical_codec envelope_bytes EventEnvelope_decode EventEnvelope_wf
proof
  fix e rest
  assume wf: "EventEnvelope_wf e"
  then have h: "EnvelopeHeader_wf (env_header e)" and len: "length (env_payload e) \<le> U32_MAX"
    by (simp_all add: EventEnvelope_wf_def)
  have split: "envelope_bytes e @ rest =
      EnvelopeHeader_encode (env_header e) @ u32_to_le (of_nat (length (env_payload e))) @ env_payload e @ rest"
    by (simp add: envelope_bytes_def EventBytes_encode_def)
  have "EnvelopeHeader_decode (envelope_bytes e @ rest) = Inr (env_header e, 81)"
    using envelope_header.dec_enc [OF h] h by (simp add: split)
  moreover have "subslice 81 85 (envelope_bytes e @ rest) = u32_to_le (of_nat (length (env_payload e)))"
    using h by (simp add: split bytes_simps)
  moreover have "subslice 85 (85 + length (env_payload e)) (envelope_bytes e @ rest) = env_payload e"
    using h by (simp add: split bytes_simps)
  moreover have "length (envelope_bytes e) = 85 + length (env_payload e)"
    using h by (simp add: envelope_bytes_def EventBytes_encode_def)
  ultimately show "EventEnvelope_decode (envelope_bytes e @ rest) = Inr (e, length (envelope_bytes e))"
    using len by (simp add: EventEnvelope_decode_eq_Inr unat_of_nat_u32)
next
  fix buf e n
  assume d: "EventEnvelope_decode buf = Inr (e, n)"
  let ?len = "unat (u32_from_le (subslice 81 85 buf))"
  from d have h: "EnvelopeHeader_decode buf = Inr (env_header e, 81)" and len: "85 + ?len \<le> length buf"
    and n: "n = 85 + ?len" and pl: "env_payload e = subslice 85 (85 + ?len) buf"
    by (simp_all add: EventEnvelope_decode_eq_Inr Let_def)
  show "EventEnvelope_wf e \<and> n \<le> length buf"
    using envelope_header.dec_valid [OF h] len n pl unat_u32_le [of "u32_from_le (subslice 81 85 buf)"]
    by (simp add: EventEnvelope_wf_def)
  have "EnvelopeHeader_encode (env_header e) = take 81 buf"
    by (rule envelope_header.dec_canonical [OF h, symmetric])
  moreover have "u32_to_le (of_nat (length (env_payload e))) = subslice 81 85 buf"
    using pl len u32_to_from_le [of "subslice 81 85 buf"] by simp
  ultimately show "take n buf = envelope_bytes e"
    using n pl len by (simp add: envelope_bytes_def EventBytes_encode_def glue_simps flip: append_assoc)
qed

section \<open>Commitments and links\<close>

text \<open>What the commitment hashes determines the envelope, so two different envelopes with one
  commitment are a collision of the hash.\<close>

lemma commitment_input: "compute_envelope_commitment H h pl = H (EnvelopeHeader_encode h @ pl)"
  by (simp add: compute_envelope_commitment_def EnvelopeHeader_encode_def)

lemma commitment_input_inject:
  assumes "EnvelopeHeader_wf h" and "EnvelopeHeader_wf h'"
    and "EnvelopeHeader_encode h @ pl = EnvelopeHeader_encode h' @ pl'"
  shows "h = h' \<and> pl = pl'"
  using envelope_header.enc_prefix_free [OF assms] .

text \<open>An envelope as the constructors make it.\<close>

definition envelope_inv :: "EventEnvelope \<Rightarrow> bool" where
  "envelope_inv e \<longleftrightarrow> EnvelopeHeader_wf (env_header e) \<and> EventEnvelope_fits e \<and>
     hdr_event_id (env_header e) \<noteq> zero_id"

lemma genesis_inv:
  assumes "genesis eid fid pl = Inr e" and "length eid = 16" and "length fid = 16"
  shows "envelope_inv e"
  using assms by (auto simp: genesis_def envelope_inv_def EnvelopeHeader_wf_def EventEnvelope_fits_def
      result_simps envelope_wire_len_eq_Inr split: if_splits)

lemma chain_inv:
  assumes "chain H p eid pl = Inr e \<or> chain_detached H p eid pl = Inr e"
    and "envelope_inv p" and "length eid = 16" and "\<And>x. length (H x) = 32"
  shows "envelope_inv e"
  using assms by (auto simp: chain_def chain_detached_def commitment_def compute_envelope_commitment_def
      envelope_inv_def EnvelopeHeader_wf_def EventEnvelope_fits_def result_simps
      envelope_wire_len_eq_Inr split: if_splits)

lemma chain_links:
  assumes "chain H p eid pl = Inr e \<or> chain_detached H p eid pl = Inr e"
  shows "hdr_precursor (env_header e) = hdr_event_id (env_header p)"
    and "hdr_precursor_hash (env_header e) = commitment H p"
    and "hdr_fiber_id (env_header e) = hdr_fiber_id (env_header p)"
    and "hdr_event_id (env_header e) = eid" and "env_payload e = pl"
  using assms by (auto simp: chain_def chain_detached_def result_simps split: if_splits)

text \<open>C22: every envelope within the wire limit encodes, its bytes decode (whatever follows them)
  to the same envelope and consume exactly the encoding, and an envelope beyond the limit is
  refused with \<open>TooLong\<close>.\<close>

theorem envelope_roundtrip:
  assumes "EnvelopeHeader_wf (env_header e)"
  shows "if length (env_payload e) + 85 \<le> U32_MAX
         then (\<exists>bs. EventEnvelope_encode e = Inr bs \<and> length bs = 85 + length (env_payload e) \<and>
                 EventEnvelope_decode (bs @ rest) = Inr (e, length bs))
         else EventEnvelope_encode e = Inl (ValueConstraintViolated TooLong)"
proof (cases "EventEnvelope_fits e")
  case True
  then have "EventEnvelope_wf e" using assms by (simp add: EventEnvelope_wf_def EventEnvelope_fits_def)
  from envelope.dec_enc [OF this, of rest] True assms show ?thesis
    by (simp add: EventEnvelope_encode_eq EventEnvelope_fits_def envelope_bytes_def EventBytes_encode_def)
next
  case False
  then show ?thesis by (simp add: EventEnvelope_encode_eq EventEnvelope_fits_def)
qed

theorem envelope_roundtrip_witness:
  "EventEnvelope_decode ((case EventEnvelope_encode
      \<lparr>env_header = \<lparr>hdr_event_id = replicate 16 7, hdr_fiber_id = replicate 16 9, hdr_detached = True,
         hdr_precursor = zero_id, hdr_precursor_hash = zero_hash\<rparr>, env_payload = [1, 2, 3]\<rparr>
      of Inr bs \<Rightarrow> bs | Inl _ \<Rightarrow> []) @ [255]) =
    Inr (\<lparr>env_header = \<lparr>hdr_event_id = replicate 16 7, hdr_fiber_id = replicate 16 9, hdr_detached = True,
         hdr_precursor = zero_id, hdr_precursor_hash = zero_hash\<rparr>, env_payload = [1, 2, 3]\<rparr>, 88)"
  using envelope_roundtrip [of "\<lparr>env_header = \<lparr>hdr_event_id = replicate 16 7, hdr_fiber_id = replicate 16 9,
      hdr_detached = True, hdr_precursor = zero_id, hdr_precursor_hash = zero_hash\<rparr>,
      env_payload = [1, 2, 3]\<rparr>" "[255]"]
  by (auto simp: EnvelopeHeader_wf_def U32_bound)

text \<open>A buffer the decoder accepts starts with exactly the canonical bytes of the envelope it
  returns (header, length, payload), consumed to the byte; so no two envelopes share wire bytes and
  re-encoding a decoded envelope that fits a frame gives back what was read.\<close>

lemma envelope_decode_canonical:
  assumes "EventEnvelope_decode buf = Inr (e, n)"
  shows "EnvelopeHeader_wf (env_header e) \<and> n \<le> length buf \<and> n = 85 + length (env_payload e) \<and>
         (length (env_payload e) + 85 \<le> U32_MAX \<longrightarrow> EventEnvelope_encode e = Inr (take n buf))"
proof -
  have wf: "EventEnvelope_wf e" by (rule envelope.dec_valid [OF assms])
  have "n = length (envelope_bytes e)" using envelope.dec_split [OF assms] by simp
  moreover have "take n buf = envelope_bytes e" by (rule envelope.dec_canonical [OF assms])
  ultimately show ?thesis
    using wf envelope.dec_consumed_le [OF assms]
    by (simp add: EventEnvelope_wf_def EventEnvelope_encode_eq EventEnvelope_fits_def
        envelope_bytes_def EventBytes_encode_def)
qed

end
