(* ===== verification/Container.thy ===== *)
theory Container
  imports Envelope
begin

text \<open>
  The container format of \<open>file.rs\<close>: the 12-byte header, length-prefixed frames with a CRC32C
  trailer, the rolling commitment, the exclusion policy, the scan that reads a container back
  (\<open>read_container_frames\<close>) and the truncation of a torn trailing frame (\<open>reconcile_tail_state\<close>).
  \<open>crc\<close> is CRC32C and \<open>H\<close> is BLAKE3, both crates outside the repository. What the operating system
  answers is an explicit input: \<open>FileRead\<close> is the outcome of seek, metadata and read; \<open>TailIo\<close> of
  the calls of the truncation. The hasher of the rolling commitment is the list of bytes fed to it.
\<close>

type_synonym crc32c = "bytes \<Rightarrow> u32"

definition CONTAINER_MAGIC :: bytes where
  "CONTAINER_MAGIC = [0x50, 0x41, 0x52, 0x44, 0x4f, 0x53, 0x41, 0x01]"

definition CONTAINER_FORMAT_VERSION :: u32 where "CONTAINER_FORMAT_VERSION = 1"

record ContainerHeader =
  ch_format_version :: u32

definition ContainerHeader_new :: ContainerHeader where
  "ContainerHeader_new = \<lparr>ch_format_version = CONTAINER_FORMAT_VERSION\<rparr>"

definition ContainerHeader_to_bytes :: "ContainerHeader \<Rightarrow> bytes" where
  "ContainerHeader_to_bytes h = CONTAINER_MAGIC @ u32_to_le (ch_format_version h)"

definition ContainerHeader_decode :: "bytes \<Rightarrow> ContainerHeader decoded" where
  "ContainerHeader_decode buf =
    (if length buf < 8 then Inl (TruncatedHeader 12 (length buf))
     else if subslice 0 8 buf \<noteq> CONTAINER_MAGIC then Inl InvalidMagic
     else if length buf < 12 then Inl (TruncatedHeader 12 (length buf))
     else
       (let format_version = u32_from_le (subslice 8 12 buf) in
        if format_version \<noteq> CONTAINER_FORMAT_VERSION then Inl (UnsupportedFormatVersion format_version)
        else Inr (\<lparr>ch_format_version = format_version\<rparr>, 12)))"

section \<open>Frames\<close>

record ContainerFrame =
  cf_payload :: bytes
  cf_checksum :: u32

definition ContainerFrame_new :: "crc32c \<Rightarrow> bytes \<Rightarrow> ContainerFrame" where
  "ContainerFrame_new crc pl = \<lparr>cf_payload = pl, cf_checksum = crc pl\<rparr>"

definition try_encode_payload :: "crc32c \<Rightarrow> bytes \<Rightarrow> encode_error + bytes" where
  "try_encode_payload crc pl =
    (case u32_try_from (length pl) of
       None \<Rightarrow> Inl (LengthExceeded_enc (length pl) U32_MAX)
     | Some len \<Rightarrow> Inr (u32_to_le len @ pl @ u32_to_le (crc pl)))"

definition ContainerFrame_encode :: "crc32c \<Rightarrow> ContainerFrame \<Rightarrow> encode_error + bytes" where
  "ContainerFrame_encode crc f =
    (let computed = crc (cf_payload f) in
     if cf_checksum f \<noteq> computed then Inl (ChecksumMismatch_enc computed (cf_checksum f))
     else try_encode_payload crc (cf_payload f))"

definition ContainerFrame_decode :: "crc32c \<Rightarrow> bytes \<Rightarrow> bytes decoded" where
  "ContainerFrame_decode crc buf =
    (if length buf < 4 then Inl (TruncatedPayload 4 (length buf))
     else
       (let payload_len = unat (u32_from_le (subslice 0 4 buf)) in
        case Option.bind (checked_add 4 payload_len) (\<lambda>l. checked_add l 4) of
          None \<Rightarrow> Inl (ValueConstraintViolated TooLong)
        | Some total_frame_len \<Rightarrow>
            if length buf < 4 + payload_len then Inl (TruncatedPayload total_frame_len (length buf))
            else if length buf < total_frame_len then Inl (TruncatedPayload total_frame_len (length buf))
            else
              (let pl = subslice 4 (4 + payload_len) buf;
                   recorded_checksum = u32_from_le (subslice (4 + payload_len) (4 + payload_len + 4) buf);
                   computed_checksum = crc pl in
               if recorded_checksum \<noteq> computed_checksum
               then Inl (ChecksumMismatch computed_checksum recorded_checksum)
               else Inr (pl, total_frame_len))))"

definition ContainerFrame_decode_frame :: "crc32c \<Rightarrow> bytes \<Rightarrow> ContainerFrame decoded" where
  "ContainerFrame_decode_frame crc buf =
    result_bind (ContainerFrame_decode crc buf) (\<lambda>(pl, consumed).
      Inr (\<lparr>cf_payload = pl, cf_checksum = u32_from_le (subslice (consumed - 4) consumed buf)\<rparr>, consumed))"

section \<open>Rolling commitment\<close>

record RollingCommitment =
  rc_hashed :: bytes
  rc_frame_count :: u64

definition RollingCommitment_new :: RollingCommitment where
  "RollingCommitment_new = \<lparr>rc_hashed = [], rc_frame_count = 0\<rparr>"

definition saturating_add_u64 :: "u64 \<Rightarrow> u64 \<Rightarrow> u64" where
  "saturating_add_u64 a b = (if unat a + unat b < 2 ^ 64 then a + b else - 1)"

definition update_frame :: "RollingCommitment \<Rightarrow> bytes \<Rightarrow> RollingCommitment" where
  "update_frame r frame_bytes =
    r\<lparr>rc_hashed := rc_hashed r @ frame_bytes, rc_frame_count := saturating_add_u64 (rc_frame_count r) 1\<rparr>"

definition current_commitment :: "blake3 \<Rightarrow> RollingCommitment \<Rightarrow> bytes" where
  "current_commitment H r = H (rc_hashed r)"

section \<open>Exclusion\<close>

datatype FileExclusionPolicy = Standard | SimulateUnavailable | SimulateHeldByOther

datatype TryLock = Lock_Ok | Lock_WouldBlock | Lock_Error

definition acquire_file_exclusion :: "TryLock \<Rightarrow> FileExclusionPolicy \<Rightarrow> unit operation" where
  "acquire_file_exclusion try_lock policy =
    (case policy of
       Standard \<Rightarrow>
         (case try_lock of
            Lock_Ok \<Rightarrow> Inr ()
          | Lock_WouldBlock \<Rightarrow> Inl AnotherOwnerHoldsExclusion
          | Lock_Error \<Rightarrow> Inl ExclusionUnavailable)
     | SimulateUnavailable \<Rightarrow> Inl ExclusionUnavailable
     | SimulateHeldByOther \<Rightarrow> Inl AnotherOwnerHoldsExclusion)"

section \<open>Scan\<close>

record TornTailInfo =
  tt_valid_len :: nat
  tt_truncated_bytes :: nat

datatype TailState = Clean | TornTail TornTailInfo

record ContainerScan =
  cs_header :: ContainerHeader
  cs_frames :: "bytes list"
  cs_rolling :: RollingCommitment
  cs_tail_state :: TailState
  cs_valid_len :: nat

record FileRead =
  fr_seek_ok :: bool
  fr_file_len :: "nat option"
  fr_bytes :: "bytes option"

lemma ContainerFrame_decode_progress:
  "ContainerFrame_decode crc buf = Inr (pl, n) \<Longrightarrow> 8 \<le> n \<and> n \<le> length buf"
  by (auto simp: ContainerFrame_decode_def Let_def Option.bind_eq_Some_conv result_simps
      split: if_splits option.splits)

function scan_frames :: "crc32c \<Rightarrow> bytes \<Rightarrow> nat \<Rightarrow> bytes list \<Rightarrow> RollingCommitment \<Rightarrow>
    (bytes list \<times> RollingCommitment \<times> TailState \<times> nat) operation" where
  "scan_frames crc buf cursor frames rolling =
    (if cursor < length buf then
       (case ContainerFrame_decode crc (drop cursor buf) of
          Inr (pl, consumed) \<Rightarrow>
            scan_frames crc buf (cursor + consumed) (frames @ [pl])
              (update_frame rolling (subslice cursor (cursor + consumed) buf))
        | Inl (TruncatedPayload _ _) \<Rightarrow>
            Inr (frames, rolling,
              TornTail \<lparr>tt_valid_len = cursor, tt_truncated_bytes = length buf - cursor\<rparr>, cursor)
        | Inl _ \<Rightarrow> Inl (PrecursorChainBroken None))
     else Inr (frames, rolling, Clean, cursor))"
  by pat_completeness auto
termination
  by (relation "measure (\<lambda>(crc, buf, cursor, frames, rolling). length buf - cursor)")
    (auto dest: ContainerFrame_decode_progress)

declare scan_frames.simps [simp del]

definition read_container_frames :: "crc32c \<Rightarrow> FileRead \<Rightarrow> ContainerScan operation" where
  "read_container_frames crc io =
    (if \<not> fr_seek_ok io then Inl (PrecursorChainBroken None)
     else result_bind (ok_or TransportUnavailable (fr_file_len io)) (\<lambda>file_len.
       if file_len < 12 then Inl (PrecursorChainBroken None)
       else if file_len > USIZE_MAX then Inl (ValueConstraintViolated_fc TooLong)
       else result_bind (ok_or (PrecursorChainBroken None) (fr_bytes io)) (\<lambda>buf.
         if length buf \<noteq> file_len then Inl (PrecursorChainBroken None)
         else result_bind (map_err (\<lambda>_. PrecursorChainBroken None) (ContainerHeader_decode buf))
           (\<lambda>(hd, cursor).
             result_bind (scan_frames crc buf cursor [] RollingCommitment_new)
               (\<lambda>(frames, rolling, tail_state, valid_len).
                 Inr \<lparr>cs_header = hd, cs_frames = frames, cs_rolling = rolling,
                      cs_tail_state = tail_state, cs_valid_len = valid_len\<rparr>)))))"

text \<open>\<open>reconcile_tail_state\<close> returns the outcome and the content the file is left with: \<open>set_len\<close> cuts
  it, and a failure after that leaves it cut.\<close>

record TailIo =
  ti_seek_end_ok :: bool
  ti_set_len_ok :: bool
  ti_sync_ok :: bool
  ti_seek_start_ok :: bool

definition reconcile_tail_state ::
    "TailIo \<Rightarrow> bytes \<Rightarrow> ContainerScan \<Rightarrow> TornTailInfo option operation \<times> bytes" where
  "reconcile_tail_state io content scan =
    (case cs_tail_state scan of
       Clean \<Rightarrow> (if ti_seek_end_ok io then Inr None else Inl (PrecursorChainBroken None), content)
     | TornTail info \<Rightarrow>
         if \<not> ti_set_len_ok io then (Inl TransportUnavailable, content)
         else
           (let cut = take (tt_valid_len info) content in
            if \<not> ti_sync_ok io then (Inl TransportUnavailable, cut)
            else if \<not> ti_seek_start_ok io then (Inl (PrecursorChainBroken None), cut)
            else (Inr (Some info), cut)))"

section \<open>Codecs\<close>

definition ContainerHeader_valid :: "ContainerHeader \<Rightarrow> bool" where
  "ContainerHeader_valid h \<longleftrightarrow> ch_format_version h = CONTAINER_FORMAT_VERSION"

lemma length_CONTAINER_MAGIC [simp]: "length CONTAINER_MAGIC = 8"
  by (simp add: CONTAINER_MAGIC_def)

interpretation container_header: canonical_codec ContainerHeader_to_bytes ContainerHeader_decode ContainerHeader_valid
proof
  fix h :: ContainerHeader and rest
  assume "ContainerHeader_valid h"
  then show "ContainerHeader_decode (ContainerHeader_to_bytes h @ rest) = Inr (h, length (ContainerHeader_to_bytes h))"
    by (simp add: ContainerHeader_decode_def ContainerHeader_to_bytes_def ContainerHeader_valid_def Let_def bytes_simps)
next
  fix buf h n
  assume "ContainerHeader_decode buf = Inr (h, n)"
  then have d: "12 \<le> length buf" "subslice 0 8 buf = CONTAINER_MAGIC" "n = 12"
    "ch_format_version h = u32_from_le (subslice 8 12 buf)" "ContainerHeader_valid h"
    by (auto simp: ContainerHeader_decode_def ContainerHeader_valid_def Let_def split: if_splits)
  then show "ContainerHeader_valid h \<and> n \<le> length buf" by simp
  have "ContainerHeader_to_bytes h = subslice 0 8 buf @ subslice 8 12 buf"
    using d by (simp add: ContainerHeader_to_bytes_def u32_to_from_le)
  with d(1,3) show "take n buf = ContainerHeader_to_bytes h" by (simp add: glue_simps)
qed

definition frame_bytes :: "crc32c \<Rightarrow> bytes \<Rightarrow> bytes" where
  "frame_bytes crc pl = u32_to_le (of_nat (length pl)) @ pl @ u32_to_le (crc pl)"

lemma try_encode_payload_eq_Inr:
  "try_encode_payload crc pl = Inr bs \<longleftrightarrow> length pl \<le> U32_MAX \<and> bs = frame_bytes crc pl"
  by (auto simp: try_encode_payload_def frame_bytes_def u32_try_from_def)

lemma length_frame_bytes [simp]: "length (frame_bytes crc pl) = 8 + length pl"
  by (simp add: frame_bytes_def)

lemma frame_bytes_nonempty [simp]: "frame_bytes crc pl \<noteq> []"
  using length_frame_bytes [of crc pl] by (metis list.size(3) add_is_0 zero_neq_numeral)

lemma ContainerFrame_decode_eq:
  "4 \<le> length buf \<Longrightarrow> ContainerFrame_decode crc buf =
    (let n = unat (u32_from_le (subslice 0 4 buf)); pl = subslice 4 (4 + n) buf;
         recorded = u32_from_le (subslice (4 + n) (8 + n) buf) in
     if length buf < 8 + n then Inl (TruncatedPayload (8 + n) (length buf))
     else if recorded \<noteq> crc pl then Inl (ChecksumMismatch (crc pl) recorded)
     else Inr (pl, 8 + n))"
proof -
  assume "4 \<le> length buf"
  let ?n = "unat (u32_from_le (subslice 0 4 buf))"
  have "Option.bind (checked_add 4 ?n) (\<lambda>l. checked_add l 4) = Some (8 + ?n)"
    using unat_u32_le [of "u32_from_le (subslice 0 4 buf)"] by (simp add: checked_add_def USIZE_bound U32_bound)
  then show ?thesis using \<open>4 \<le> length buf\<close> by (simp add: ContainerFrame_decode_def Let_def add.assoc)
qed

interpretation container_frame: canonical_codec "frame_bytes crc" "ContainerFrame_decode crc" "\<lambda>pl. length pl \<le> U32_MAX"
  for crc
proof
  fix pl rest :: bytes
  assume "length pl \<le> U32_MAX"
  then show "ContainerFrame_decode crc (frame_bytes crc pl @ rest) = Inr (pl, length (frame_bytes crc pl))"
    by (simp add: ContainerFrame_decode_eq Let_def frame_bytes_def bytes_simps unat_of_nat_u32)
next
  fix buf pl n
  assume dec: "ContainerFrame_decode crc buf = Inr (pl, n)"
  then have "4 \<le> length buf" by (auto simp: ContainerFrame_decode_def split: if_splits)
  let ?k = "unat (u32_from_le (subslice 0 4 buf))"
  have d: "8 + ?k \<le> length buf" "pl = subslice 4 (4 + ?k) buf" "n = 8 + ?k"
    "u32_from_le (subslice (4 + ?k) (8 + ?k) buf) = crc pl"
    using dec by (auto simp: ContainerFrame_decode_eq [OF \<open>4 \<le> length buf\<close>] Let_def split: if_splits)
  show "length pl \<le> U32_MAX \<and> n \<le> length buf" using d unat_u32_le by simp
  have "u32_to_le (of_nat (length pl)) = subslice 0 4 buf"
    using d(1,2) u32_to_from_le [of "subslice 0 4 buf"] by simp
  moreover have "u32_to_le (crc pl) = subslice (4 + ?k) (8 + ?k) buf"
    using d(1,4) u32_to_from_le [of "subslice (4 + ?k) (8 + ?k) buf"] by simp
  ultimately show "take n buf = frame_bytes crc pl"
    using d by (simp add: frame_bytes_def glue_simps)
qed

section \<open>Scanning what was written\<close>

definition torn :: "crc32c \<Rightarrow> bytes \<Rightarrow> bool" where
  "torn crc tail \<longleftrightarrow> (\<exists>a b. ContainerFrame_decode crc tail = Inl (TruncatedPayload a b))"

lemma torn_prefix:
  assumes "length pl \<le> U32_MAX" and "k < length (frame_bytes crc pl)"
  shows "torn crc (take k (frame_bytes crc pl))"
proof (cases "k < 4")
  case True
  then show ?thesis by (auto simp: torn_def ContainerFrame_decode_def)
next
  case False
  let ?t = "take k (frame_bytes crc pl)"
  have len: "length ?t = k" using assms(2) by simp
  have "take 4 (frame_bytes crc pl) = u32_to_le (of_nat (length pl))" by (simp add: frame_bytes_def)
  then have "subslice 0 4 ?t = u32_to_le (of_nat (length pl))"
    using False by (simp add: subslice_def min_def)
  then show ?thesis
    using False len assms by (simp add: torn_def ContainerFrame_decode_eq Let_def unat_of_nat_u32)
qed

lemma scan_frames_stop: "length buf \<le> c \<Longrightarrow> scan_frames crc buf c fs r = Inr (fs, r, Clean, c)"
  by (simp add: scan_frames.simps [of crc buf c])

lemma scan_frames_torn:
  "c < length buf \<Longrightarrow> torn crc (drop c buf) \<Longrightarrow> scan_frames crc buf c fs r =
    Inr (fs, r, TornTail \<lparr>tt_valid_len = c, tt_truncated_bytes = length buf - c\<rparr>, c)"
  by (auto simp: torn_def scan_frames.simps [of crc buf c])

lemma scan_frames_next:
  "c < length buf \<Longrightarrow> ContainerFrame_decode crc (drop c buf) = Inr (pl, n) \<Longrightarrow>
    scan_frames crc buf c fs r =
      scan_frames crc buf (c + n) (fs @ [pl]) (update_frame r (subslice c (c + n) buf))"
  by (simp add: scan_frames.simps [of crc buf c])

definition frames_bytes :: "crc32c \<Rightarrow> bytes list \<Rightarrow> bytes" where
  "frames_bytes crc ps = concat (map (frame_bytes crc) ps)"

lemma frames_bytes_simps [simp]:
  "frames_bytes crc [] = []" "frames_bytes crc (p # ps) = frame_bytes crc p @ frames_bytes crc ps"
  by (simp_all add: frames_bytes_def)

lemma scan_frames_complete:
  assumes "list_all (\<lambda>p. length p \<le> U32_MAX) ps" and "tail = [] \<or> torn crc tail"
    and "drop c buf = frames_bytes crc ps @ tail" and "c \<le> length buf"
  shows "scan_frames crc buf c fs r =
    Inr (fs @ ps, foldl update_frame r (map (frame_bytes crc) ps),
      (if tail = [] then Clean
       else TornTail \<lparr>tt_valid_len = c + length (frames_bytes crc ps), tt_truncated_bytes = length tail\<rparr>),
      c + length (frames_bytes crc ps))"
  using assms
proof (induction ps arbitrary: c fs r)
  case Nil
  then have len: "length buf = c + length tail" by (metis append_Nil frames_bytes_simps(1) le_add_diff_inverse length_drop)
  with Nil show ?case by (auto simp: scan_frames_stop scan_frames_torn)
next
  case (Cons p ps)
  have p: "length p \<le> U32_MAX" using Cons.prems(1) by simp
  have d: "drop c buf = frame_bytes crc p @ frames_bytes crc ps @ tail" using Cons.prems(3) by simp
  have len: "length buf = c + (8 + length p) + length (frames_bytes crc ps @ tail)"
    using arg_cong [OF d, of length] Cons.prems(4) by simp
  have "ContainerFrame_decode crc (drop c buf) = Inr (p, 8 + length p)"
    using container_frame.dec_enc [OF p, of crc] d by simp
  moreover have "subslice c (c + (8 + length p)) buf = frame_bytes crc p" using d by (simp add: subslice_def)
  moreover have "drop (c + (8 + length p)) buf = frames_bytes crc ps @ tail"
    using arg_cong [OF d, of "drop (8 + length p)"] by (simp add: add.commute)
  ultimately show ?case
    using scan_frames_next [of c buf crc p "8 + length p" fs r]
      Cons.IH [of "c + (8 + length p)" "fs @ [p]" "update_frame r (frame_bytes crc p)"] Cons.prems len
    by (simp add: add.assoc)
qed

lemma scan_frames_sound:
  assumes "scan_frames crc buf c fs r = Inr (fs', r', ts, v)" and "c \<le> length buf"
  shows "\<exists>ps. fs' = fs @ ps \<and> list_all (\<lambda>p. length p \<le> U32_MAX) ps \<and> c \<le> v \<and> v \<le> length buf \<and>
    subslice c v buf = frames_bytes crc ps \<and> r' = foldl update_frame r (map (frame_bytes crc) ps) \<and>
    (if v = length buf then ts = Clean
     else ts = TornTail \<lparr>tt_valid_len = v, tt_truncated_bytes = length buf - v\<rparr> \<and> torn crc (drop v buf))"
  using assms
proof (induction crc buf c fs r rule: scan_frames.induct)
  case (1 crc buf c fs r)
  show ?case
  proof (cases "c < length buf")
    case False
    then show ?thesis
      using "1.prems" by (intro exI [of _ "[]"]) (auto simp: scan_frames_stop subslice_def)
  next
    case True
    show ?thesis
    proof (cases "ContainerFrame_decode crc (drop c buf)")
      case (Inl e)
      with True "1.prems"(1) have "torn crc (drop c buf)"
        by (cases e) (auto simp: torn_def scan_frames.simps [of crc buf c])
      with True "1.prems" show ?thesis
        by (intro exI [of _ "[]"]) (auto simp: scan_frames_torn subslice_def)
    next
      case (Inr q)
      then obtain pl n where dec: "ContainerFrame_decode crc (drop c buf) = Inr (pl, n)" by (cases q) auto
      have n: "8 \<le> n" "c + n \<le> length buf" using ContainerFrame_decode_progress [OF dec] True by auto
      have fb: "subslice c (c + n) buf = frame_bytes crc pl"
        using container_frame.dec_canonical [OF dec] by (simp add: subslice_def)
      have "scan_frames crc buf (c + n) (fs @ [pl]) (update_frame r (subslice c (c + n) buf)) = Inr (fs', r', ts, v)"
        using "1.prems"(1) scan_frames_next [OF True dec, of fs r] by simp
      from "1.IH" [OF True dec refl this n(2)] obtain ps where ps: "fs' = (fs @ [pl]) @ ps"
        "list_all (\<lambda>p. length p \<le> U32_MAX) ps" "c + n \<le> v" "v \<le> length buf"
        "subslice (c + n) v buf = frames_bytes crc ps"
        "r' = foldl update_frame (update_frame r (subslice c (c + n) buf)) (map (frame_bytes crc) ps)"
        "if v = length buf then ts = Clean
         else ts = TornTail \<lparr>tt_valid_len = v, tt_truncated_bytes = length buf - v\<rparr> \<and> torn crc (drop v buf)"
        by blast
      have "subslice c v buf = frames_bytes crc (pl # ps)"
        using subslice_join [of c "c + n" v buf] ps(3,5) fb by simp
      moreover have "length pl \<le> U32_MAX" by (rule container_frame.dec_valid [OF dec])
      ultimately show ?thesis using ps fb by (intro exI [of _ "pl # ps"]) auto
    qed
  qed
qed

text \<open>The read of a file that answers every call.\<close>

definition file_read :: "bytes \<Rightarrow> FileRead" where
  "file_read content = \<lparr>fr_seek_ok = True, fr_file_len = Some (length content), fr_bytes = Some content\<rparr>"

lemma read_container_frames_file:
  assumes "length content \<le> USIZE_MAX"
  shows "read_container_frames crc (file_read content) = Inr s \<longleftrightarrow>
    ContainerHeader_decode content = Inr (cs_header s, 12) \<and>
    scan_frames crc content 12 [] RollingCommitment_new =
      Inr (cs_frames s, cs_rolling s, cs_tail_state s, cs_valid_len s)"
proof -
  have twelve: "n = 12" if "ContainerHeader_decode content = Inr (h, n)" for h n
    using that by (auto simp: ContainerHeader_decode_def Let_def split: if_splits)
  have short: "length content < 12 \<Longrightarrow> ContainerHeader_decode content \<noteq> Inr q" for q
    by (auto simp: ContainerHeader_decode_def)
  show ?thesis
    using assms short
    by (cases s) (auto simp: read_container_frames_def file_read_def result_simps dest: twelve)
qed

lemma torn_container_scan:
  assumes "list_all (\<lambda>p. length p \<le> U32_MAX) (pl # ps)" and "k < length (frame_bytes crc pl)"
    and "content = ContainerHeader_to_bytes ContainerHeader_new @ frames_bytes crc ps @ take k (frame_bytes crc pl)"
    and "length content \<le> USIZE_MAX"
  shows "read_container_frames crc (file_read content) =
    Inr \<lparr>cs_header = ContainerHeader_new, cs_frames = ps,
      cs_rolling = foldl update_frame RollingCommitment_new (map (frame_bytes crc) ps),
      cs_tail_state = (if k = 0 then Clean
        else TornTail \<lparr>tt_valid_len = 12 + length (frames_bytes crc ps), tt_truncated_bytes = k\<rparr>),
      cs_valid_len = 12 + length (frames_bytes crc ps)\<rparr>"
proof -
  have hl: "length (ContainerHeader_to_bytes ContainerHeader_new) = 12"
    by (simp add: ContainerHeader_to_bytes_def)
  have "ContainerHeader_valid ContainerHeader_new"
    by (simp add: ContainerHeader_valid_def ContainerHeader_new_def)
  from container_header.dec_enc [OF this] have "ContainerHeader_decode content = Inr (ContainerHeader_new, 12)"
    by (simp add: assms(3) hl)
  moreover define t where "t = take k (frame_bytes crc pl)"
  have t: "length t = k" "t = [] \<longleftrightarrow> k = 0" "t = [] \<or> torn crc t"
    using assms(1,2) torn_prefix [of pl k crc] by (auto simp: t_def)
  have "drop 12 content = frames_bytes crc ps @ t" "12 \<le> length content"
    by (simp_all add: assms(3) hl t_def)
  from scan_frames_complete [OF _ t(3) this, of "[]" RollingCommitment_new] assms(1)
  have "scan_frames crc content 12 [] RollingCommitment_new =
    Inr (ps, foldl update_frame RollingCommitment_new (map (frame_bytes crc) ps),
      (if k = 0 then Clean
        else TornTail \<lparr>tt_valid_len = 12 + length (frames_bytes crc ps), tt_truncated_bytes = k\<rparr>),
      12 + length (frames_bytes crc ps))"
    by (simp add: t(1,2))
  ultimately show ?thesis by (simp add: read_container_frames_file [OF assms(4)])
qed

text \<open>A container that was written completely.\<close>

definition container_bytes :: "crc32c \<Rightarrow> bytes list \<Rightarrow> bytes" where
  "container_bytes crc ps = ContainerHeader_to_bytes ContainerHeader_new @ frames_bytes crc ps"

definition rolled :: "crc32c \<Rightarrow> bytes list \<Rightarrow> RollingCommitment" where
  "rolled crc ps = foldl update_frame RollingCommitment_new (map (frame_bytes crc) ps)"

lemma container_bytes_snoc: "container_bytes crc (ps @ [p]) = container_bytes crc ps @ frame_bytes crc p"
  by (simp add: container_bytes_def frames_bytes_def)

lemma rolled_snoc: "rolled crc (ps @ [p]) = update_frame (rolled crc ps) (frame_bytes crc p)"
  by (simp add: rolled_def)

lemma rolled_Nil: "rolled crc [] = RollingCommitment_new"
  by (simp add: rolled_def)

lemma torn_container:
  assumes "list_all (\<lambda>p. length p \<le> U32_MAX) (pl # ps)" and "k < length (frame_bytes crc pl)"
    and "length (container_bytes crc ps) + k \<le> USIZE_MAX"
  shows "read_container_frames crc (file_read (container_bytes crc ps @ take k (frame_bytes crc pl))) =
    Inr \<lparr>cs_header = ContainerHeader_new, cs_frames = ps, cs_rolling = rolled crc ps,
      cs_tail_state = (if k = 0 then Clean
        else TornTail \<lparr>tt_valid_len = length (container_bytes crc ps), tt_truncated_bytes = k\<rparr>),
      cs_valid_len = length (container_bytes crc ps)\<rparr>"
proof -
  have hl: "length (ContainerHeader_to_bytes ContainerHeader_new) = 12"
    by (simp add: ContainerHeader_to_bytes_def)
  show ?thesis
    using torn_container_scan [OF assms(1,2) refl] assms(2,3) by (simp add: container_bytes_def rolled_def hl)
qed

lemma whole_container:
  assumes "list_all (\<lambda>p. length p \<le> U32_MAX) ps" and "length (container_bytes crc ps) \<le> USIZE_MAX"
  shows "read_container_frames crc (file_read (container_bytes crc ps)) =
    Inr \<lparr>cs_header = ContainerHeader_new, cs_frames = ps, cs_rolling = rolled crc ps,
      cs_tail_state = Clean, cs_valid_len = length (container_bytes crc ps)\<rparr>"
  using torn_container [of "[]" ps 0 crc] assms by simp

text \<open>C17: a container whose last write was cut short after any number \<open>k\<close> of bytes of its frame (none, if
  \<open>k\<close> is 0) is scanned back to exactly the frames that were completely
  written, in order, with the commitment rolled over exactly their bytes; the torn bytes are reported
  from the offset where the valid frames end.\<close>

theorem container_recovers_torn_write:
  assumes "list_all (\<lambda>p. length p \<le> U32_MAX) (pl # ps)" and "k < length (frame_bytes crc pl)"
    and "content = ContainerHeader_to_bytes ContainerHeader_new @ frames_bytes crc ps @ take k (frame_bytes crc pl)"
    and "length content \<le> USIZE_MAX"
  shows "read_container_frames crc (file_read content) =
    Inr \<lparr>cs_header = ContainerHeader_new, cs_frames = ps,
      cs_rolling = foldl update_frame RollingCommitment_new (map (frame_bytes crc) ps),
      cs_tail_state = (if k = 0 then Clean
        else TornTail \<lparr>tt_valid_len = 12 + length (frames_bytes crc ps), tt_truncated_bytes = k\<rparr>),
      cs_valid_len = 12 + length (frames_bytes crc ps)\<rparr>"
  using assms by (rule torn_container_scan)

theorem container_recovers_torn_write_witness:
  "read_container_frames (\<lambda>b. of_nat (length b))
      (file_read (ContainerHeader_to_bytes ContainerHeader_new @ frames_bytes (\<lambda>b. of_nat (length b)) [[1, 2], [3]] @
        take 9 (frame_bytes (\<lambda>b. of_nat (length b)) [4, 5, 6]))) =
    Inr \<lparr>cs_header = ContainerHeader_new, cs_frames = [[1, 2], [3]],
      cs_rolling = \<lparr>rc_hashed = [2, 0, 0, 0, 1, 2, 2, 0, 0, 0, 1, 0, 0, 0, 3, 1, 0, 0, 0], rc_frame_count = 2\<rparr>,
      cs_tail_state = TornTail \<lparr>tt_valid_len = 31, tt_truncated_bytes = 9\<rparr>, cs_valid_len = 31\<rparr>"
  using container_recovers_torn_write [of "[4, 5, 6]" "[[1, 2], [3]]" 9 "\<lambda>b. of_nat (length b)", OF _ _ refl]
  by (simp add: U32_bound USIZE_bound ContainerHeader_to_bytes_def update_frame_def RollingCommitment_new_def
      saturating_add_u64_def frame_bytes_def u32_to_le_def)

lemma rolled_bytes: "rc_hashed (foldl update_frame r xs) = rc_hashed r @ concat xs"
  by (induction xs arbitrary: r) (simp_all add: update_frame_def)

lemma container_scan_parts:
  assumes "read_container_frames crc (file_read content) = Inr s" and "length content \<le> USIZE_MAX"
  shows "cs_header s = ContainerHeader_new" and "list_all (\<lambda>p. length p \<le> U32_MAX) (cs_frames s)"
    and "12 \<le> cs_valid_len s" and "cs_valid_len s \<le> length content"
    and "take (cs_valid_len s) content = ContainerHeader_to_bytes ContainerHeader_new @ frames_bytes crc (cs_frames s)"
    and "cs_rolling s = foldl update_frame RollingCommitment_new (map (frame_bytes crc) (cs_frames s))"
    and "if cs_valid_len s = length content then cs_tail_state s = Clean
         else cs_tail_state s = TornTail \<lparr>tt_valid_len = cs_valid_len s,
            tt_truncated_bytes = length content - cs_valid_len s\<rparr> \<and> torn crc (drop (cs_valid_len s) content)"
proof -
  have hd: "ContainerHeader_decode content = Inr (cs_header s, 12)"
    and scan: "scan_frames crc content 12 [] RollingCommitment_new =
      Inr (cs_frames s, cs_rolling s, cs_tail_state s, cs_valid_len s)"
    using assms by (simp_all add: read_container_frames_file)
  show h: "cs_header s = ContainerHeader_new"
    using container_header.dec_valid [OF hd] by (simp add: ContainerHeader_valid_def ContainerHeader_new_def)
  have "12 \<le> length content" using container_header.dec_consumed_le [OF hd] .
  note sound = scan_frames_sound [OF scan this]
  then show "list_all (\<lambda>p. length p \<le> U32_MAX) (cs_frames s)" "12 \<le> cs_valid_len s"
    "cs_valid_len s \<le> length content"
    "cs_rolling s = foldl update_frame RollingCommitment_new (map (frame_bytes crc) (cs_frames s))"
    "if cs_valid_len s = length content then cs_tail_state s = Clean
     else cs_tail_state s = TornTail \<lparr>tt_valid_len = cs_valid_len s,
       tt_truncated_bytes = length content - cs_valid_len s\<rparr> \<and> torn crc (drop (cs_valid_len s) content)"
    by auto
  from sound have "subslice 12 (cs_valid_len s) content = frames_bytes crc (cs_frames s)" by auto
  moreover have "take 12 content = ContainerHeader_to_bytes ContainerHeader_new"
    using container_header.dec_canonical [OF hd] h by simp
  ultimately show "take (cs_valid_len s) content =
      ContainerHeader_to_bytes ContainerHeader_new @ frames_bytes crc (cs_frames s)"
    using subslice_join [of 0 12 "cs_valid_len s" content] \<open>12 \<le> cs_valid_len s\<close>
    by (simp add: subslice_0_take)
qed

lemma clean_scan:
  assumes "read_container_frames crc (file_read content) = Inr s" and "length content \<le> USIZE_MAX"
    and "cs_tail_state s = Clean"
  shows "content = container_bytes crc (cs_frames s)" and "list_all (\<lambda>p. length p \<le> U32_MAX) (cs_frames s)"
    and "cs_rolling s = rolled crc (cs_frames s)" and "cs_valid_len s = length content"
proof -
  note parts = container_scan_parts [OF assms(1,2)]
  show full: "cs_valid_len s = length content" using parts(7) assms(3) by (auto split: if_splits)
  show "content = container_bytes crc (cs_frames s)" using parts(5) full by (simp add: container_bytes_def)
  show "list_all (\<lambda>p. length p \<le> U32_MAX) (cs_frames s)" "cs_rolling s = rolled crc (cs_frames s)"
    using parts(2,6) by (simp_all add: rolled_def)
qed

text \<open>Whatever the scan of a container accepts, the file is the header, then exactly the framed
  bytes of the frames returned, then (if anything is left) a truncated frame reported as torn tail with
  its exact offset and size; corrupt data in the middle is never skipped.\<close>

lemma container_scan_sound:
  assumes "read_container_frames crc (file_read content) = Inr s" and "length content \<le> USIZE_MAX"
  shows "take (cs_valid_len s) content = ContainerHeader_to_bytes (cs_header s) @ frames_bytes crc (cs_frames s) \<and>
    cs_header s = ContainerHeader_new \<and>
    current_commitment H (cs_rolling s) = H (frames_bytes crc (cs_frames s)) \<and>
    (if cs_valid_len s = length content then cs_tail_state s = Clean
     else cs_tail_state s = TornTail \<lparr>tt_valid_len = cs_valid_len s,
            tt_truncated_bytes = length content - cs_valid_len s\<rparr> \<and> torn crc (drop (cs_valid_len s) content))"
  using container_scan_parts [OF assms]
  by (simp add: current_commitment_def rolled_bytes RollingCommitment_new_def frames_bytes_def)

text \<open>After a scan, reconciling the tail leaves exactly the valid prefix of the file, and scanning
  that again finds the same frames, the same commitment and a clean tail: recovery is idempotent.\<close>

lemma reconcile_then_clean:
  assumes "read_container_frames crc (file_read content) = Inr s" and "length content \<le> USIZE_MAX"
    and "reconcile_tail_state io content s = (Inr outcome, content')"
  shows "content' = take (cs_valid_len s) content \<and>
    read_container_frames crc (file_read content') = Inr (s\<lparr>cs_tail_state := Clean\<rparr>) \<and>
    (outcome = None \<longleftrightarrow> content' = content)"
proof -
  note parts = container_scan_parts [OF assms(1,2)]
  have c: "content' = take (cs_valid_len s) content"
    using assms(3) parts(7) by (auto simp: reconcile_tail_state_def Let_def split: TailState.splits if_splits)
  have o: "outcome = None \<longleftrightarrow> cs_valid_len s = length content"
    using assms(3) parts(7) by (auto simp: reconcile_tail_state_def Let_def split: TailState.splits if_splits)
  have hl: "length (ContainerHeader_to_bytes ContainerHeader_new) = 12" by (simp add: ContainerHeader_to_bytes_def)
  have c': "content' = ContainerHeader_to_bytes ContainerHeader_new @ frames_bytes crc (cs_frames s)"
    using c parts(5) by simp
  have len: "length content' = cs_valid_len s" using c parts(4) by simp
  have "drop 12 content' = frames_bytes crc (cs_frames s) @ []" "12 \<le> length content'"
    using hl by (simp_all add: c')
  from scan_frames_complete [OF parts(2) _ this, of "[]" RollingCommitment_new] hl len
  have "scan_frames crc content' 12 [] RollingCommitment_new =
      Inr (cs_frames s, cs_rolling s, Clean, cs_valid_len s)"
    by (simp add: c' parts(6))
  moreover have "ContainerHeader_decode content' = Inr (ContainerHeader_new, 12)"
    using container_header.dec_enc [of ContainerHeader_new] hl
    by (simp add: c' ContainerHeader_valid_def ContainerHeader_new_def)
  moreover have "length content' \<le> USIZE_MAX" using len parts(4) assms(2) by simp
  ultimately have "read_container_frames crc (file_read content') = Inr (s\<lparr>cs_tail_state := Clean\<rparr>)"
    using parts(1) by (simp add: read_container_frames_file)
  then show ?thesis using c o parts(4) by auto
qed

end
