(* ===== verification/Event_Log.thy ===== *)
theory Event_Log
  imports Envelope
begin

text \<open>
  The abstract specification shared by the reader and the session index: a log of envelopes in the
  order they were accepted, when an envelope may extend a log, and what a valid log guarantees for
  every fiber. Nothing here is a definition of the program; the components refine it.
\<close>

abbreviation eid :: "EventEnvelope \<Rightarrow> bytes" where "eid e \<equiv> hdr_event_id (env_header e)"
abbreviation fid :: "EventEnvelope \<Rightarrow> bytes" where "fid e \<equiv> hdr_fiber_id (env_header e)"
abbreviation prec :: "EventEnvelope \<Rightarrow> bytes" where "prec e \<equiv> hdr_precursor (env_header e)"
abbreviation prec_hash :: "EventEnvelope \<Rightarrow> bytes" where "prec_hash e \<equiv> hdr_precursor_hash (env_header e)"

definition fiber_events :: "EventEnvelope list \<Rightarrow> bytes \<Rightarrow> EventEnvelope list" where
  "fiber_events log f = filter (\<lambda>e. fid e = f) log"

definition last_on_fiber :: "EventEnvelope list \<Rightarrow> bytes \<Rightarrow> EventEnvelope option" where
  "last_on_fiber log f = (let es = fiber_events log f in if es = [] then None else Some (last es))"

definition event_fiber :: "EventEnvelope list \<Rightarrow> bytes \<Rightarrow> bytes option" where
  "event_fiber log i = map_of (map (\<lambda>e. (eid e, fid e)) log) i"

definition admissible :: "blake3 \<Rightarrow> EventEnvelope list \<Rightarrow> EventEnvelope \<Rightarrow> bool" where
  "admissible H log e \<longleftrightarrow> event_fiber log (eid e) = None \<and>
    (if prec e = zero_id then prec_hash e = zero_hash \<and> last_on_fiber log (fid e) = None
     else (case last_on_fiber log (fid e) of
             None \<Rightarrow> False
           | Some p \<Rightarrow> eid p = prec e \<and> commitment H p = prec_hash e))"

inductive valid_log :: "blake3 \<Rightarrow> EventEnvelope list \<Rightarrow> bool" for H where
  empty: "valid_log H []"
| extend: "valid_log H log \<Longrightarrow> admissible H log e \<Longrightarrow> valid_log H (log @ [e])"

inductive_cases valid_log_snocE: "valid_log H (log @ [e])"

text \<open>A chain of one fiber: it starts with a genesis envelope and each later one links to the one before.\<close>

definition links :: "blake3 \<Rightarrow> EventEnvelope \<Rightarrow> EventEnvelope \<Rightarrow> bool" where
  "links H p e \<longleftrightarrow> prec e \<noteq> zero_id \<and> prec e = eid p \<and> prec_hash e = commitment H p"

fun linked :: "blake3 \<Rightarrow> EventEnvelope list \<Rightarrow> bool" where
  "linked H [] = True"
| "linked H [g] = (prec g = zero_id \<and> prec_hash g = zero_hash)"
| "linked H (g # e # es) = (prec g = zero_id \<and> prec_hash g = zero_hash \<and> links H g e \<and>
     list_all (\<lambda>(p, c). links H p c) (zip (e # es) es))"

section \<open>Facts on logs\<close>

lemma event_fiber_snoc:
  "event_fiber log (eid e) = None \<Longrightarrow>
    event_fiber (log @ [e]) i = (if i = eid e then Some (fid e) else event_fiber log i)"
  by (auto simp: event_fiber_def map_add_def split: option.splits)

lemma event_fiber_None: "event_fiber log i = None \<longleftrightarrow> i \<notin> set (map eid log)"
  by (auto simp: event_fiber_def map_of_eq_None_iff image_iff)

lemma last_on_fiber_snoc:
  "last_on_fiber (log @ [e]) f = (if f = fid e then Some e else last_on_fiber log f)"
  by (auto simp: last_on_fiber_def fiber_events_def)

lemma last_on_fiber_member:
  "last_on_fiber log f = Some p \<Longrightarrow> p \<in> set log \<and> fid p = f"
proof -
  assume "last_on_fiber log f = Some p"
  then have "p \<in> set (fiber_events log f)"
    by (auto simp: last_on_fiber_def Let_def split: if_splits)
  then show ?thesis by (simp add: fiber_events_def)
qed

lemma last_on_fiber_None: "last_on_fiber log f = None \<longleftrightarrow> (\<forall>e\<in>set log. fid e \<noteq> f)"
  by (auto simp: last_on_fiber_def fiber_events_def filter_empty_conv)

lemma valid_log_distinct: "valid_log H log \<Longrightarrow> distinct (map eid log)"
  by (induction rule: valid_log.induct) (auto simp: admissible_def event_fiber_None)

lemma valid_log_event_fiber:
  assumes "valid_log H log" and "e \<in> set log"
  shows "event_fiber log (eid e) = Some (fid e)"
proof -
  have "distinct (map fst (map (\<lambda>e. (eid e, fid e)) log))"
    using valid_log_distinct [OF assms(1)] by (simp add: comp_def)
  then show ?thesis using assms(2) by (auto simp: event_fiber_def intro!: map_of_is_SomeI)
qed

lemma valid_log_same_event:
  assumes "valid_log H log" and "a \<in> set log" and "b \<in> set log" and "eid a = eid b"
  shows "a = b"
  using valid_log_distinct [OF assms(1)] assms(2-4) by (auto simp: distinct_map dest: inj_onD)

section \<open>Chains\<close>

lemma linked_snoc:
  "linked H (es @ [p, e]) \<longleftrightarrow> linked H (es @ [p]) \<and> links H p e"
proof (cases es)
  case Nil
  then show ?thesis by auto
next
  case (Cons a rest)
  have zip: "zip (b # xs @ [x, y]) (xs @ [x, y]) = zip (b # xs @ [x]) (xs @ [x]) @ [(x, y)]" for b xs x and y :: EventEnvelope
    by (induction xs arbitrary: b) auto
  show ?thesis
  proof (cases rest)
    case Nil
    with Cons show ?thesis by auto
  next
    case (Cons b xs)
    with \<open>es = a # rest\<close> zip [of b xs p e] show ?thesis by auto
  qed
qed

lemma linked_prefix: "linked H (es @ [e]) \<Longrightarrow> linked H es"
  by (cases es rule: rev_cases) (use linked_snoc in auto)

lemma valid_log_linked: "valid_log H log \<Longrightarrow> linked H (fiber_events log f)"
proof (induction rule: valid_log.induct)
  case empty
  then show ?case by (simp add: fiber_events_def)
next
  case (extend log e)
  show ?case
  proof (cases "fid e = f")
    case False
    with extend.IH show ?thesis by (simp add: fiber_events_def)
  next
    case True
    then have snoc: "fiber_events (log @ [e]) f = fiber_events log f @ [e]" by (simp add: fiber_events_def)
    show ?thesis
    proof (cases "fiber_events log f" rule: rev_cases)
      case Nil
      with True extend.hyps(2) snoc show ?thesis
        by (auto simp: admissible_def last_on_fiber_def split: if_splits)
    next
      case (snoc es p)
      then have "last_on_fiber log f = Some p" by (simp add: last_on_fiber_def)
      with extend.hyps(2) True have "links H p e"
        by (auto simp: admissible_def links_def split: if_splits)
      with extend.IH snoc \<open>fiber_events (log @ [e]) f = _\<close> show ?thesis by (simp add: linked_snoc)
    qed
  qed
qed

text \<open>Two envelopes whose encoded headers and payloads differ although the hash maps them to the same digest. The
  commitment is not mentioned: that it hashes exactly these bytes is \<open>commitment_input\<close>.\<close>

definition collision :: "blake3 \<Rightarrow> EventEnvelope \<Rightarrow> EventEnvelope \<Rightarrow> bool" where
  "collision H a b \<longleftrightarrow> (let x = EnvelopeHeader_encode (env_header a) @ env_payload a;
      y = EnvelopeHeader_encode (env_header b) @ env_payload b in x \<noteq> y \<and> H x = H y)"

lemma commitment_equal:
  assumes "commitment H a = commitment H b" and "EnvelopeHeader_wf (env_header a)"
    and "EnvelopeHeader_wf (env_header b)" and "\<not> collision H a b"
  shows "a = b"
proof -
  have "EnvelopeHeader_encode (env_header a) @ env_payload a = EnvelopeHeader_encode (env_header b) @ env_payload b"
    using assms(1,4) by (auto simp: collision_def commitment_def commitment_input Let_def)
  from commitment_input_inject [OF assms(2,3) this] show ?thesis by simp
qed

lemma linked_determined:
  assumes "linked H xs" and "linked H ys" and "xs \<noteq> []" and "ys \<noteq> []"
    and "commitment H (last xs) = commitment H (last ys)"
    and "\<forall>e\<in>set xs \<union> set ys. EnvelopeHeader_wf (env_header e)"
    and "\<forall>a\<in>set xs. \<forall>b\<in>set ys. \<not> collision H a b"
  shows "xs = ys"
  using assms
proof (induction xs arbitrary: ys rule: rev_induct)
  case Nil
  then show ?case by simp
next
  case (snoc x xs)
  then obtain ys' y where ys: "ys = ys' @ [y]" by (cases ys rule: rev_cases) auto
  have xy: "x = y"
    using commitment_equal [of H x y] snoc.prems ys by auto
  show ?case
  proof (cases xs rule: rev_cases)
    case Nil
    then have "prec y = zero_id" using snoc.prems(1) xy by simp
    then have "ys' = []" using snoc.prems(2) ys
      by (cases ys' rule: rev_cases) (auto simp: linked_snoc links_def)
    with Nil xy ys show ?thesis by simp
  next
    case (snoc xs' p)
    then have xl: "links H p x" "linked H xs" using snoc.prems(1) by (simp_all add: linked_snoc)
    then have "prec y \<noteq> zero_id" using xy by (auto simp: links_def)
    then obtain ys'' q where q: "ys' = ys'' @ [q]"
      using snoc.prems(2) ys by (cases ys' rule: rev_cases) auto
    then have yl: "links H q y" "linked H ys'" using snoc.prems(2) ys by (simp_all add: linked_snoc)
    have "commitment H (last xs) = commitment H (last ys')"
      using xl(1) yl(1) xy snoc q by (simp add: links_def)
    with snoc.IH [of ys'] xl(2) yl(2) snoc.prems ys q \<open>xs = xs' @ [p]\<close> have "xs = ys'" by auto
    with xy ys show ?thesis by simp
  qed
qed

section \<open>Components that keep a log\<close>

fun valid_from :: "blake3 \<Rightarrow> EventEnvelope list \<Rightarrow> EventEnvelope list \<Rightarrow> bool" where
  "valid_from H log [] = True"
| "valid_from H log (e # es) = (admissible H log e \<and> valid_from H (log @ [e]) es)"

lemma valid_from_log: "valid_log H log \<Longrightarrow> valid_from H log es \<longleftrightarrow> valid_log H (log @ es)"
proof (induction es arbitrary: log)
  case Nil
  then show ?case by simp
next
  case (Cons e es)
  have pre: "valid_log H (xs @ ys) \<Longrightarrow> valid_log H xs" for xs ys
    by (induction ys rule: rev_induct) (auto simp: append_assoc [symmetric] simp del: append_assoc elim: valid_log_snocE)
  have "valid_log H ((log @ [e]) @ es) \<Longrightarrow> admissible H log e"
    using pre [of "log @ [e]" es] by (auto elim: valid_log_snocE)
  with Cons.IH [of "log @ [e]"] Cons.prems valid_log.extend [of H log e] show ?case by auto
qed

text \<open>
  The contract of a component that admits one envelope at a time: what it accepts extends a valid log
  and its state keeps representing the log. A complete keeper also accepts every admissible envelope
  that its resource limits have room for.
\<close>

locale log_keeper =
  fixes H :: blake3
    and accept :: "'s \<Rightarrow> EventEnvelope \<Rightarrow> 's option"
    and start :: 's
    and keeps :: "EventEnvelope list \<Rightarrow> 's \<Rightarrow> bool"
  assumes keeps_start: "keeps [] start"
    and accept_admissible: "keeps log s \<Longrightarrow> accept s e = Some s' \<Longrightarrow> admissible H log e"
    and accept_keeps: "keeps log s \<Longrightarrow> accept s e = Some s' \<Longrightarrow> keeps (log @ [e]) s'"
begin

primrec accept_all :: "'s \<Rightarrow> EventEnvelope list \<Rightarrow> 's option" where
  "accept_all s [] = Some s"
| "accept_all s (e # es) = Option.bind (accept s e) (\<lambda>s'. accept_all s' es)"

lemma accept_all_from:
  "keeps log s \<Longrightarrow> accept_all s es = Some s' \<Longrightarrow> keeps (log @ es) s' \<and> valid_from H log es"
proof (induction es arbitrary: log s)
  case Nil
  then show ?case by simp
next
  case (Cons e es)
  then obtain s1 where s1: "accept s e = Some s1" "accept_all s1 es = Some s'"
    by (auto simp: bind_eq_Some_conv)
  from Cons.IH [OF accept_keeps [OF Cons.prems(1) s1(1)] s1(2)] accept_admissible [OF Cons.prems(1) s1(1)]
  show ?case by simp
qed

lemma accepted_valid: "accept_all start es = Some s \<Longrightarrow> keeps es s \<and> valid_log H es"
  using accept_all_from [OF keeps_start, of es s] valid_from_log [OF valid_log.empty, of H es] by simp

text \<open>Two runs that end with the same commitment on a fiber accepted the same history of that fiber.\<close>

lemma accepted_tamper_evident:
  assumes "accept_all start xs = Some s" and "accept_all start ys = Some t"
    and "last_on_fiber xs f = Some a" and "last_on_fiber ys f = Some b" and "commitment H a = commitment H b"
    and "\<forall>e\<in>set xs \<union> set ys. EnvelopeHeader_wf (env_header e)"
    and "\<forall>a\<in>set xs. \<forall>b\<in>set ys. \<not> collision H a b"
  shows "fiber_events xs f = fiber_events ys f"
proof (rule linked_determined)
  show "linked H (fiber_events xs f)" "linked H (fiber_events ys f)"
    using accepted_valid assms(1,2) valid_log_linked by blast+
  show "commitment H (last (fiber_events xs f)) = commitment H (last (fiber_events ys f))"
    using assms(3-5) by (auto simp: last_on_fiber_def Let_def split: if_splits)
qed (use assms in \<open>auto simp: last_on_fiber_def Let_def fiber_events_def split: if_splits\<close>)

end

locale complete_log_keeper = log_keeper +
  fixes room :: "EventEnvelope list \<Rightarrow> EventEnvelope \<Rightarrow> bool"
  assumes accept_complete: "keeps log s \<Longrightarrow> admissible H log e \<Longrightarrow> room log e \<Longrightarrow> accept s e \<noteq> None"
begin

primrec room_for :: "EventEnvelope list \<Rightarrow> EventEnvelope list \<Rightarrow> bool" where
  "room_for log [] = True"
| "room_for log (e # es) = (room log e \<and> room_for (log @ [e]) es)"

lemma accepts_valid_from:
  "keeps log s \<Longrightarrow> valid_from H log es \<Longrightarrow> room_for log es \<Longrightarrow> \<exists>s'. accept_all s es = Some s'"
proof (induction es arbitrary: log s)
  case Nil
  then show ?case by simp
next
  case (Cons e es)
  then obtain s1 where s1: "accept s e = Some s1" using accept_complete [of log s e] by auto
  from Cons.IH [OF accept_keeps [OF Cons.prems(1) s1]] Cons.prems s1 show ?case by auto
qed

lemma accepts_valid_log:
  assumes "valid_log H es" and "room_for [] es"
  shows "\<exists>s. accept_all start es = Some s \<and> keeps es s"
proof -
  have "valid_from H [] es" using valid_from_log [OF valid_log.empty] assms(1) by simp
  from accepts_valid_from [OF keeps_start this assms(2)] accepted_valid show ?thesis by blast
qed

end

end
