(* ===== verification/Artefact_Reader.thy ===== *)
theory Artefact_Reader
  imports Container Event_Log "HOL-Library.Sublist"
begin

text \<open>
  The reader session of \<open>store.rs\<close>: bounded ingestion of a stream (\<open>with_stream\<close>, \<open>with_frames\<close>),
  \<open>read_event\<close> with its precursor checks, the observations it mints and their resume cursors. The
  \<open>RefCell\<close> state is passed explicitly. A queued envelope is paired with the capacity of its payload
  vector, which the code charges against the byte limit; \<open>cap\<close> is the capacity \<open>to_vec\<close> reserves. The
  closure argument of the openers receives the reader returned here, and the compile-time brand has no
  run-time content.
\<close>

definition MAX_ACTIVE_FIBERS :: nat where "MAX_ACTIVE_FIBERS = 100000"
definition MAX_STREAM_ITEMS :: nat where "MAX_STREAM_ITEMS = 65536"
definition MAX_STREAM_BYTES :: nat where "MAX_STREAM_BYTES = 64 * 1024 * 1024"

record ResumeCursor =
  rc_position :: u64
  rc_event_id :: bytes
  rc_locator :: bytes

record FiberTracking =
  ft_last_event_id :: bytes
  ft_last_commitment_hash :: bytes

record ReaderState =
  observed_position :: u64
  fibers :: "(bytes \<times> FiberTracking) list"
  observed_events :: "(bytes \<times> bytes) list"
  stream :: "(EventEnvelope \<times> nat) list"
  terminally_failed :: bool
  capacity_refused :: bool
  byte_capacity_refused :: bool
  retained_bytes :: nat

definition mark_terminally_failed :: "ReaderState \<Rightarrow> ReaderState" where
  "mark_terminally_failed s = s\<lparr>terminally_failed := True, stream := [], retained_bytes := 0\<rparr>"

record ReaderObservation =
  obs_position :: u64
  obs_event_id :: bytes
  obs_fiber_id :: bytes
  obs_locator :: bytes
  obs_is_genesis :: bool

definition observation_cursor :: "ReaderObservation \<Rightarrow> ResumeCursor" where
  "observation_cursor ob = \<lparr>rc_position = obs_position ob, rc_event_id = obs_event_id ob,
     rc_locator = obs_locator ob\<rparr>"

record ArtefactReader =
  rd_locator :: bytes
  rd_state :: ReaderState

section \<open>Opening a session\<close>

text \<open>The ingestion loop: its accumulators are the queue, the retained bytes and the count; it stops at
  the first item that exceeds a limit and says which.\<close>

datatype ingest_stop = Ingest_Done | Ingest_Items | Ingest_Bytes

fun ingest :: "(EventEnvelope \<times> nat) list \<Rightarrow> (EventEnvelope \<times> nat) list \<Rightarrow> nat \<Rightarrow> nat \<Rightarrow>
    (EventEnvelope \<times> nat) list \<times> nat \<times> ingest_stop" where
  "ingest [] queue retained count = (queue, retained, Ingest_Done)"
| "ingest ((env, capacity) # rest) queue retained count =
    (let count' = saturating_add count 1 in
     if count' \<le> MAX_STREAM_ITEMS then
       (case checked_add 85 capacity of
          None \<Rightarrow> (queue, retained, Ingest_Bytes)
        | Some env_size \<Rightarrow>
            (case checked_add retained env_size of
               Some new_retained \<Rightarrow>
                 if new_retained \<le> MAX_STREAM_BYTES
                 then ingest rest (queue @ [(env, capacity)]) new_retained count'
                 else (queue, retained, Ingest_Bytes)
             | None \<Rightarrow> (queue, retained, Ingest_Bytes)))
     else (queue, retained, Ingest_Items))"

definition with_stream :: "bytes \<Rightarrow> (EventEnvelope \<times> nat) list \<Rightarrow> ArtefactReader" where
  "with_stream locator items =
    (case ingest items [] 0 0 of
       (queue, retained, stop) \<Rightarrow>
         let reader_state = \<lparr>observed_position = 0, fibers = [], observed_events = [], stream = queue,
               terminally_failed = False, capacity_refused = (stop = Ingest_Items),
               byte_capacity_refused = (stop = Ingest_Bytes), retained_bytes = retained\<rparr>
         in \<lparr>rd_locator = locator,
             rd_state = (if capacity_refused reader_state \<or> byte_capacity_refused reader_state
                         then mark_terminally_failed reader_state else reader_state)\<rparr>)"

definition with_reader :: "bytes \<Rightarrow> ArtefactReader" where
  "with_reader locator = with_stream locator []"

fun collect_frames :: "crc32c \<Rightarrow> (bytes \<Rightarrow> nat) \<Rightarrow> ContainerFrame list \<Rightarrow> nat \<Rightarrow> nat \<Rightarrow>
    (EventEnvelope \<times> nat) list operation" where
  "collect_frames crc cap [] frame_count total_bytes = Inr []"
| "collect_frames crc cap (frame # rest) frame_count total_bytes =
    (case checked_add frame_count 1 of
       None \<Rightarrow> Inl (ValueConstraintViolated_fc TooLong)
     | Some count' \<Rightarrow>
         if count' > MAX_STREAM_ITEMS then Inl (ValueConstraintViolated_fc TooLong)
         else if (case checked_add total_bytes (length (cf_payload frame)) of
                    Some b \<Rightarrow> b > MAX_STREAM_BYTES | None \<Rightarrow> True)
         then Inl (ValueConstraintViolated_fc TooLong)
         else if cf_checksum frame \<noteq> crc (cf_payload frame) then Inl EnvelopeMismatch
         else
           (case EventEnvelope_decode (cf_payload frame) of
              Inl _ \<Rightarrow> Inl EnvelopeMismatch
            | Inr (env, consumed) \<Rightarrow>
                if consumed \<noteq> length (cf_payload frame) then Inl EnvelopeMismatch
                else
                  (case checked_add 85 (cap (env_payload env)) of
                     None \<Rightarrow> Inl (ValueConstraintViolated_fc TooLong)
                   | Some env_size \<Rightarrow>
                       (case checked_add total_bytes env_size of
                          None \<Rightarrow> Inl (ValueConstraintViolated_fc TooLong)
                        | Some b \<Rightarrow>
                            if b > MAX_STREAM_BYTES then Inl (ValueConstraintViolated_fc TooLong)
                            else result_bind (collect_frames crc cap rest count' b) (\<lambda>envs.
                              Inr ((env, cap (env_payload env)) # envs))))))"

definition with_frames :: "crc32c \<Rightarrow> (bytes \<Rightarrow> nat) \<Rightarrow> bytes \<Rightarrow> ContainerFrame list \<Rightarrow> ArtefactReader operation" where
  "with_frames crc cap locator frames =
    result_bind (collect_frames crc cap frames 0 0) (\<lambda>envelopes. Inr (with_stream locator envelopes))"

section \<open>Observing\<close>

definition observe_genesis :: "blake3 \<Rightarrow> bytes \<Rightarrow> ReaderState \<Rightarrow> EventEnvelope \<Rightarrow>
    (ReaderObservation \<times> ReaderState) option" where
  "observe_genesis H locator s env =
    (if prec env \<noteq> zero_id \<or> prec_hash env \<noteq> zero_hash then None
     else if map_of (observed_events s) (eid env) \<noteq> None then None
     else if length (fibers s) \<ge> MAX_ACTIVE_FIBERS then None
     else if map_of (fibers s) (fid env) \<noteq> None then None
     else
       (case checked_add_u64 (observed_position s) 1 of
          None \<Rightarrow> None
        | Some next_pos \<Rightarrow>
            Some (\<lparr>obs_position = observed_position s, obs_event_id = eid env, obs_fiber_id = fid env,
                   obs_locator = locator, obs_is_genesis = True\<rparr>,
                  s\<lparr>observed_position := next_pos,
                    fibers := AList.update (fid env)
                      \<lparr>ft_last_event_id = eid env,
                       ft_last_commitment_hash = compute_envelope_commitment H (env_header env) (env_payload env)\<rparr>
                      (fibers s),
                    observed_events := AList.update (eid env) (fid env) (observed_events s)\<rparr>)))"

definition observe_event :: "blake3 \<Rightarrow> bytes \<Rightarrow> ReaderState \<Rightarrow> EventEnvelope \<Rightarrow>
    (ReaderObservation \<times> ReaderState) option" where
  "observe_event H locator s env =
    (if prec env = zero_id then None
     else if map_of (observed_events s) (eid env) \<noteq> None then None
     else
       (case map_of (fibers s) (fid env) of
          None \<Rightarrow> None
        | Some fiber \<Rightarrow>
            if ft_last_event_id fiber \<noteq> prec env then None
            else if ft_last_commitment_hash fiber \<noteq> prec_hash env then None
            else
              (case checked_add_u64 (observed_position s) 1 of
                 None \<Rightarrow> None
               | Some next_pos \<Rightarrow>
                   Some (\<lparr>obs_position = observed_position s, obs_event_id = eid env, obs_fiber_id = fid env,
                          obs_locator = locator, obs_is_genesis = False\<rparr>,
                         s\<lparr>observed_position := next_pos,
                           fibers := AList.update (fid env)
                             \<lparr>ft_last_event_id = eid env,
                              ft_last_commitment_hash = compute_envelope_commitment H (env_header env) (env_payload env)\<rparr>
                             (fibers s),
                           observed_events := AList.update (eid env) (fid env) (observed_events s)\<rparr>))))"

text \<open>The checks of \<open>read_event\<close> on the envelope taken from the queue, in the code's order; \<open>Inr ()\<close>
  lets it be observed.\<close>

definition check_genesis :: "ReaderState \<Rightarrow> EventEnvelope \<Rightarrow> unit operation" where
  "check_genesis s env =
    (if prec_hash env \<noteq> zero_hash then Inl (PrecursorChainBroken None)
     else if length (fibers s) \<ge> MAX_ACTIVE_FIBERS then Inl (ValueConstraintViolated_fc TooLong)
     else if map_of (fibers s) (fid env) \<noteq> None then Inl (PrecursorChainBroken None)
     else Inr ())"

definition check_chained :: "ReaderState \<Rightarrow> EventEnvelope \<Rightarrow> unit operation" where
  "check_chained s env =
    (case map_of (observed_events s) (prec env) of
       None \<Rightarrow> Inl (PrecursorChainBroken (Some PrecursorOutOfRange))
     | Some prev_fiber \<Rightarrow>
         if prev_fiber \<noteq> fid env then Inl (PrecursorChainBroken (Some PrecursorWrongFiber))
         else
           (case map_of (fibers s) (fid env) of
              None \<Rightarrow> Inl (PrecursorChainBroken (Some PrecursorOutOfRange))
            | Some fiber \<Rightarrow>
                if ft_last_event_id fiber \<noteq> prec env then Inl (PrecursorChainBroken None)
                else if ft_last_commitment_hash fiber \<noteq> prec_hash env then Inl (PrecursorChainBroken None)
                else Inr ()))"

definition read_event :: "blake3 \<Rightarrow> ArtefactReader \<Rightarrow> ReaderObservation operation option \<times> ArtefactReader" where
  "read_event H rd =
    (let s = rd_state rd in
     if capacity_refused s then
       (Some (Inl (ValueConstraintViolated_fc TooLong)),
        rd\<lparr>rd_state := (mark_terminally_failed s)\<lparr>capacity_refused := False\<rparr>\<rparr>)
     else if byte_capacity_refused s then
       (Some (Inl (ValueConstraintViolated_fc TooLong)),
        rd\<lparr>rd_state := (mark_terminally_failed s)\<lparr>byte_capacity_refused := False\<rparr>\<rparr>)
     else if terminally_failed s then (None, rd)
     else
       (case stream s of
          [] \<Rightarrow> (None, rd)
        | (env, capacity) # rest \<Rightarrow>
            let s1 = s\<lparr>stream := rest, retained_bytes := retained_bytes s - saturating_add 85 capacity\<rparr> in
            if map_of (observed_events s1) (eid env) \<noteq> None then
              (Some (Inl (PrecursorChainBroken None)), rd\<lparr>rd_state := mark_terminally_failed s1\<rparr>)
            else
              (case (if prec env = zero_id then check_genesis s1 env else check_chained s1 env) of
                 Inl e \<Rightarrow> (Some (Inl e), rd\<lparr>rd_state := mark_terminally_failed s1\<rparr>)
               | Inr _ \<Rightarrow>
                   (case (if prec env = zero_id then observe_genesis H (rd_locator rd) s1 env
                          else observe_event H (rd_locator rd) s1 env) of
                      None \<Rightarrow> (Some (Inl (ValueConstraintViolated_fc TooLong)),
                               rd\<lparr>rd_state := mark_terminally_failed s1\<rparr>)
                    | Some (ob, s2) \<Rightarrow> (Some (Inr ob), rd\<lparr>rd_state := s2\<rparr>)))))"

definition resume_from :: "ArtefactReader \<Rightarrow> ResumeCursor \<Rightarrow> u64" where
  "resume_from rd cursor = rc_position cursor"

definition regenerate_cursor_for_migration ::
    "ArtefactReader \<Rightarrow> ResumeCursor \<Rightarrow> ReaderObservation \<Rightarrow> ResumeCursor option" where
  "regenerate_cursor_for_migration rd source_cursor target_observation =
    (if rd_locator rd = rc_locator source_cursor then None
     else if \<not> obs_is_genesis target_observation then None
     else if obs_event_id target_observation = rc_event_id source_cursor then None
     else Some (observation_cursor target_observation))"

section \<open>Refinement of the abstract log\<close>

definition tracking :: "blake3 \<Rightarrow> EventEnvelope \<Rightarrow> FiberTracking" where
  "tracking H e = \<lparr>ft_last_event_id = eid e, ft_last_commitment_hash = commitment H e\<rparr>"

definition charge :: "(EventEnvelope \<times> nat) list \<Rightarrow> nat" where
  "charge items = sum_list (map (\<lambda>(e, c). 85 + c) items)"

text \<open>The reader has accepted exactly \<open>log\<close>, tracks the last event of every fiber, and accounts for what
  is queued.\<close>

definition reads :: "blake3 \<Rightarrow> EventEnvelope list \<Rightarrow> ReaderState \<Rightarrow> bool" where
  "reads H log s \<longleftrightarrow> valid_log H log \<and>
     map_of (fibers s) = (\<lambda>f. map_option (tracking H) (last_on_fiber log f)) \<and>
     map_of (observed_events s) = event_fiber log \<and>
     length (fibers s) \<le> length log \<and> unat (observed_position s) = length log \<and>
     length log + length (stream s) \<le> MAX_STREAM_ITEMS \<and>
     retained_bytes s = charge (stream s) \<and> retained_bytes s \<le> MAX_STREAM_BYTES \<and>
     (capacity_refused s \<or> byte_capacity_refused s \<longrightarrow> terminally_failed s) \<and>
     (terminally_failed s \<longrightarrow> stream s = [])"

lemmas limits = MAX_ACTIVE_FIBERS_def MAX_STREAM_ITEMS_def MAX_STREAM_BYTES_def

lemma charge_simps [simp]: "charge [] = 0" "charge ((e, c) # rest) = 85 + c + charge rest"
  "charge (xs @ ys) = charge xs + charge ys"
  by (simp_all add: charge_def)

lemma reads_mark_failed:
  "reads H log s \<Longrightarrow> reads H log (mark_terminally_failed s)"
  by (simp add: reads_def mark_terminally_failed_def)

lemma reads_pop:
  assumes "reads H log s" and "stream s = (env, c) # rest"
  shows "retained_bytes s - saturating_add 85 c = charge rest" and "charge rest \<le> MAX_STREAM_BYTES"
    and "length log + length rest < MAX_STREAM_ITEMS"
  using assms by (simp_all add: reads_def saturating_add_def limits USIZE_bound min_def)

lemma checked_add_u64_one:
  "unat p < 2 ^ 64 - 1 \<Longrightarrow> checked_add_u64 p 1 = Some (p + 1) \<and> unat (p + 1) = Suc (unat p)"
  by (simp add: checked_add_u64_def unat_word_ariths(1))

text \<open>The state after an accepted envelope, whichever of the two observers took it.\<close>

definition observed :: "blake3 \<Rightarrow> ReaderState \<Rightarrow> EventEnvelope \<Rightarrow> ReaderState" where
  "observed H s env = s\<lparr>observed_position := observed_position s + 1,
     fibers := AList.update (fid env) (tracking H env) (fibers s),
     observed_events := AList.update (eid env) (fid env) (observed_events s)\<rparr>"

lemma reads_observed:
  assumes "reads H log s" and "stream s = (env, c) # rest" and "admissible H log env"
  shows "reads H (log @ [env])
    (observed H (s\<lparr>stream := rest, retained_bytes := retained_bytes s - saturating_add 85 c\<rparr>) env)"
proof -
  note pop = reads_pop [OF assms(1,2)]
  have "unat (observed_position s) < 2 ^ 64 - 1" using assms(1) pop(3) by (simp add: reads_def limits)
  then have pos: "unat (observed_position s + 1) = Suc (length log)"
    using checked_add_u64_one assms(1) by (auto simp: reads_def)
  have new: "event_fiber log (eid env) = None" using assms(3) by (simp add: admissible_def)
  have fib: "(map_of (fibers s))(fid env \<mapsto> tracking H env) =
      (\<lambda>f. map_option (tracking H) (last_on_fiber (log @ [env]) f))"
    using assms(1) by (auto simp: reads_def last_on_fiber_snoc)
  have obs: "(event_fiber log)(eid env \<mapsto> fid env) = event_fiber (log @ [env])"
    using new by (auto simp: event_fiber_snoc)
  have len: "length (AList.update (fid env) (tracking H env) (fibers s)) \<le> Suc (length log)"
    using assms(1) by (simp add: reads_def length_update)
  show ?thesis
    using assms pop pos fib obs len by (auto simp: reads_def observed_def intro: valid_log.extend)
qed

lemma observe_admissible:
  assumes "reads H log s" and "length log < MAX_STREAM_ITEMS" and "admissible H log env"
  shows "prec env = zero_id \<Longrightarrow> check_genesis s env = Inr () \<and>
      observe_genesis H loc s env = Some (\<lparr>obs_position = observed_position s, obs_event_id = eid env,
        obs_fiber_id = fid env, obs_locator = loc, obs_is_genesis = True\<rparr>, observed H s env)"
    and "prec env \<noteq> zero_id \<Longrightarrow> check_chained s env = Inr () \<and>
      observe_event H loc s env = Some (\<lparr>obs_position = observed_position s, obs_event_id = eid env,
        obs_fiber_id = fid env, obs_locator = loc, obs_is_genesis = False\<rparr>, observed H s env)"
proof -
  have "unat (observed_position s) < 2 ^ 64 - 1" using assms(1,2) by (simp add: reads_def limits)
  then have next_pos: "checked_add_u64 (observed_position s) 1 = Some (observed_position s + 1)"
    using checked_add_u64_one by blast
  have new: "map_of (observed_events s) (eid env) = None"
    using assms(1,3) by (simp add: reads_def admissible_def)
  show "check_genesis s env = Inr () \<and>
      observe_genesis H loc s env = Some (\<lparr>obs_position = observed_position s, obs_event_id = eid env,
        obs_fiber_id = fid env, obs_locator = loc, obs_is_genesis = True\<rparr>, observed H s env)"
    if "prec env = zero_id"
    using that assms new next_pos
    by (auto simp: check_genesis_def observe_genesis_def reads_def admissible_def limits observed_def
        tracking_def commitment_def)
  show "check_chained s env = Inr () \<and>
      observe_event H loc s env = Some (\<lparr>obs_position = observed_position s, obs_event_id = eid env,
        obs_fiber_id = fid env, obs_locator = loc, obs_is_genesis = False\<rparr>, observed H s env)"
    if chained: "prec env \<noteq> zero_id"
  proof -
    from assms(3) chained obtain p where p: "last_on_fiber log (fid env) = Some p"
      "eid p = prec env" "commitment H p = prec_hash env"
      by (auto simp: admissible_def split: option.splits)
    have "valid_log H log" using assms(1) by (simp add: reads_def)
    then have "event_fiber log (prec env) = Some (fid env)"
      using valid_log_event_fiber [of H log p] last_on_fiber_member [OF p(1)] p(2) by simp
    with assms(1) p chained new next_pos show ?thesis
      by (simp add: check_chained_def observe_event_def reads_def tracking_def observed_def commitment_def)
  qed
qed

lemma not_admissible_refused:
  assumes "reads H log s" and "\<not> admissible H log env" and "map_of (observed_events s) (eid env) = None"
  shows "prec env = zero_id \<Longrightarrow> \<exists>e. check_genesis s env = Inl e"
    and "prec env \<noteq> zero_id \<Longrightarrow> \<exists>e. check_chained s env = Inl e"
  using assms by (auto simp: check_genesis_def check_chained_def reads_def admissible_def tracking_def
      split: option.splits)

lemma read_event_next:
  assumes "reads H log (rd_state rd)" and "stream (rd_state rd) = (env, c) # rest"
  defines "s1 \<equiv> (rd_state rd)\<lparr>stream := rest, retained_bytes := retained_bytes (rd_state rd) - saturating_add 85 c\<rparr>"
  shows "if admissible H log env
    then read_event H rd = (Some (Inr \<lparr>obs_position = of_nat (length log), obs_event_id = eid env,
      obs_fiber_id = fid env, obs_locator = rd_locator rd, obs_is_genesis = (prec env = zero_id)\<rparr>),
      rd\<lparr>rd_state := observed H s1 env\<rparr>)
    else \<exists>e. read_event H rd = (Some (Inl e), rd\<lparr>rd_state := mark_terminally_failed s1\<rparr>)"
proof -
  have ok: "\<not> capacity_refused (rd_state rd)" "\<not> byte_capacity_refused (rd_state rd)" "\<not> terminally_failed (rd_state rd)"
    using assms(1,2) by (auto simp: reads_def)
  have s1: "reads H log s1" "length log < MAX_STREAM_ITEMS"
    using assms(1,2) reads_pop [OF assms(1,2)] by (auto simp: reads_def s1_def)
  have pos: "observed_position s1 = of_nat (length log)"
  proof -
    have "of_nat (unat (observed_position s1)) = observed_position s1" by simp
    moreover have "unat (observed_position s1) = length log" using s1(1) by (simp add: reads_def)
    ultimately show ?thesis by simp
  qed
  show ?thesis
  proof (cases "admissible H log env")
    case True
    then have new: "map_of (observed_events s1) (eid env) = None"
      using s1(1) by (simp add: admissible_def reads_def)
    with True ok pos observe_admissible [OF s1 True, of "rd_locator rd"] assms(2) show ?thesis
      by (simp add: read_event_def Let_def s1_def)
  next
    case False
    then show ?thesis
      using ok assms(2) not_admissible_refused [OF s1(1) False]
      by (cases "map_of (observed_events s1) (eid env)"; cases "prec env = zero_id")
        (auto simp: read_event_def Let_def s1_def)
  qed
qed

section \<open>Ingestion\<close>

definition fits :: "(EventEnvelope \<times> nat) list \<Rightarrow> bool" where
  "fits items \<longleftrightarrow> length items \<le> MAX_STREAM_ITEMS \<and> charge items \<le> MAX_STREAM_BYTES"

lemma ingest_keeps:
  assumes "ingest items queue retained count = (queue', retained', stop)"
    and "retained = charge queue" and "retained \<le> MAX_STREAM_BYTES" and "count = length queue"
    and "length queue \<le> MAX_STREAM_ITEMS"
  shows "retained' = charge queue' \<and> retained' \<le> MAX_STREAM_BYTES \<and> length queue' \<le> MAX_STREAM_ITEMS"
  using assms
  by (induction items queue retained count rule: ingest.induct)
    (auto simp: Let_def result_simps saturating_add_def limits USIZE_bound split: if_splits option.splits)

lemma ingest_all:
  assumes "length queue + length items \<le> MAX_STREAM_ITEMS" and "charge queue + charge items \<le> MAX_STREAM_BYTES"
    and "retained = charge queue" and "count = length queue"
  shows "ingest items queue retained count = (queue @ items, charge (queue @ items), Ingest_Done)"
  using assms
proof (induction items arbitrary: queue retained count)
  case Nil
  then show ?case by simp
next
  case (Cons p items)
  obtain env c where p: "p = (env, c)" by (cases p)
  have "checked_add 85 c = Some (85 + c)" "checked_add retained (85 + c) = Some (retained + (85 + c))"
    using Cons.prems p by (simp_all add: checked_add_def USIZE_bound limits)
  moreover have "saturating_add count 1 = Suc count" "Suc count \<le> MAX_STREAM_ITEMS"
    using Cons.prems p by (simp_all add: saturating_add_def USIZE_bound limits)
  ultimately show ?case
    using Cons.IH [of "queue @ [p]" "retained + (85 + c)" "Suc count"] Cons.prems p by (simp add: Let_def)
qed

lemma reads_with_stream: "reads H [] (rd_state (with_stream loc items))"
proof -
  obtain queue retained stop where i: "ingest items [] 0 0 = (queue, retained, stop)"
    by (metis prod_cases3)
  from ingest_keeps [OF i] have k: "retained = charge queue" "retained \<le> MAX_STREAM_BYTES"
    "length queue \<le> MAX_STREAM_ITEMS" by simp_all
  have empty_maps: "(\<lambda>f. map_option (tracking H) (last_on_fiber [] f)) = Map.empty" "event_fiber [] = Map.empty"
    by (auto simp: last_on_fiber_def fiber_events_def event_fiber_def)
  show ?thesis
    using k by (auto simp: with_stream_def Let_def i reads_def mark_terminally_failed_def valid_log.empty empty_maps)
qed

lemma with_stream_fits:
  "fits items \<Longrightarrow> stream (rd_state (with_stream loc items)) = items \<and> rd_locator (with_stream loc items) = loc"
  by (simp add: fits_def with_stream_def Let_def ingest_all)

section \<open>Reading to the end\<close>

text \<open>Calling \<open>read_event\<close> at most \<open>n\<close> times, until it returns nothing.\<close>

fun drain :: "nat \<Rightarrow> blake3 \<Rightarrow> ArtefactReader \<Rightarrow> ReaderObservation operation list" where
  "drain 0 H rd = []"
| "drain (Suc n) H rd =
    (case read_event H rd of (None, rd') \<Rightarrow> [] | (Some r, rd') \<Rightarrow> r # drain n H rd')"

definition observation :: "bytes \<Rightarrow> nat \<Rightarrow> EventEnvelope \<Rightarrow> ReaderObservation" where
  "observation loc i e = \<lparr>obs_position = of_nat i, obs_event_id = eid e, obs_fiber_id = fid e,
     obs_locator = loc, obs_is_genesis = (prec e = zero_id)\<rparr>"

lemma drain_accepts:
  assumes "reads H log (rd_state rd)"
  shows "drain (length (stream (rd_state rd))) H rd =
      map (\<lambda>(i, e). Inr (observation (rd_locator rd) i e))
        (zip [length log..<length log + length (stream (rd_state rd))] (map fst (stream (rd_state rd)))) \<longleftrightarrow>
    valid_from H log (map fst (stream (rd_state rd)))"
  using assms
proof (induction "stream (rd_state rd)" arbitrary: rd log)
  case Nil
  then show ?case by (simp flip: Nil.hyps)
next
  case (Cons q rest)
  obtain env c where q: "q = (env, c)" by (cases q)
  let ?s1 = "(rd_state rd)\<lparr>stream := rest, retained_bytes := retained_bytes (rd_state rd) - saturating_add 85 c\<rparr>"
  let ?rd' = "rd\<lparr>rd_state := observed H ?s1 env\<rparr>"
  have st: "stream (rd_state rd) = (env, c) # rest" using Cons.hyps(2) q by simp
  note nx = read_event_next [OF Cons.prems st]
  have up: "[length log..<Suc (length log + length rest)] = length log # [Suc (length log)..<Suc (length log + length rest)]"
    by (simp add: upt_conv_Cons del: upt_Suc)
  show ?case
  proof (cases "admissible H log env")
    case False
    then show ?thesis using nx st by (auto simp: up simp del: upt_Suc)
  next
    case True
    have rest: "stream (rd_state ?rd') = rest" by (simp add: observed_def)
    with Cons.hyps(1) [of ?rd' "log @ [env]"] reads_observed [OF Cons.prems st True]
    have "drain (length rest) H ?rd' = map (\<lambda>(i, e). Inr (observation (rd_locator rd) i e))
        (zip [Suc (length log)..<Suc (length log) + length rest] (map fst rest)) \<longleftrightarrow>
      valid_from H (log @ [env]) (map fst rest)" by (simp del: upt_Suc)
    with True nx st show ?thesis by (simp add: up observation_def del: upt_Suc)
  qed
qed

lemma read_event_step:
  assumes "reads H log (rd_state rd)" and "read_event H rd = (res, rd')"
  shows "case res of
      Some (Inr ob) \<Rightarrow> \<exists>env c rest. stream (rd_state rd) = (env, c) # rest \<and> admissible H log env \<and>
        ob = observation (rd_locator rd) (length log) env \<and>
        reads H (log @ [env]) (rd_state rd') \<and> stream (rd_state rd') = rest
    | Some (Inl e) \<Rightarrow> reads H log (rd_state rd') \<and> terminally_failed (rd_state rd') \<and> stream (rd_state rd') = []
    | None \<Rightarrow> rd' = rd \<and> stream (rd_state rd) = []"
proof (cases "stream (rd_state rd)")
  case Nil
  then show ?thesis
    using assms reads_mark_failed [OF assms(1)]
    by (auto simp: read_event_def Let_def reads_def mark_terminally_failed_def split: if_splits)
next
  case (Cons q rest)
  obtain env c where q: "stream (rd_state rd) = (env, c) # rest" using Cons by (cases q) auto
  let ?s1 = "(rd_state rd)\<lparr>stream := rest, retained_bytes := retained_bytes (rd_state rd) - saturating_add 85 c\<rparr>"
  have s1: "reads H log ?s1" using assms(1) q reads_pop [OF assms(1) q] by (auto simp: reads_def)
  show ?thesis
    using read_event_next [OF assms(1) q] reads_observed [OF assms(1) q] reads_mark_failed [OF s1] assms(2) q
    by (cases "admissible H log env")
      (auto simp: observation_def observed_def mark_terminally_failed_def)
qed

lemma read_event_reads:
  assumes "reads H log (rd_state rd)"
  shows "\<exists>log'. reads H log' (rd_state (snd (read_event H rd)))"
proof -
  obtain res rd' where r: "read_event H rd = (res, rd')" by fastforce
  from read_event_step [OF assms r] assms show ?thesis
    by (auto simp: r split: option.splits sum.splits)
qed

lemma reads_after: "\<exists>log. reads H log (rd_state (((\<lambda>rd. snd (read_event H rd)) ^^ n) (with_stream loc items)))"
  by (induction n) (auto intro: reads_with_stream read_event_reads)

text \<open>What a reader has accepted is the beginning of the stream it was opened on, as long as its position.\<close>

lemma ingest_prefix:
  "ingest items queue retained count = (queue', retained', stop) \<Longrightarrow> \<exists>taken. queue' = queue @ taken \<and> prefix taken items"
proof (induction items queue retained count rule: ingest.induct)
  case (2 env capacity rest queue retained count)
  show ?case
  proof (cases "queue' = queue")
    case True
    then show ?thesis by (intro exI [of _ "[]"]) simp
  next
    case False
    with 2 have "\<exists>taken. queue' = (queue @ [(env, capacity)]) @ taken \<and> prefix taken rest"
      by (auto simp: Let_def split: if_splits option.splits)
    then obtain taken where "queue' = (queue @ [(env, capacity)]) @ taken" "prefix taken rest" by blast
    then show ?thesis by (intro exI [of _ "(env, capacity) # taken"]) simp
  qed
qed simp

lemma with_stream_prefix: "prefix (map fst (stream (rd_state (with_stream loc items)))) (map fst items)"
proof -
  obtain queue retained stop where i: "ingest items [] 0 0 = (queue, retained, stop)" by (metis prod_cases3)
  show ?thesis
    using ingest_prefix [OF i] by (auto simp: with_stream_def Let_def i mark_terminally_failed_def intro: map_mono_prefix)
qed

lemma reads_after_prefix:
  "\<exists>log. reads H log (rd_state (((\<lambda>rd. snd (read_event H rd)) ^^ n) (with_stream loc items))) \<and>
    prefix (log @ map fst (stream (rd_state (((\<lambda>rd. snd (read_event H rd)) ^^ n) (with_stream loc items))))) (map fst items)"
proof (induction n)
  case 0
  then show ?case using reads_with_stream [of H loc items] with_stream_prefix [of loc items] by (intro exI [of _ "[]"]) simp
next
  case (Suc n)
  let ?rd = "((\<lambda>rd. snd (read_event H rd)) ^^ n) (with_stream loc items)"
  obtain log where log: "reads H log (rd_state ?rd)" "prefix (log @ map fst (stream (rd_state ?rd))) (map fst items)"
    using Suc.IH by blast
  obtain res rd' where r: "read_event H ?rd = (res, rd')" by fastforce
  from read_event_step [OF log(1) r] log show ?case
    by (auto simp: r dest: append_prefixD split: option.splits sum.splits)
qed

text \<open>A valid stream within the limits is accepted event by event.\<close>

lemma reads_valid_stream:
  assumes "fits items" and "valid_log H (map fst items)" and "n \<le> length items"
  shows "reads H (take n (map fst items)) (rd_state (((\<lambda>rd. snd (read_event H rd)) ^^ n) (with_stream loc items))) \<and>
    stream (rd_state (((\<lambda>rd. snd (read_event H rd)) ^^ n) (with_stream loc items))) = drop n items"
  using assms(3)
proof (induction n)
  case 0
  then show ?case using reads_with_stream with_stream_fits [OF assms(1)] by simp
next
  case (Suc n)
  let ?rd = "((\<lambda>rd. snd (read_event H rd)) ^^ n) (with_stream loc items)"
  obtain env c where nth: "items ! n = (env, c)" by fastforce
  have IH: "reads H (take n (map fst items)) (rd_state ?rd)" "stream (rd_state ?rd) = (env, c) # drop (Suc n) items"
    using Suc nth by (simp_all add: Cons_nth_drop_Suc [symmetric])
  have "valid_log H (take n (map fst items))" using IH(1) by (simp add: reads_def)
  moreover have "take n (map fst items) @ env # drop (Suc n) (map fst items) = map fst items"
    using Suc.prems nth id_take_nth_drop [of n "map fst items"] by simp
  ultimately have "valid_from H (take n (map fst items)) (env # drop (Suc n) (map fst items))"
    using assms(2) by (simp only: valid_from_log)
  then have "admissible H (take n (map fst items)) env" by simp
  with read_event_next [OF IH] reads_observed [OF IH] show ?case
    using Suc.prems nth by (simp add: take_Suc_conv_app_nth observed_def)
qed

definition accepted_events :: "ReaderState \<Rightarrow> (EventEnvelope \<times> nat) list \<Rightarrow> EventEnvelope list" where
  "accepted_events s items = take (unat (observed_position s)) (map fst items)"

lemma reads_accepted:
  "reads H (accepted_events (rd_state (((\<lambda>rd. snd (read_event H rd)) ^^ n) (with_stream loc items))) items)
    (rd_state (((\<lambda>rd. snd (read_event H rd)) ^^ n) (with_stream loc items)))"
proof -
  obtain log where log: "reads H log (rd_state (((\<lambda>rd. snd (read_event H rd)) ^^ n) (with_stream loc items)))"
    "prefix log (map fst items)"
    using reads_after_prefix append_prefixD by blast
  then have "log = take (length log) (map fst items)" by (auto elim: prefixE)
  with log(1) show ?thesis by (simp add: accepted_events_def reads_def)
qed

text \<open>Readers that have accepted logs and track the same last commitment of a fiber have accepted the same events on it.\<close>

lemma same_tip_same_history:
  assumes "reads H log s" and "reads H log' s'"
    and "map_of (fibers s) f = Some t" and "map_of (fibers s') f = Some t'"
    and "ft_last_commitment_hash t = ft_last_commitment_hash t'"
    and "list_all (\<lambda>e. EnvelopeHeader_wf (env_header e)) (log @ log')"
  shows "fiber_events log f = fiber_events log' f \<or> (\<exists>a\<in>set log. \<exists>b\<in>set log'. collision H a b)"
proof (rule disjCI)
  assume none: "\<not> (\<exists>a\<in>set log. \<exists>b\<in>set log'. collision H a b)"
  have last: "es \<noteq> [] \<and> commitment H (last es) = ft_last_commitment_hash u"
    if "reads H lg st" "map_of (fibers st) f = Some u" "es = fiber_events lg f" for lg st u es
    using that by (auto simp: reads_def last_on_fiber_def Let_def tracking_def split: if_splits)
  show "fiber_events log f = fiber_events log' f"
  proof (rule linked_determined)
    show "linked H (fiber_events log f)" "linked H (fiber_events log' f)"
      using assms(1,2) valid_log_linked by (auto simp: reads_def)
    show "fiber_events log f \<noteq> []" "fiber_events log' f \<noteq> []"
      "commitment H (last (fiber_events log f)) = commitment H (last (fiber_events log' f))"
      using last [OF assms(1,3) refl] last [OF assms(2,4) refl] assms(5) by auto
    show "\<forall>e\<in>set (fiber_events log f) \<union> set (fiber_events log' f). EnvelopeHeader_wf (env_header e)"
      using assms(6) by (auto simp: fiber_events_def list_all_iff)
    show "\<forall>a\<in>set (fiber_events log f). \<forall>b\<in>set (fiber_events log' f). \<not> collision H a b"
      using none by (auto simp: fiber_events_def)
  qed
qed

section \<open>Properties\<close>

text \<open>C18: one call of \<open>read_event\<close> on a reader that has accepted a log. If it returns an observation,
  the envelope at the head of the queue is admissible after the log (fresh identifier; a genesis on a new
  fiber, or linked by identifier and commitment to the last event of its own fiber), the observation
  carries its position and identifiers, and the reader has accepted the extended log. If it refuses, the
  session is terminally failed and drops what is queued. Otherwise nothing was left.\<close>

theorem read_event_refines_log:
  assumes "reads H log (rd_state rd)" and "read_event H rd = (res, rd')"
  shows "case res of
      Some (Inr ob) \<Rightarrow> \<exists>env c rest. stream (rd_state rd) = (env, c) # rest \<and> admissible H log env \<and>
        ob = observation (rd_locator rd) (length log) env \<and>
        reads H (log @ [env]) (rd_state rd') \<and> stream (rd_state rd') = rest
    | Some (Inl e) \<Rightarrow> reads H log (rd_state rd') \<and> terminally_failed (rd_state rd') \<and> stream (rd_state rd') = []
    | None \<Rightarrow> rd' = rd \<and> stream (rd_state rd) = []"
  using assms by (rule read_event_step)

theorem read_event_refines_log_witness:
  "\<exists>env c rest. stream (rd_state (with_stream [] [(\<lparr>env_header = \<lparr>hdr_event_id = replicate 16 1,
       hdr_fiber_id = replicate 16 2, hdr_detached = False, hdr_precursor = zero_id,
       hdr_precursor_hash = zero_hash\<rparr>, env_payload = [3]\<rparr>, 1)])) = (env, c) # rest \<and>
     admissible (\<lambda>x. x) [] env"
proof -
  let ?e = "\<lparr>env_header = \<lparr>hdr_event_id = replicate 16 1, hdr_fiber_id = replicate 16 2, hdr_detached = False,
      hdr_precursor = zero_id, hdr_precursor_hash = zero_hash\<rparr>, env_payload = [3]\<rparr>"
  let ?rd = "with_stream [] [(?e, 1)]"
  have "\<exists>ob rd'. read_event (\<lambda>x. x) ?rd = (Some (Inr ob), rd')"
    by (simp add: with_stream_def Let_def checked_add_def saturating_add_def USIZE_bound limits read_event_def
        check_genesis_def observe_genesis_def checked_add_u64_def)
  then obtain ob rd' where "read_event (\<lambda>x. x) ?rd = (Some (Inr ob), rd')" by blast
  from read_event_refines_log [OF reads_with_stream this] show ?thesis by auto
qed

text \<open>C24: for a stream within the item and byte limits, reading it to the end yields exactly one
  observation per envelope, in order and numbered from zero, if and only if the stream is a valid log:
  every identifier fresh and every fiber an unbroken chain of commitments from its genesis.\<close>

theorem reader_accepts_exactly_valid_logs:
  assumes "length items \<le> MAX_STREAM_ITEMS" and "charge items \<le> MAX_STREAM_BYTES"
  shows "drain (length items) H (with_stream loc items) =
      map (\<lambda>(i, e). Inr (observation loc i e)) (zip [0..<length items] (map fst items)) \<longleftrightarrow>
    valid_log H (map fst items)"
proof -
  have "fits items" using assms by (simp add: fits_def)
  from drain_accepts [OF reads_with_stream [of H loc items]] with_stream_fits [OF this, of loc]
    valid_from_log [OF valid_log.empty, of H "map fst items"]
  show ?thesis by simp
qed

theorem reader_accepts_exactly_valid_logs_witness:
  "drain 1 (\<lambda>x. x) (with_stream [5] [(\<lparr>env_header = \<lparr>hdr_event_id = [1], hdr_fiber_id = [2], hdr_detached = False,
      hdr_precursor = zero_id, hdr_precursor_hash = zero_hash\<rparr>, env_payload = [3]\<rparr>, 8)]) =
    [Inr \<lparr>obs_position = 0, obs_event_id = [1], obs_fiber_id = [2], obs_locator = [5], obs_is_genesis = True\<rparr>]"
proof -
  let ?e = "\<lparr>env_header = \<lparr>hdr_event_id = [1], hdr_fiber_id = [2], hdr_detached = False,
      hdr_precursor = zero_id, hdr_precursor_hash = zero_hash\<rparr>, env_payload = [3]\<rparr>"
  have "admissible (\<lambda>x. x) [] ?e"
    by (simp add: admissible_def event_fiber_def last_on_fiber_def fiber_events_def)
  from valid_log.extend [OF valid_log.empty this] have "valid_log (\<lambda>x. x) [?e]" by simp
  then show ?thesis
    using reader_accepts_exactly_valid_logs [of "[(?e, 8)]" "\<lambda>x. x" "[5]"]
    by (simp add: limits observation_def del: drain.simps)
qed

text \<open>C30: whatever stream a reader is opened on and however often it is read, it never holds more than its
  limits: the events observed and still queued together stay within the item limit, the retained bytes are
  exactly the charge of what is queued and within the byte limit, the position counter does not wrap, and
  the number of tracked fibers never reaches its own capacity.\<close>

theorem reader_limits:
  "let s = rd_state (((\<lambda>rd. snd (read_event H rd)) ^^ n) (with_stream loc items)) in
    unat (observed_position s) + length (stream s) \<le> MAX_STREAM_ITEMS \<and>
    retained_bytes s = charge (stream s) \<and> retained_bytes s \<le> MAX_STREAM_BYTES \<and>
    length (fibers s) \<le> unat (observed_position s) \<and> length (fibers s) < MAX_ACTIVE_FIBERS"
  using reads_after [of H n loc items] by (auto simp: reads_def limits Let_def)

text \<open>C26: open two readers on any streams and read any number of events from each. When the commitments they then track
  for a fiber are equal, the events accepted on that fiber are the same in both streams, event for event, or two
  of the accepted envelopes differ in the bytes of header and payload although the hash maps these bytes to the
  same digest: no event of a fiber's past can be altered, dropped or reordered without changing the commitment at
  its head, unless the hash itself collides.\<close>

theorem fiber_history_tamper_evident:
  assumes "s = rd_state (((\<lambda>rd. snd (read_event H rd)) ^^ n) (with_stream loc items))"
    and "s' = rd_state (((\<lambda>rd. snd (read_event H rd)) ^^ n') (with_stream loc' items'))"
    and "map_of (fibers s) f = Some t" and "map_of (fibers s') f = Some t'"
    and "ft_last_commitment_hash t = ft_last_commitment_hash t'"
    and "list_all (\<lambda>(e, c). EnvelopeHeader_wf (env_header e)) (items @ items')"
  shows "fiber_events (accepted_events s items) f = fiber_events (accepted_events s' items') f \<or>
    (\<exists>a \<in> set (accepted_events s items). \<exists>b \<in> set (accepted_events s' items').
       EnvelopeHeader_encode (env_header a) @ env_payload a \<noteq> EnvelopeHeader_encode (env_header b) @ env_payload b \<and>
       H (EnvelopeHeader_encode (env_header a) @ env_payload a) = H (EnvelopeHeader_encode (env_header b) @ env_payload b))"
proof -
  have reads: "reads H (accepted_events s items) s" "reads H (accepted_events s' items') s'"
    unfolding assms(1,2) by (rule reads_accepted)+
  have "list_all (\<lambda>e. EnvelopeHeader_wf (env_header e)) (accepted_events s items @ accepted_events s' items')"
    using assms(6) by (fastforce simp: accepted_events_def list_all_iff dest!: in_set_takeD)
  from same_tip_same_history [OF reads assms(3-5) this] show ?thesis by (auto simp: collision_def Let_def)
qed

text \<open>Two streams that hold the same event of one fiber, one of them behind an event of another fiber: the commitments
  of the common fiber agree, and so do its histories, although the streams differ.\<close>

definition plain_event :: "byte \<Rightarrow> byte \<Rightarrow> EventEnvelope" where
  "plain_event i f = \<lparr>env_header = \<lparr>hdr_event_id = replicate 16 i, hdr_fiber_id = replicate 16 f, hdr_detached = False,
      hdr_precursor = zero_id, hdr_precursor_hash = zero_hash\<rparr>, env_payload = [i]\<rparr>"

theorem fiber_history_tamper_evident_witness:
  "let items = [(plain_event 1 2, 1)]; items' = [(plain_event 3 4, 1), (plain_event 1 2, 1)];
       s = rd_state (((\<lambda>rd. snd (read_event (\<lambda>x. x) rd)) ^^ 1) (with_stream [] items));
       s' = rd_state (((\<lambda>rd. snd (read_event (\<lambda>x. x) rd)) ^^ 2) (with_stream [] items')) in
    accepted_events s items \<noteq> accepted_events s' items' \<and>
    fiber_events (accepted_events s items) (replicate 16 2) = fiber_events (accepted_events s' items') (replicate 16 2) \<and>
    fiber_events (accepted_events s items) (replicate 16 2) = [plain_event 1 2]"
proof -
  let ?items = "[(plain_event 1 2, 1)]" and ?items' = "[(plain_event 3 4, 1), (plain_event 1 2, 1)]"
  let ?s = "rd_state (((\<lambda>rd. snd (read_event (\<lambda>x. x) rd)) ^^ 1) (with_stream [] ?items))"
  let ?s' = "rd_state (((\<lambda>rd. snd (read_event (\<lambda>x. x) rd)) ^^ 2) (with_stream [] ?items'))"
  have adm: "admissible (\<lambda>x. x) [] (plain_event 1 2)" "admissible (\<lambda>x. x) [] (plain_event 3 4)"
    "admissible (\<lambda>x. x) [plain_event 3 4] (plain_event 1 2)"
    by (simp_all add: admissible_def event_fiber_def last_on_fiber_def fiber_events_def plain_event_def)
  have valid: "valid_log (\<lambda>x. x) [plain_event 1 2]" "valid_log (\<lambda>x. x) [plain_event 3 4, plain_event 1 2]"
    using valid_log.extend [OF valid_log.empty adm(1)]
      valid_log.extend [OF valid_log.extend [OF valid_log.empty adm(2)], of "plain_event 1 2"] adm(3) by simp_all
  have "fits ?items" "fits ?items'" by (simp_all add: fits_def limits)
  with valid have r: "reads (\<lambda>x. x) [plain_event 1 2] ?s" "reads (\<lambda>x. x) [plain_event 3 4, plain_event 1 2] ?s'"
    using reads_valid_stream [of ?items "\<lambda>x. x" 1 "[]"] reads_valid_stream [of ?items' "\<lambda>x. x" 2 "[]"] by simp_all
  then have t: "map_of (fibers ?s) (replicate 16 2) = Some (tracking (\<lambda>x. x) (plain_event 1 2))"
    "map_of (fibers ?s') (replicate 16 2) = Some (tracking (\<lambda>x. x) (plain_event 1 2))"
    by (simp_all add: reads_def last_on_fiber_def fiber_events_def plain_event_def)
  have pos: "accepted_events ?s ?items = [plain_event 1 2]" "accepted_events ?s' ?items' = [plain_event 3 4, plain_event 1 2]"
    using r by (simp_all add: accepted_events_def reads_def)
  have "list_all (\<lambda>(e, c). EnvelopeHeader_wf (env_header e)) (?items @ ?items')"
    by (simp add: plain_event_def EnvelopeHeader_wf_def)
  from fiber_history_tamper_evident [OF refl refl t refl this] pos show ?thesis
    by (simp add: Let_def fiber_events_def plain_event_def del: funpow.simps)
qed

end
