(* ===== verification/Ownership_Records.thy ===== *)
theory Ownership_Records
  imports Envelope
begin

text \<open>
  The nine ownership records of \<open>encoding.rs\<close> with their wire form, and the small enums and
  the partitioning rule they carry. \<open>OwnershipRecord::encode\<close> panics when a label or a
  parameter payload is longer than \<open>u32::MAX\<close>; the panic is \<open>None\<close>. Each arm of the match
  in \<open>OwnershipRecord::decode\<close> is a definition of its own.
\<close>

section \<open>Partitioning rule, migration status, rescue policy\<close>

datatype PartitioningRule = StaticModulo u32 | ConsistentHash u64 u32

fun PartitioningRule_encode :: "PartitioningRule \<Rightarrow> bytes" where
  "PartitioningRule_encode (StaticModulo total_draglines) =
    [0x01] @ u32_to_le 4 @ u32_to_le total_draglines"
| "PartitioningRule_encode (ConsistentHash hash_seed virtual_node_count) =
    [0x02] @ u32_to_le 12 @ u64_to_le hash_seed @ u32_to_le virtual_node_count"

definition PartitioningRule_decode :: "bytes \<Rightarrow> PartitioningRule decoded" where
  "PartitioningRule_decode buf =
    (if length buf < 5 then Inl (TruncatedPayload 5 (length buf))
     else
       (let tag = buf ! 0; param_len = unat (u32_from_le (subslice 1 5 buf)) in
        case checked_add 5 param_len of
          None \<Rightarrow> Inl (ValueConstraintViolated TooLong)
        | Some total_consumed \<Rightarrow>
            if length buf < total_consumed then Inl (TruncatedPayload total_consumed (length buf))
            else
              (let param_bytes = subslice 5 total_consumed buf in
               if tag = 0x01 then
                 (if length param_bytes < 4 then Inl (TruncatedPayload 4 (length param_bytes))
                  else Inr (StaticModulo (u32_from_le (subslice 0 4 param_bytes)), total_consumed))
               else if tag = 0x02 then
                 (if length param_bytes < 12 then Inl (TruncatedPayload 12 (length param_bytes))
                  else Inr (ConsistentHash (u64_from_le (subslice 0 8 param_bytes))
                              (u32_from_le (subslice 8 12 param_bytes)), total_consumed))
               else Inl (UnknownPartitioningRuleTag tag))))"

datatype MigrationStatus = Complete | Interrupted

fun MigrationStatus_to_u8 :: "MigrationStatus \<Rightarrow> byte" where
  "MigrationStatus_to_u8 Complete = 0x01"
| "MigrationStatus_to_u8 Interrupted = 0x02"

definition MigrationStatus_from_u8 :: "byte \<Rightarrow> decode_error + MigrationStatus" where
  "MigrationStatus_from_u8 v =
    (if v = 0x01 then Inr Complete else if v = 0x02 then Inr Interrupted
     else Inl (InvalidMigrationStatus v))"

datatype RescuePolicy = Strict | DropCorrupted | HaltOnGap

fun RescuePolicy_to_u8 :: "RescuePolicy \<Rightarrow> byte" where
  "RescuePolicy_to_u8 Strict = 0x01"
| "RescuePolicy_to_u8 DropCorrupted = 0x02"
| "RescuePolicy_to_u8 HaltOnGap = 0x03"

definition RescuePolicy_from_u8 :: "byte \<Rightarrow> decode_error + RescuePolicy" where
  "RescuePolicy_from_u8 v =
    (if v = 0x01 then Inr Strict else if v = 0x02 then Inr DropCorrupted
     else if v = 0x03 then Inr HaltOnGap else Inl (InvalidRescuePolicy v))"

section \<open>Records\<close>

record OwnershipClaimRecord =
  claim_epoch :: u64
  claim_machine_id :: bytes
  claim_boot_id :: bytes
  claim_process_id :: u64
  claim_process_start_time_ns :: u64
  claim_time_ns :: u64
  claim_operator_label :: bytes

record CleanReleaseRecord =
  release_epoch :: u64
  release_time_ns :: u64

record MigrationStartRecord =
  ms_source_generation :: u32
  ms_target_generation :: u32
  ms_start_time_ns :: u64
  ms_rescue_policy_tag :: byte

record MigrationEndRecord =
  me_source_generation :: u32
  me_target_generation :: u32
  me_end_time_ns :: u64
  me_status :: MigrationStatus

record InboundPointerRecord =
  prior_generation_locator_id :: bytes
  prior_generation_epoch :: u64

record OutboundPointerRecord =
  next_generation_locator_id :: bytes
  cutover_epoch :: u64

record RescuePolicyChoiceRecord =
  rpc_policy_tag :: byte
  rpc_parameter_payload :: bytes

record IdentityStructureRecord =
  ids_dataset_id :: bytes
  ids_structure_version :: u32
  ids_dragline_id :: u32
  ids_partitioning_rule :: PartitioningRule

datatype OwnershipRecord =
    OwnershipClaim OwnershipClaimRecord
  | CleanRelease CleanReleaseRecord
  | MigrationStart MigrationStartRecord
  | MigrationEnd MigrationEndRecord
  | InboundPointer InboundPointerRecord
  | OutboundPointer OutboundPointerRecord
  | RescuePolicyChoice RescuePolicyChoiceRecord
  | IdentityStructure IdentityStructureRecord
  | SchemaDescriptor_record u32 bytes

fun wire_tag :: "OwnershipRecord \<Rightarrow> byte" where
  "wire_tag (OwnershipClaim _) = 0x01"
| "wire_tag (CleanRelease _) = 0x02"
| "wire_tag (MigrationStart _) = 0x03"
| "wire_tag (MigrationEnd _) = 0x04"
| "wire_tag (InboundPointer _) = 0x05"
| "wire_tag (OutboundPointer _) = 0x06"
| "wire_tag (RescuePolicyChoice _) = 0x07"
| "wire_tag (IdentityStructure _) = 0x08"
| "wire_tag (SchemaDescriptor_record _ _) = 0x09"

fun OwnershipRecord_body :: "OwnershipRecord \<Rightarrow> bytes option" where
  "OwnershipRecord_body (OwnershipClaim c) =
    map_option (\<lambda>label_len.
        u64_to_le (claim_epoch c) @ claim_machine_id c @ claim_boot_id c @
        u64_to_le (claim_process_id c) @ u64_to_le (claim_process_start_time_ns c) @
        u64_to_le (claim_time_ns c) @ u32_to_le label_len @ claim_operator_label c)
      (u32_try_from (length (claim_operator_label c)))"
| "OwnershipRecord_body (CleanRelease r) =
    Some (u64_to_le (release_epoch r) @ u64_to_le (release_time_ns r))"
| "OwnershipRecord_body (MigrationStart m) =
    Some (u32_to_le (ms_source_generation m) @ u32_to_le (ms_target_generation m) @
      u64_to_le (ms_start_time_ns m) @ [ms_rescue_policy_tag m])"
| "OwnershipRecord_body (MigrationEnd m) =
    Some (u32_to_le (me_source_generation m) @ u32_to_le (me_target_generation m) @
      u64_to_le (me_end_time_ns m) @ [MigrationStatus_to_u8 (me_status m)])"
| "OwnershipRecord_body (InboundPointer p) =
    Some (prior_generation_locator_id p @ u64_to_le (prior_generation_epoch p))"
| "OwnershipRecord_body (OutboundPointer p) =
    Some (next_generation_locator_id p @ u64_to_le (cutover_epoch p))"
| "OwnershipRecord_body (RescuePolicyChoice p) =
    map_option (\<lambda>param_len. [rpc_policy_tag p] @ u32_to_le param_len @ rpc_parameter_payload p)
      (u32_try_from (length (rpc_parameter_payload p)))"
| "OwnershipRecord_body (IdentityStructure ids) =
    Some (ids_dataset_id ids @ u32_to_le (ids_structure_version ids) @
      u32_to_le (ids_dragline_id ids) @ PartitioningRule_encode (ids_partitioning_rule ids))"
| "OwnershipRecord_body (SchemaDescriptor_record schema_version descriptor_bytes) =
    Some (u32_to_le schema_version @ descriptor_bytes)"

definition OwnershipRecord_encode :: "OwnershipRecord \<Rightarrow> bytes option" where
  "OwnershipRecord_encode r = map_option (\<lambda>body. wire_tag r # body) (OwnershipRecord_body r)"

section \<open>Decoding, one definition per record kind\<close>

definition decode_ownership_claim :: "bytes \<Rightarrow> OwnershipRecord decoded" where
  "decode_ownership_claim buf =
    (if length buf < 65 + 4 then Inl (TruncatedPayload (65 + 4) (length buf))
     else
       (let label_len = unat (u32_from_le (subslice 65 69 buf)) in
        case Option.bind (checked_add 65 4) (\<lambda>l. checked_add l label_len) of
          None \<Rightarrow> Inl (ValueConstraintViolated TooLong)
        | Some total_len \<Rightarrow>
            if length buf < total_len then Inl (TruncatedPayload total_len (length buf))
            else result_bind (ok_or InvalidUtf8 (from_utf8 (subslice 69 total_len buf)))
              (\<lambda>operator_label. Inr (OwnershipClaim
                 \<lparr>claim_epoch = u64_from_le (subslice 1 9 buf),
                  claim_machine_id = subslice 9 25 buf,
                  claim_boot_id = subslice 25 41 buf,
                  claim_process_id = u64_from_le (subslice 41 49 buf),
                  claim_process_start_time_ns = u64_from_le (subslice 49 57 buf),
                  claim_time_ns = u64_from_le (subslice 57 65 buf),
                  claim_operator_label = operator_label\<rparr>, total_len))))"

definition decode_clean_release :: "bytes \<Rightarrow> OwnershipRecord decoded" where
  "decode_clean_release buf =
    (if length buf < 17 then Inl (TruncatedPayload 17 (length buf))
     else Inr (CleanRelease \<lparr>release_epoch = u64_from_le (subslice 1 9 buf),
                 release_time_ns = u64_from_le (subslice 9 17 buf)\<rparr>, 17))"

definition decode_migration_start :: "bytes \<Rightarrow> OwnershipRecord decoded" where
  "decode_migration_start buf =
    (if length buf < 18 then Inl (TruncatedPayload 18 (length buf))
     else Inr (MigrationStart \<lparr>ms_source_generation = u32_from_le (subslice 1 5 buf),
                 ms_target_generation = u32_from_le (subslice 5 9 buf),
                 ms_start_time_ns = u64_from_le (subslice 9 17 buf),
                 ms_rescue_policy_tag = buf ! 17\<rparr>, 18))"

definition decode_migration_end :: "bytes \<Rightarrow> OwnershipRecord decoded" where
  "decode_migration_end buf =
    (if length buf < 18 then Inl (TruncatedPayload 18 (length buf))
     else result_bind (MigrationStatus_from_u8 (buf ! 17))
       (\<lambda>status. Inr (MigrationEnd \<lparr>me_source_generation = u32_from_le (subslice 1 5 buf),
                 me_target_generation = u32_from_le (subslice 5 9 buf),
                 me_end_time_ns = u64_from_le (subslice 9 17 buf),
                 me_status = status\<rparr>, 18)))"

definition decode_inbound_pointer :: "bytes \<Rightarrow> OwnershipRecord decoded" where
  "decode_inbound_pointer buf =
    (if length buf < 25 then Inl (TruncatedPayload 25 (length buf))
     else Inr (InboundPointer \<lparr>prior_generation_locator_id = subslice 1 17 buf,
                 prior_generation_epoch = u64_from_le (subslice 17 25 buf)\<rparr>, 25))"

definition decode_outbound_pointer :: "bytes \<Rightarrow> OwnershipRecord decoded" where
  "decode_outbound_pointer buf =
    (if length buf < 25 then Inl (TruncatedPayload 25 (length buf))
     else Inr (OutboundPointer \<lparr>next_generation_locator_id = subslice 1 17 buf,
                 cutover_epoch = u64_from_le (subslice 17 25 buf)\<rparr>, 25))"

definition decode_rescue_policy_choice :: "bytes \<Rightarrow> OwnershipRecord decoded" where
  "decode_rescue_policy_choice buf =
    (if length buf < 6 then Inl (TruncatedPayload 6 (length buf))
     else
       (let param_len = unat (u32_from_le (subslice 2 6 buf)) in
        case checked_add 6 param_len of
          None \<Rightarrow> Inl (ValueConstraintViolated TooLong)
        | Some total_len \<Rightarrow>
            if length buf < total_len then Inl (TruncatedPayload total_len (length buf))
            else Inr (RescuePolicyChoice \<lparr>rpc_policy_tag = buf ! 1,
                        rpc_parameter_payload = subslice 6 total_len buf\<rparr>, total_len)))"

definition decode_identity_structure :: "bytes \<Rightarrow> OwnershipRecord decoded" where
  "decode_identity_structure buf =
    (if length buf < 25 then Inl (TruncatedPayload 25 (length buf))
     else result_bind (PartitioningRule_decode (drop 25 buf)) (\<lambda>(partitioning_rule, rule_consumed).
       case checked_add 25 rule_consumed of
         None \<Rightarrow> Inl (ValueConstraintViolated TooLong)
       | Some total_len \<Rightarrow>
           Inr (IdentityStructure \<lparr>ids_dataset_id = subslice 1 17 buf,
                  ids_structure_version = u32_from_le (subslice 17 21 buf),
                  ids_dragline_id = u32_from_le (subslice 21 25 buf),
                  ids_partitioning_rule = partitioning_rule\<rparr>, total_len)))"

definition decode_schema_descriptor_record :: "bytes \<Rightarrow> OwnershipRecord decoded" where
  "decode_schema_descriptor_record buf =
    (if length buf < 5 then Inl (TruncatedPayload 5 (length buf))
     else Inr (SchemaDescriptor_record (u32_from_le (subslice 1 5 buf)) (drop 5 buf), length buf))"

definition OwnershipRecord_decode :: "bytes \<Rightarrow> OwnershipRecord decoded" where
  "OwnershipRecord_decode buf =
    (if buf = [] then Inl (TruncatedPayload 1 0)
     else
       (let tag = buf ! 0 in
        if tag = 0x01 then decode_ownership_claim buf
        else if tag = 0x02 then decode_clean_release buf
        else if tag = 0x03 then decode_migration_start buf
        else if tag = 0x04 then decode_migration_end buf
        else if tag = 0x05 then decode_inbound_pointer buf
        else if tag = 0x06 then decode_outbound_pointer buf
        else if tag = 0x07 then decode_rescue_policy_choice buf
        else if tag = 0x08 then decode_identity_structure buf
        else if tag = 0x09 then decode_schema_descriptor_record buf
        else Inl (UnknownRecordTag tag)))"

definition checked_advance :: "nat \<Rightarrow> nat \<Rightarrow> nat \<Rightarrow> decode_error + nat" where
  "checked_advance cursor consumed total_len =
    result_bind (ok_or (TruncatedPayload USIZE_MAX total_len) (checked_add cursor consumed))
      (\<lambda>next_cursor. if next_cursor > total_len then Inl (TruncatedPayload next_cursor total_len)
                     else Inr next_cursor)"

section \<open>Well-formedness\<close>

fun OwnershipRecord_wf :: "OwnershipRecord \<Rightarrow> bool" where
  "OwnershipRecord_wf (OwnershipClaim c) \<longleftrightarrow> length (claim_machine_id c) = 16 \<and>
     length (claim_boot_id c) = 16 \<and> utf8_valid (claim_operator_label c) \<and>
     length (claim_operator_label c) \<le> U32_MAX"
| "OwnershipRecord_wf (InboundPointer p) \<longleftrightarrow> length (prior_generation_locator_id p) = 16"
| "OwnershipRecord_wf (OutboundPointer p) \<longleftrightarrow> length (next_generation_locator_id p) = 16"
| "OwnershipRecord_wf (RescuePolicyChoice p) \<longleftrightarrow> length (rpc_parameter_payload p) \<le> U32_MAX"
| "OwnershipRecord_wf (IdentityStructure ids) \<longleftrightarrow> length (ids_dataset_id ids) = 16"
| "OwnershipRecord_wf _ \<longleftrightarrow> True"

fun self_delimiting :: "OwnershipRecord \<Rightarrow> bool" where
  "self_delimiting (SchemaDescriptor_record _ _) = False"
| "self_delimiting _ = True"

lemma checked_advance_eq_Inr [result_simps]:
  "checked_advance c n t = Inr m \<longleftrightarrow> m = c + n \<and> c + n \<le> t \<and> c + n \<le> USIZE_MAX"
  by (auto simp: checked_advance_def result_simps split: if_splits)

section \<open>Partitioning rule codec\<close>

lemma checked_add_u32: "k \<le> 1000 \<Longrightarrow> checked_add k (unat (w :: u32)) = Some (k + unat w)"
  using unat_u32_le [of w] by (simp add: checked_add_def USIZE_bound U32_bound)

lemma PartitioningRule_decode_eq:
  "5 \<le> length buf \<Longrightarrow> PartitioningRule_decode buf =
    (let n = unat (u32_from_le (subslice 1 5 buf)) in
     if length buf < 5 + n then Inl (TruncatedPayload (5 + n) (length buf))
     else if buf ! 0 = 1 then
       (if n < 4 then Inl (TruncatedPayload 4 n)
        else Inr (StaticModulo (u32_from_le (subslice 5 9 buf)), 5 + n))
     else if buf ! 0 = 2 then
       (if n < 12 then Inl (TruncatedPayload 12 n)
        else Inr (ConsistentHash (u64_from_le (subslice 5 13 buf)) (u32_from_le (subslice 13 17 buf)), 5 + n))
     else Inl (UnknownPartitioningRuleTag (buf ! 0)))"
  by (auto simp: PartitioningRule_decode_def checked_add_u32 Let_def subslice_subslice)

interpretation partitioning_rule: codec PartitioningRule_encode PartitioningRule_decode "\<lambda>_. True"
proof
  fix r rest
  show "PartitioningRule_decode (PartitioningRule_encode r @ rest) =
      Inr (r, length (PartitioningRule_encode r))"
    by (cases r) (simp_all add: PartitioningRule_decode_eq Let_def bytes_simps)
next
  fix buf :: bytes and x n
  assume "PartitioningRule_decode buf = Inr (x, n)"
  moreover from this have "\<not> length buf < 5" by (auto simp: PartitioningRule_decode_def)
  ultimately show "True \<and> n \<le> length buf"
    by (auto simp: PartitioningRule_decode_eq Let_def split: if_splits)
qed

section \<open>Record codec\<close>

lemma MigrationStatus_roundtrip [simp]: "MigrationStatus_from_u8 (MigrationStatus_to_u8 st) = Inr st"
  by (cases st) (simp_all add: MigrationStatus_from_u8_def)

lemma MigrationStatus_from_u8_eq_Inr:
  "MigrationStatus_from_u8 v = Inr st \<longleftrightarrow> v = MigrationStatus_to_u8 st"
  by (cases st) (auto simp: MigrationStatus_from_u8_def)

lemma RescuePolicy_from_u8_eq_Inr: "RescuePolicy_from_u8 v = Inr p \<longleftrightarrow> v = RescuePolicy_to_u8 p"
  by (cases p) (auto simp: RescuePolicy_from_u8_def)

lemma OwnershipRecord_encode_total:
  "OwnershipRecord_wf r \<Longrightarrow> \<exists>bs. OwnershipRecord_encode r = Some bs"
  by (cases r) (auto simp: OwnershipRecord_encode_def u32_try_from_def)

lemma decode_ownership_claim_encode:
  assumes "OwnershipRecord_wf (OwnershipClaim c)" and "OwnershipRecord_encode (OwnershipClaim c) = Some bs"
  shows "decode_ownership_claim (bs @ rest) = Inr (OwnershipClaim c, length bs)"
proof -
  let ?l = "claim_operator_label c"
  have bs: "bs = 1 # u64_to_le (claim_epoch c) @ claim_machine_id c @ claim_boot_id c @
      u64_to_le (claim_process_id c) @ u64_to_le (claim_process_start_time_ns c) @
      u64_to_le (claim_time_ns c) @ u32_to_le (of_nat (length ?l)) @ ?l"
    using assms by (simp add: OwnershipRecord_encode_def u32_try_from_def)
  have "Option.bind (checked_add 65 4) (\<lambda>k. checked_add k (length ?l)) = Some (69 + length ?l)"
    using assms by (simp add: checked_add_def USIZE_bound U32_bound)
  then show ?thesis
    using assms by (simp add: decode_ownership_claim_def bs Let_def bytes_simps unat_of_nat_u32 from_utf8_def)
qed

lemma decode_identity_structure_encode:
  assumes "length (ids_dataset_id ids) = 16" and "OwnershipRecord_encode (IdentityStructure ids) = Some bs"
  shows "decode_identity_structure (bs @ rest) = Inr (IdentityStructure ids, length bs)"
proof -
  have bs: "bs = (8 # ids_dataset_id ids @ u32_to_le (ids_structure_version ids) @
      u32_to_le (ids_dragline_id ids)) @ PartitioningRule_encode (ids_partitioning_rule ids)"
    using assms(2) by (simp add: OwnershipRecord_encode_def)
  have "length (PartitioningRule_encode (ids_partitioning_rule ids)) \<le> 17"
    by (cases "ids_partitioning_rule ids") simp_all
  then have "checked_add 25 (length (PartitioningRule_encode (ids_partitioning_rule ids))) =
      Some (25 + length (PartitioningRule_encode (ids_partitioning_rule ids)))"
    by (simp add: checked_add_def USIZE_bound)
  then show ?thesis
    using assms(1) by (simp add: decode_identity_structure_def bs bytes_simps partitioning_rule.dec_enc)
qed

lemma decode_small_records_encode:
  "OwnershipRecord_encode (CleanRelease cr) = Some bs \<Longrightarrow>
    decode_clean_release (bs @ rest) = Inr (CleanRelease cr, length bs)"
  "OwnershipRecord_encode (MigrationStart ms) = Some bs \<Longrightarrow>
    decode_migration_start (bs @ rest) = Inr (MigrationStart ms, length bs)"
  "OwnershipRecord_encode (MigrationEnd me) = Some bs \<Longrightarrow>
    decode_migration_end (bs @ rest) = Inr (MigrationEnd me, length bs)"
  "length (prior_generation_locator_id ip) = 16 \<Longrightarrow> OwnershipRecord_encode (InboundPointer ip) = Some bs \<Longrightarrow>
    decode_inbound_pointer (bs @ rest) = Inr (InboundPointer ip, length bs)"
  "length (next_generation_locator_id op) = 16 \<Longrightarrow> OwnershipRecord_encode (OutboundPointer op) = Some bs \<Longrightarrow>
    decode_outbound_pointer (bs @ rest) = Inr (OutboundPointer op, length bs)"
  by (auto simp: OwnershipRecord_encode_def decode_clean_release_def decode_migration_start_def
      decode_migration_end_def decode_inbound_pointer_def decode_outbound_pointer_def bytes_simps)

lemma decode_rescue_policy_choice_encode:
  assumes "length (rpc_parameter_payload p) \<le> U32_MAX"
    and "OwnershipRecord_encode (RescuePolicyChoice p) = Some bs"
  shows "decode_rescue_policy_choice (bs @ rest) = Inr (RescuePolicyChoice p, length bs)"
proof -
  have bs: "bs = 7 # rpc_policy_tag p # u32_to_le (of_nat (length (rpc_parameter_payload p))) @
      rpc_parameter_payload p"
    using assms by (simp add: OwnershipRecord_encode_def u32_try_from_def)
  show ?thesis
    using assms(1) by (simp add: decode_rescue_policy_choice_def bs Let_def bytes_simps unat_of_nat_u32
        checked_add_def USIZE_bound U32_bound)
qed

lemma decode_schema_descriptor_record_encode:
  "OwnershipRecord_encode (SchemaDescriptor_record v ds) = Some bs \<Longrightarrow>
    decode_schema_descriptor_record bs = Inr (SchemaDescriptor_record v ds, length bs)"
  by (auto simp: OwnershipRecord_encode_def decode_schema_descriptor_record_def bytes_simps)

lemma OwnershipRecord_encode_tag: "OwnershipRecord_encode r = Some bs \<Longrightarrow> bs \<noteq> [] \<and> (bs @ xs) ! 0 = wire_tag r"
  by (auto simp: OwnershipRecord_encode_def)

lemma ownership_record_decode_encode:
  assumes "OwnershipRecord_wf r" and "self_delimiting r \<or> rest = []"
  shows "\<exists>bs. OwnershipRecord_encode r = Some bs \<and>
    OwnershipRecord_decode (bs @ rest) = Inr (r, length bs)"
proof -
  obtain bs where bs: "OwnershipRecord_encode r = Some bs"
    using OwnershipRecord_encode_total [OF assms(1)] by blast
  have tag: "bs @ rest \<noteq> []" "(bs @ rest) ! 0 = wire_tag r"
    using OwnershipRecord_encode_tag [OF bs] by auto
  have "OwnershipRecord_decode (bs @ rest) = Inr (r, length bs)"
    using assms bs tag
    by (cases r) (simp_all add: OwnershipRecord_decode_def Let_def decode_ownership_claim_encode
        decode_identity_structure_encode decode_small_records_encode decode_rescue_policy_choice_encode
        decode_schema_descriptor_record_encode)
  with bs show ?thesis by blast
qed

text \<open>Decoding an encoded ownership record of any of the nine kinds, followed by anything,
  gives the record back and consumes exactly its bytes; the schema-descriptor kind takes the whole
  buffer, so for it nothing may follow. The encoder does not panic on a well-formed record.\<close>

lemma ownership_record_roundtrip:
  assumes "OwnershipRecord_wf r" and "self_delimiting r \<or> rest = []"
  shows "\<exists>bs. OwnershipRecord_encode r = Some bs \<and>
    OwnershipRecord_decode (bs @ rest) = Inr (r, length bs)"
  using assms by (rule ownership_record_decode_encode)

section \<open>Soundness and canonicity\<close>

lemma decode_ownership_claim_eq_Inr:
  "decode_ownership_claim buf = Inr (r, n) \<longleftrightarrow>
    (let len = unat (u32_from_le (subslice 65 69 buf)) in
     69 \<le> length buf \<and> 69 + len \<le> length buf \<and> n = 69 + len \<and> utf8_valid (subslice 69 (69 + len) buf) \<and>
     r = OwnershipClaim
       \<lparr>claim_epoch = u64_from_le (subslice 1 9 buf), claim_machine_id = subslice 9 25 buf,
        claim_boot_id = subslice 25 41 buf, claim_process_id = u64_from_le (subslice 41 49 buf),
        claim_process_start_time_ns = u64_from_le (subslice 49 57 buf),
        claim_time_ns = u64_from_le (subslice 57 65 buf),
        claim_operator_label = subslice 69 (69 + len) buf\<rparr>)"
proof -
  have "Option.bind (checked_add 65 4) (\<lambda>k. checked_add k (unat (u32_from_le (subslice 65 69 buf)))) =
      Some (69 + unat (u32_from_le (subslice 65 69 buf)))"
    using checked_add_u32 [of 69] by (simp add: checked_add_def USIZE_bound)
  then show ?thesis
    by (auto simp: decode_ownership_claim_def Let_def result_simps)
qed

lemma decode_ownership_claim_canonical:
  assumes "decode_ownership_claim buf = Inr (r, n)" and "buf ! 0 = 1"
  shows "OwnershipRecord_wf r \<and> n \<le> length buf \<and> OwnershipRecord_encode r = Some (take n buf)"
proof -
  let ?len = "unat (u32_from_le (subslice 65 69 buf))"
  have d: "69 \<le> length buf" "69 + ?len \<le> length buf" "n = 69 + ?len"
    "utf8_valid (subslice 69 (69 + ?len) buf)"
    "r = OwnershipClaim
       \<lparr>claim_epoch = u64_from_le (subslice 1 9 buf), claim_machine_id = subslice 9 25 buf,
        claim_boot_id = subslice 25 41 buf, claim_process_id = u64_from_le (subslice 41 49 buf),
        claim_process_start_time_ns = u64_from_le (subslice 49 57 buf),
        claim_time_ns = u64_from_le (subslice 57 65 buf),
        claim_operator_label = subslice 69 (69 + ?len) buf\<rparr>"
    using assms(1) by (auto simp: decode_ownership_claim_eq_Inr Let_def)
  have len: "?len \<le> U32_MAX" by (rule unat_u32_le)
  have first: "take n buf = buf ! 0 # subslice 1 n buf"
    by (rule take_Cons_subslice) (use d in auto)
  have "subslice 1 n buf = subslice 1 9 buf @ subslice 9 25 buf @ subslice 25 41 buf @
      subslice 41 49 buf @ subslice 49 57 buf @ subslice 57 65 buf @ subslice 65 69 buf @
      subslice 69 (69 + ?len) buf"
    using d(1-3) by (simp add: glue_simps)
  then show ?thesis
    using d(1-4) len assms(2) first
    by (simp add: d(5) OwnershipRecord_encode_def u32_try_from_def u64_to_from_le u32_to_from_le)
qed

lemma decode_small_records_canonical:
  "decode_clean_release buf = Inr (r, n) \<Longrightarrow> buf ! 0 = 2 \<Longrightarrow>
    OwnershipRecord_wf r \<and> n \<le> length buf \<and> OwnershipRecord_encode r = Some (take n buf)"
  "decode_migration_start buf = Inr (r, n) \<Longrightarrow> buf ! 0 = 3 \<Longrightarrow>
    OwnershipRecord_wf r \<and> n \<le> length buf \<and> OwnershipRecord_encode r = Some (take n buf)"
  "decode_inbound_pointer buf = Inr (r, n) \<Longrightarrow> buf ! 0 = 5 \<Longrightarrow>
    OwnershipRecord_wf r \<and> n \<le> length buf \<and> OwnershipRecord_encode r = Some (take n buf)"
  "decode_outbound_pointer buf = Inr (r, n) \<Longrightarrow> buf ! 0 = 6 \<Longrightarrow>
    OwnershipRecord_wf r \<and> n \<le> length buf \<and> OwnershipRecord_encode r = Some (take n buf)"
  by (auto simp: OwnershipRecord_encode_def decode_clean_release_def decode_migration_start_def
      decode_inbound_pointer_def decode_outbound_pointer_def take_Cons_subslice
      subslice_Suc [of 1 17, simplified] u64_to_from_le u32_to_from_le glue_simps(1,2)
      simp del: length_0_conv split: if_splits)

lemma decode_migration_end_canonical:
  assumes "decode_migration_end buf = Inr (r, n)" and "buf ! 0 = 4"
  shows "OwnershipRecord_wf r \<and> n \<le> length buf \<and> OwnershipRecord_encode r = Some (take n buf)"
proof -
  from assms(1) obtain st where d: "18 \<le> length buf" "n = 18" "buf ! 17 = MigrationStatus_to_u8 st"
    and r: "r = MigrationEnd \<lparr>me_source_generation = u32_from_le (subslice 1 5 buf),
        me_target_generation = u32_from_le (subslice 5 9 buf),
        me_end_time_ns = u64_from_le (subslice 9 17 buf), me_status = st\<rparr>"
    by (auto simp: decode_migration_end_def result_simps MigrationStatus_from_u8_eq_Inr split: if_splits)
  have "take n buf = buf ! 0 # subslice 1 18 buf"
    using d(1,2) take_Cons_subslice [of 18 buf] by simp
  moreover have "subslice 1 18 buf = subslice 1 5 buf @ subslice 5 9 buf @ subslice 9 17 buf @ [buf ! 17]"
    using d(1) subslice_Suc [of 1 17 buf] by (simp add: glue_simps)
  ultimately show ?thesis
    using d assms(2) by (simp add: r OwnershipRecord_encode_def u32_to_from_le u64_to_from_le)
qed

lemma decode_rescue_policy_choice_canonical:
  assumes "decode_rescue_policy_choice buf = Inr (r, n)" and "buf ! 0 = 7"
  shows "OwnershipRecord_wf r \<and> n \<le> length buf \<and> OwnershipRecord_encode r = Some (take n buf)"
proof -
  let ?len = "unat (u32_from_le (subslice 2 6 buf))"
  from assms(1) have d: "6 \<le> length buf" "6 + ?len \<le> length buf" "n = 6 + ?len"
    and r: "r = RescuePolicyChoice \<lparr>rpc_policy_tag = buf ! 1, rpc_parameter_payload = subslice 6 n buf\<rparr>"
    by (auto simp: decode_rescue_policy_choice_def Let_def checked_add_u32 split: if_splits)
  have len: "?len \<le> U32_MAX" by (rule unat_u32_le)
  have "take n buf = buf ! 0 # subslice 1 n buf"
    using d take_Cons_subslice [of n buf] by simp
  moreover have "subslice 1 n buf = buf ! 1 # subslice 2 6 buf @ subslice 6 n buf"
    using d by (simp add: glue_simps)
  ultimately show ?thesis
    using d(1,2) len assms(2) d(3)
    by (simp add: r OwnershipRecord_encode_def u32_try_from_def u32_to_from_le)
qed

lemma decode_identity_structure_sound:
  assumes "decode_identity_structure buf = Inr (r, n)"
  shows "OwnershipRecord_wf r \<and> n \<le> length buf \<and> (\<exists>ids. r = IdentityStructure ids)"
proof -
  from assms obtain rule k where d: "25 \<le> length buf" "PartitioningRule_decode (drop 25 buf) = Inr (rule, k)"
    "n = 25 + k" and r: "r = IdentityStructure \<lparr>ids_dataset_id = subslice 1 17 buf,
        ids_structure_version = u32_from_le (subslice 17 21 buf),
        ids_dragline_id = u32_from_le (subslice 21 25 buf), ids_partitioning_rule = rule\<rparr>"
    by (auto simp: decode_identity_structure_def result_simps split: if_splits option.splits)
  have "k \<le> length (drop 25 buf)" by (rule partitioning_rule.dec_consumed_le [OF d(2)])
  with d show ?thesis by (simp add: r)
qed

lemma decode_schema_descriptor_record_canonical:
  assumes "decode_schema_descriptor_record buf = Inr (r, n)" and "buf ! 0 = 9"
  shows "OwnershipRecord_wf r \<and> n \<le> length buf \<and> OwnershipRecord_encode r = Some (take n buf)"
proof -
  from assms(1) have d: "5 \<le> length buf" "n = length buf"
    and r: "r = SchemaDescriptor_record (u32_from_le (subslice 1 5 buf)) (drop 5 buf)"
    by (auto simp: decode_schema_descriptor_record_def split: if_splits)
  have "take n buf = buf ! 0 # subslice 1 n buf"
    by (rule take_Cons_subslice) (use d in auto)
  moreover have "subslice 1 n buf = subslice 1 5 buf @ drop 5 buf"
    using d subslice_join [of 1 5 n buf] by (simp add: subslice_def)
  ultimately show ?thesis
    using d assms(2) by (simp add: r OwnershipRecord_encode_def u32_to_from_le)
qed

text \<open>Every record the decoder returns is well formed and lies inside the buffer, and (identity
  structure records apart, whose partitioning rule admits surplus parameter bytes) its encoding is
  exactly the bytes consumed: each of the other eight kinds has one wire form.\<close>

lemma ownership_record_decode_canonical:
  assumes "OwnershipRecord_decode buf = Inr (r, n)"
  shows "OwnershipRecord_wf r \<and> n \<le> length buf \<and>
    ((\<exists>ids. r = IdentityStructure ids) \<or> OwnershipRecord_encode r = Some (take n buf))"
proof -
  consider "buf ! 0 = 1" "decode_ownership_claim buf = Inr (r, n)"
    | "buf ! 0 = 2" "decode_clean_release buf = Inr (r, n)"
    | "buf ! 0 = 3" "decode_migration_start buf = Inr (r, n)"
    | "buf ! 0 = 4" "decode_migration_end buf = Inr (r, n)"
    | "buf ! 0 = 5" "decode_inbound_pointer buf = Inr (r, n)"
    | "buf ! 0 = 6" "decode_outbound_pointer buf = Inr (r, n)"
    | "buf ! 0 = 7" "decode_rescue_policy_choice buf = Inr (r, n)"
    | "buf ! 0 = 8" "decode_identity_structure buf = Inr (r, n)"
    | "buf ! 0 = 9" "decode_schema_descriptor_record buf = Inr (r, n)"
    using assms by (auto simp: OwnershipRecord_decode_def Let_def split: if_splits)
  then show ?thesis
    by cases (simp_all add: decode_ownership_claim_canonical decode_small_records_canonical
        decode_migration_end_canonical decode_rescue_policy_choice_canonical
        decode_identity_structure_sound decode_schema_descriptor_record_canonical)
qed

text \<open>The exception is real: a rule whose declared parameter block is longer than its parameters
  decodes, so an identity structure has more than one accepted wire form.\<close>

lemma partitioning_rule_surplus_accepted:
  "PartitioningRule_decode [1, 6, 0, 0, 0, 7, 0, 0, 0, 99, 98] = Inr (StaticModulo 7, 11) \<and>
   PartitioningRule_encode (StaticModulo 7) = [1, 4, 0, 0, 0, 7, 0, 0, 0]"
  by (simp add: PartitioningRule_decode_eq subslice_def u32_from_le_def u32_to_le_def)

end
