(* ===== verification/Descriptor.thy ===== *)
theory Descriptor
  imports Ownership_Records
begin

text \<open>
  The descriptor language of \<open>schema.rs\<close>: \<open>DescriptorNode\<close> with its binary encoder, the
  length calculation \<open>encoded_len\<close>, the recursive decoder and the structural validation. The
  constructors carry the prefix \<open>D_\<close>. The loops over fields and variants inside the three
  recursive functions are mutually recursive functions here; the decoder's run on a cursor into
  the buffer, like the code's. The decoder's termination rests on its depth limit.
\<close>

definition MAX_DESCRIPTOR_DEPTH :: nat where "MAX_DESCRIPTOR_DEPTH = 16"

datatype DescriptorNode =
    D_U8 | D_U16 | D_U32 | D_U64 | D_I8 | D_I16 | D_I32 | D_I64 | D_Bool
  | D_EventString u32
  | D_NonEmptyEventString u32
  | D_EventBytes u32
  | D_EventVec DescriptorNode u32
  | D_Option DescriptorNode
  | D_Struct bytes "FieldDescriptor list"
  | D_Enum bytes byte "VariantDescriptor list"
  | D_Timestamp | D_Uuid | D_OrderedF32 | D_OrderedF64
and FieldDescriptor = FieldDescriptor bytes DescriptorNode
and VariantDescriptor = VariantDescriptor u32 bytes "DescriptorNode option"

fun constructor_tag :: "DescriptorNode \<Rightarrow> byte" where
  "constructor_tag D_U8 = 0x01"
| "constructor_tag D_U16 = 0x02"
| "constructor_tag D_U32 = 0x03"
| "constructor_tag D_U64 = 0x04"
| "constructor_tag D_I8 = 0x05"
| "constructor_tag D_I16 = 0x06"
| "constructor_tag D_I32 = 0x07"
| "constructor_tag D_I64 = 0x08"
| "constructor_tag D_Bool = 0x09"
| "constructor_tag (D_EventString _) = 0x0A"
| "constructor_tag (D_NonEmptyEventString _) = 0x0B"
| "constructor_tag (D_EventBytes _) = 0x0C"
| "constructor_tag (D_EventVec _ _) = 0x0D"
| "constructor_tag (D_Option _) = 0x0E"
| "constructor_tag (D_Struct _ _) = 0x0F"
| "constructor_tag (D_Enum _ _ _) = 0x10"
| "constructor_tag D_Timestamp = 0x11"
| "constructor_tag D_Uuid = 0x12"
| "constructor_tag D_OrderedF32 = 0x13"
| "constructor_tag D_OrderedF64 = 0x14"

section \<open>Encoder\<close>

definition at_depth :: "nat \<Rightarrow> encode_error + 'a \<Rightarrow> encode_error + 'a" where
  "at_depth depth r =
    (if depth > MAX_DESCRIPTOR_DEPTH then Inl (DepthExceeded depth MAX_DESCRIPTOR_DEPTH) else r)"

definition encode_count :: "nat \<Rightarrow> encode_error + bytes" where
  "encode_count n = map_err (\<lambda>_. Custom_enc ''length exceeds u32::MAX'')
    (result_bind (ok_or () (u32_try_from n)) (\<lambda>w. Inr (u32_to_le w)))"

definition encode_name :: "bytes \<Rightarrow> encode_error + bytes" where
  "encode_name nm = result_bind (encode_count (length nm)) (\<lambda>l. Inr (l @ nm))"

definition encode_discriminant :: "byte \<Rightarrow> u32 \<Rightarrow> encode_error + bytes" where
  "encode_discriminant discriminant_width d =
    (if discriminant_width = 1 then
       (if d > 255 then Inl (Custom_enc ''discriminant exceeds 1-byte width'') else Inr [ucast d])
     else
       (if d > 65535 then Inl (Custom_enc ''discriminant exceeds 2-byte width'')
        else Inr (u16_to_le (ucast d))))"

fun encode_recursive :: "DescriptorNode \<Rightarrow> nat \<Rightarrow> encode_error + bytes"
and encode_fields :: "FieldDescriptor list \<Rightarrow> nat \<Rightarrow> encode_error + bytes"
and encode_variants :: "byte \<Rightarrow> VariantDescriptor list \<Rightarrow> nat \<Rightarrow> encode_error + bytes"
where
  "encode_recursive D_U8 depth = at_depth depth (Inr [constructor_tag D_U8])"
| "encode_recursive D_U16 depth = at_depth depth (Inr [constructor_tag D_U16])"
| "encode_recursive D_U32 depth = at_depth depth (Inr [constructor_tag D_U32])"
| "encode_recursive D_U64 depth = at_depth depth (Inr [constructor_tag D_U64])"
| "encode_recursive D_I8 depth = at_depth depth (Inr [constructor_tag D_I8])"
| "encode_recursive D_I16 depth = at_depth depth (Inr [constructor_tag D_I16])"
| "encode_recursive D_I32 depth = at_depth depth (Inr [constructor_tag D_I32])"
| "encode_recursive D_I64 depth = at_depth depth (Inr [constructor_tag D_I64])"
| "encode_recursive D_Bool depth = at_depth depth (Inr [constructor_tag D_Bool])"
| "encode_recursive D_Timestamp depth = at_depth depth (Inr [constructor_tag D_Timestamp])"
| "encode_recursive D_Uuid depth = at_depth depth (Inr [constructor_tag D_Uuid])"
| "encode_recursive D_OrderedF32 depth = at_depth depth (Inr [constructor_tag D_OrderedF32])"
| "encode_recursive D_OrderedF64 depth = at_depth depth (Inr [constructor_tag D_OrderedF64])"
| "encode_recursive (D_EventString max_bytes) depth =
    at_depth depth (Inr (constructor_tag (D_EventString max_bytes) # u32_to_le max_bytes))"
| "encode_recursive (D_NonEmptyEventString max_bytes) depth =
    at_depth depth (Inr (constructor_tag (D_NonEmptyEventString max_bytes) # u32_to_le max_bytes))"
| "encode_recursive (D_EventBytes max_bytes) depth =
    at_depth depth (Inr (constructor_tag (D_EventBytes max_bytes) # u32_to_le max_bytes))"
| "encode_recursive (D_EventVec inner max_items) depth =
    at_depth depth (result_bind (encode_recursive inner (depth + 1)) (\<lambda>b.
      Inr (constructor_tag (D_EventVec inner max_items) # b @ u32_to_le max_items)))"
| "encode_recursive (D_Option inner) depth =
    at_depth depth (result_bind (encode_recursive inner (depth + 1)) (\<lambda>b.
      Inr (constructor_tag (D_Option inner) # b)))"
| "encode_recursive (D_Struct nm fds) depth =
    at_depth depth (result_bind (encode_name nm) (\<lambda>nb.
      result_bind (encode_count (length fds)) (\<lambda>cb.
      result_bind (encode_fields fds depth) (\<lambda>fb.
        Inr (constructor_tag (D_Struct nm fds) # nb @ cb @ fb)))))"
| "encode_recursive (D_Enum nm discriminant_width variants) depth =
    at_depth depth (result_bind (encode_name nm) (\<lambda>nb.
      result_bind (encode_count (length variants)) (\<lambda>cb.
      result_bind (encode_variants discriminant_width variants depth) (\<lambda>vb.
        Inr (constructor_tag (D_Enum nm discriminant_width variants) # nb @ [discriminant_width] @ cb @ vb)))))"
| "encode_fields [] depth = Inr []"
| "encode_fields (FieldDescriptor nm node # fs) depth =
    result_bind (encode_name nm) (\<lambda>nb.
      result_bind (encode_recursive node (depth + 1)) (\<lambda>b.
      result_bind (encode_fields fs depth) (\<lambda>fb. Inr (nb @ b @ fb))))"
| "encode_variants w [] depth = Inr []"
| "encode_variants w (VariantDescriptor d nm None # vs) depth =
    result_bind (encode_discriminant w d) (\<lambda>db.
      result_bind (encode_name nm) (\<lambda>nb.
      result_bind (encode_variants w vs depth) (\<lambda>vb. Inr (db @ nb @ [0x00] @ vb))))"
| "encode_variants w (VariantDescriptor d nm (Some pl) # vs) depth =
    result_bind (encode_discriminant w d) (\<lambda>db.
      result_bind (encode_name nm) (\<lambda>nb.
      result_bind (encode_recursive pl (depth + 1)) (\<lambda>b.
      result_bind (encode_variants w vs depth) (\<lambda>vb. Inr (db @ nb @ b @ vb)))))"

definition DescriptorNode_encode :: "DescriptorNode \<Rightarrow> encode_error + bytes" where
  "DescriptorNode_encode d = encode_recursive d 0"

section \<open>Length calculation\<close>

text \<open>A chain of \<open>checked_add\<close> with its error; \<open>len_u32\<close> is a length behind \<open>u32::try_from\<close>.\<close>

fun len_sum :: "nat \<Rightarrow> nat list \<Rightarrow> encode_error + nat" where
  "len_sum tot [] = Inr tot"
| "len_sum tot (n # ns) =
    (case checked_add tot n of
       None \<Rightarrow> Inl (Custom_enc ''length overflow'')
     | Some t \<Rightarrow> len_sum t ns)"

definition len_u32 :: "nat \<Rightarrow> encode_error + nat" where
  "len_u32 n = (case u32_try_from n of
     None \<Rightarrow> Inl (Custom_enc ''length exceeds u32::MAX'') | Some w \<Rightarrow> Inr (unat w))"

definition disc_len :: "byte \<Rightarrow> u32 \<Rightarrow> encode_error + nat" where
  "disc_len discriminant_width d =
    (if discriminant_width = 1 then
       (if d > 255 then Inl (Custom_enc ''discriminant exceeds 1-byte width'') else Inr 1)
     else
       (if d > 65535 then Inl (Custom_enc ''discriminant exceeds 2-byte width'') else Inr 2))"

fun encoded_len_recursive :: "DescriptorNode \<Rightarrow> nat \<Rightarrow> encode_error + nat"
and encoded_len_fields :: "FieldDescriptor list \<Rightarrow> nat \<Rightarrow> nat \<Rightarrow> encode_error + nat"
and encoded_len_variants :: "byte \<Rightarrow> VariantDescriptor list \<Rightarrow> nat \<Rightarrow> nat \<Rightarrow> encode_error + nat"
where
  "encoded_len_recursive D_U8 depth = at_depth depth (Inr 1)"
| "encoded_len_recursive D_U16 depth = at_depth depth (Inr 1)"
| "encoded_len_recursive D_U32 depth = at_depth depth (Inr 1)"
| "encoded_len_recursive D_U64 depth = at_depth depth (Inr 1)"
| "encoded_len_recursive D_I8 depth = at_depth depth (Inr 1)"
| "encoded_len_recursive D_I16 depth = at_depth depth (Inr 1)"
| "encoded_len_recursive D_I32 depth = at_depth depth (Inr 1)"
| "encoded_len_recursive D_I64 depth = at_depth depth (Inr 1)"
| "encoded_len_recursive D_Bool depth = at_depth depth (Inr 1)"
| "encoded_len_recursive D_Timestamp depth = at_depth depth (Inr 1)"
| "encoded_len_recursive D_Uuid depth = at_depth depth (Inr 1)"
| "encoded_len_recursive D_OrderedF32 depth = at_depth depth (Inr 1)"
| "encoded_len_recursive D_OrderedF64 depth = at_depth depth (Inr 1)"
| "encoded_len_recursive (D_EventString max_bytes) depth = at_depth depth (len_sum 1 [4])"
| "encoded_len_recursive (D_NonEmptyEventString max_bytes) depth = at_depth depth (len_sum 1 [4])"
| "encoded_len_recursive (D_EventBytes max_bytes) depth = at_depth depth (len_sum 1 [4])"
| "encoded_len_recursive (D_EventVec inner max_items) depth =
    at_depth depth (result_bind (encoded_len_recursive inner (depth + 1)) (\<lambda>n. len_sum 1 [n, 4]))"
| "encoded_len_recursive (D_Option inner) depth =
    at_depth depth (result_bind (encoded_len_recursive inner (depth + 1)) (\<lambda>n. len_sum 1 [n]))"
| "encoded_len_recursive (D_Struct nm fds) depth =
    at_depth depth (result_bind (len_u32 (length nm)) (\<lambda>name_len.
      result_bind (len_sum 1 [4, name_len, 4]) (\<lambda>tot.
      result_bind (len_u32 (length fds)) (\<lambda>_.
        encoded_len_fields fds depth tot))))"
| "encoded_len_recursive (D_Enum nm discriminant_width variants) depth =
    at_depth depth (result_bind (len_u32 (length nm)) (\<lambda>name_len.
      result_bind (len_sum 1 [4, name_len, 1, 4]) (\<lambda>tot.
      result_bind (len_u32 (length variants)) (\<lambda>_.
        encoded_len_variants discriminant_width variants depth tot))))"
| "encoded_len_fields [] depth tot = Inr tot"
| "encoded_len_fields (FieldDescriptor nm node # fs) depth tot =
    result_bind (len_u32 (length nm)) (\<lambda>fname_len.
      result_bind (encoded_len_recursive node (depth + 1)) (\<lambda>fnode_len.
      result_bind (len_sum tot [4, fname_len, fnode_len]) (\<lambda>t.
        encoded_len_fields fs depth t)))"
| "encoded_len_variants w [] depth tot = Inr tot"
| "encoded_len_variants w (VariantDescriptor d nm None # vs) depth tot =
    result_bind (disc_len w d) (\<lambda>dl.
      result_bind (len_u32 (length nm)) (\<lambda>vname_len.
      result_bind (len_sum tot [dl, 4, vname_len, 1]) (\<lambda>t.
        encoded_len_variants w vs depth t)))"
| "encoded_len_variants w (VariantDescriptor d nm (Some pl) # vs) depth tot =
    result_bind (disc_len w d) (\<lambda>dl.
      result_bind (len_u32 (length nm)) (\<lambda>vname_len.
      result_bind (encoded_len_recursive pl (depth + 1)) (\<lambda>payload_len.
      result_bind (len_sum tot [dl, 4, vname_len, payload_len]) (\<lambda>t.
        encoded_len_variants w vs depth t))))"

definition encoded_len :: "DescriptorNode \<Rightarrow> encode_error + nat" where
  "encoded_len d = encoded_len_recursive d 0"

section \<open>Decoder\<close>

text \<open>A length-prefixed UTF-8 name at the cursor, and a four-byte count at the cursor.\<close>

definition decode_count :: "bytes \<Rightarrow> nat \<Rightarrow> decode_error + nat \<times> nat" where
  "decode_count buf cursor =
    (if length buf < cursor + 4 then Inl (TruncatedPayload (cursor + 4) (length buf))
     else Inr (unat (u32_from_le (subslice cursor (cursor + 4) buf)), cursor + 4))"

definition decode_name :: "bytes \<Rightarrow> nat \<Rightarrow> decode_error + bytes \<times> nat" where
  "decode_name buf cursor =
    result_bind (decode_count buf cursor) (\<lambda>(name_len, c).
      if length buf < c + name_len then Inl (TruncatedPayload (c + name_len) (length buf))
      else result_bind (ok_or InvalidUtf8 (from_utf8 (subslice c (c + name_len) buf)))
        (\<lambda>nm. Inr (nm, c + name_len)))"

definition decode_bound :: "bytes \<Rightarrow> decode_error + u32" where
  "decode_bound buf =
    (if length buf < 5 then Inl (TruncatedPayload 5 (length buf))
     else Inr (u32_from_le (subslice 1 5 buf)))"

definition decode_discriminant :: "byte \<Rightarrow> bytes \<Rightarrow> nat \<Rightarrow> decode_error + u32 \<times> nat" where
  "decode_discriminant discriminant_width buf cursor =
    (if length buf < cursor + unat discriminant_width
     then Inl (TruncatedPayload (cursor + unat discriminant_width) (length buf))
     else if discriminant_width = 1 then Inr (ucast (buf ! cursor), cursor + 1)
     else Inr (ucast (u16_from_le (subslice cursor (cursor + 2) buf)), cursor + 2))"

definition decode_count_within :: "nat \<Rightarrow> bytes \<Rightarrow> nat \<Rightarrow> decode_error + nat \<times> nat" where
  "decode_count_within min_bytes_each buf cursor =
    result_bind (decode_count buf cursor) (\<lambda>(n, c).
      let remaining = length buf - c in
      if remaining div min_bytes_each < n
      then Inl (TruncatedPayload (saturating_add c (saturating_mul n min_bytes_each)) (length buf))
      else Inr (n, c))"

definition decode_width :: "bytes \<Rightarrow> nat \<Rightarrow> decode_error + byte \<times> nat" where
  "decode_width buf cursor =
    (if length buf < cursor + 1 then Inl (TruncatedPayload (cursor + 1) (length buf))
     else if buf ! cursor \<noteq> 1 \<and> buf ! cursor \<noteq> 2 then Inl (InvalidDiscriminantWidth (buf ! cursor))
     else Inr (buf ! cursor, cursor + 1))"

function (sequential) decode_recursive :: "bytes \<Rightarrow> nat \<Rightarrow> DescriptorNode decoded"
and decode_fields :: "nat \<Rightarrow> bytes \<Rightarrow> nat \<Rightarrow> nat \<Rightarrow> FieldDescriptor list decoded"
and decode_variants :: "nat \<Rightarrow> byte \<Rightarrow> bytes \<Rightarrow> nat \<Rightarrow> nat \<Rightarrow> VariantDescriptor list decoded"
where
  "decode_recursive buf depth =
    (if depth > MAX_DESCRIPTOR_DEPTH then Inl (CycleDetected ''maximum recursion depth exceeded'')
     else if buf = [] then Inl (TruncatedPayload 1 0)
     else if buf ! 0 = 0x01 then Inr (D_U8, 1)
     else if buf ! 0 = 0x02 then Inr (D_U16, 1)
     else if buf ! 0 = 0x03 then Inr (D_U32, 1)
     else if buf ! 0 = 0x04 then Inr (D_U64, 1)
     else if buf ! 0 = 0x05 then Inr (D_I8, 1)
     else if buf ! 0 = 0x06 then Inr (D_I16, 1)
     else if buf ! 0 = 0x07 then Inr (D_I32, 1)
     else if buf ! 0 = 0x08 then Inr (D_I64, 1)
     else if buf ! 0 = 0x09 then Inr (D_Bool, 1)
     else if buf ! 0 = 0x0A then result_bind (decode_bound buf) (\<lambda>m. Inr (D_EventString m, 5))
     else if buf ! 0 = 0x0B then result_bind (decode_bound buf) (\<lambda>m. Inr (D_NonEmptyEventString m, 5))
     else if buf ! 0 = 0x0C then result_bind (decode_bound buf) (\<lambda>m. Inr (D_EventBytes m, 5))
     else if buf ! 0 = 0x0D then
       result_bind (decode_recursive (drop 1 buf) (depth + 1)) (\<lambda>(inner, consumed).
         if length buf < 1 + consumed + 4 then Inl (TruncatedPayload (1 + consumed + 4) (length buf))
         else Inr (D_EventVec inner (u32_from_le (subslice (1 + consumed) (1 + consumed + 4) buf)),
                   1 + consumed + 4))
     else if buf ! 0 = 0x0E then
       result_bind (decode_recursive (drop 1 buf) (depth + 1)) (\<lambda>(inner, consumed).
         Inr (D_Option inner, 1 + consumed))
     else if buf ! 0 = 0x0F then
       result_bind (decode_name buf 1) (\<lambda>(nm, c).
       result_bind (decode_count_within 5 buf c) (\<lambda>(field_count, c).
       result_bind (decode_fields field_count buf c depth) (\<lambda>(fds, c).
         Inr (D_Struct nm fds, c))))
     else if buf ! 0 = 0x10 then
       result_bind (decode_name buf 1) (\<lambda>(nm, c).
       result_bind (decode_width buf c) (\<lambda>(w, c).
       result_bind (decode_count_within (unat w + 5) buf c) (\<lambda>(variant_count, c).
       result_bind (decode_variants variant_count w buf c depth) (\<lambda>(variants, c).
         Inr (D_Enum nm w variants, c)))))
     else if buf ! 0 = 0x11 then Inr (D_Timestamp, 1)
     else if buf ! 0 = 0x12 then Inr (D_Uuid, 1)
     else if buf ! 0 = 0x13 then Inr (D_OrderedF32, 1)
     else if buf ! 0 = 0x14 then Inr (D_OrderedF64, 1)
     else Inl (UnknownConstructorTag (buf ! 0)))"
| "decode_fields 0 buf cursor depth = Inr ([], cursor)"
| "decode_fields (Suc n) buf cursor depth =
    result_bind (decode_name buf cursor) (\<lambda>(fname, c).
    result_bind (decode_recursive (drop c buf) (depth + 1)) (\<lambda>(fnode, fconsumed).
    result_bind (decode_fields n buf (c + fconsumed) depth) (\<lambda>(fs, c).
      Inr (FieldDescriptor fname fnode # fs, c))))"
| "decode_variants 0 w buf cursor depth = Inr ([], cursor)"
| "decode_variants (Suc n) w buf cursor depth =
    result_bind (decode_discriminant w buf cursor) (\<lambda>(discriminant, c).
    result_bind (decode_name buf c) (\<lambda>(vname, c).
    if length buf < c + 1 then Inl (TruncatedPayload (c + 1) (length buf))
    else if buf ! c = 0x00 then
      result_bind (decode_variants n w buf (c + 1) depth) (\<lambda>(vs, c).
        Inr (VariantDescriptor discriminant vname None # vs, c))
    else
      result_bind (decode_recursive (drop c buf) (depth + 1)) (\<lambda>(pnode, pconsumed).
      result_bind (decode_variants n w buf (c + pconsumed) depth) (\<lambda>(vs, c).
        Inr (VariantDescriptor discriminant vname (Some pnode) # vs, c)))))"
  by pat_completeness auto

text \<open>A node at depth \<open>d\<close> weighs \<open>2 * (17 - d)\<close>, its loops one less, so each call down a level
  loses weight; the loops count down.\<close>

termination
  by (relation "measures
      [\<lambda>x. case x of Inl (_, d) \<Rightarrow> 2 * (17 - d)
         | Inr (Inl (_, _, _, d)) \<Rightarrow> 2 * (17 - d) - 1
         | Inr (Inr (_, _, _, _, d)) \<Rightarrow> 2 * (17 - d) - 1,
       \<lambda>x. case x of Inl _ \<Rightarrow> 0 | Inr (Inl (n, _, _, _)) \<Rightarrow> Suc n | Inr (Inr (n, _, _, _, _)) \<Rightarrow> Suc n]")
    (auto simp: MAX_DESCRIPTOR_DEPTH_def)

definition DescriptorNode_decode :: "bytes \<Rightarrow> DescriptorNode decoded" where
  "DescriptorNode_decode buf = decode_recursive buf 0"

section \<open>Structural validation\<close>

definition validate_at :: "nat \<Rightarrow> unit operation \<Rightarrow> unit operation" where
  "validate_at depth r =
    (if depth > MAX_DESCRIPTOR_DEPTH then Inl (ValueConstraintViolated_fc TooLong) else r)"

definition validate_variant_head :: "byte \<Rightarrow> u32 list \<Rightarrow> u32 \<Rightarrow> bytes \<Rightarrow> unit operation" where
  "validate_variant_head w seen d nm =
    (if nm = [] then Inl (ValueConstraintViolated_fc Empty)
     else if w = 1 \<and> d > 255 then Inl (ValueConstraintViolated_fc TooLong)
     else if w = 2 \<and> d > 65535 then Inl (ValueConstraintViolated_fc TooLong)
     else if d \<in> set seen then Inl (ValueConstraintViolated_fc NotReal)
     else Inr ())"

fun validate_recursive :: "DescriptorNode \<Rightarrow> nat \<Rightarrow> unit operation"
and validate_fields :: "FieldDescriptor list \<Rightarrow> nat \<Rightarrow> unit operation"
and validate_variants :: "byte \<Rightarrow> u32 list \<Rightarrow> VariantDescriptor list \<Rightarrow> nat \<Rightarrow> unit operation"
where
  "validate_recursive D_U8 depth = validate_at depth (Inr ())"
| "validate_recursive D_U16 depth = validate_at depth (Inr ())"
| "validate_recursive D_U32 depth = validate_at depth (Inr ())"
| "validate_recursive D_U64 depth = validate_at depth (Inr ())"
| "validate_recursive D_I8 depth = validate_at depth (Inr ())"
| "validate_recursive D_I16 depth = validate_at depth (Inr ())"
| "validate_recursive D_I32 depth = validate_at depth (Inr ())"
| "validate_recursive D_I64 depth = validate_at depth (Inr ())"
| "validate_recursive D_Bool depth = validate_at depth (Inr ())"
| "validate_recursive D_Timestamp depth = validate_at depth (Inr ())"
| "validate_recursive D_Uuid depth = validate_at depth (Inr ())"
| "validate_recursive D_OrderedF32 depth = validate_at depth (Inr ())"
| "validate_recursive D_OrderedF64 depth = validate_at depth (Inr ())"
| "validate_recursive (D_EventString max_bytes) depth =
    validate_at depth (if max_bytes = 0 then Inl (ValueConstraintViolated_fc Empty) else Inr ())"
| "validate_recursive (D_NonEmptyEventString max_bytes) depth =
    validate_at depth (if max_bytes = 0 then Inl (ValueConstraintViolated_fc Empty) else Inr ())"
| "validate_recursive (D_EventBytes max_bytes) depth =
    validate_at depth (if max_bytes = 0 then Inl (ValueConstraintViolated_fc Empty) else Inr ())"
| "validate_recursive (D_EventVec inner max_items) depth =
    validate_at depth (if max_items = 0 then Inl (ValueConstraintViolated_fc Empty)
      else validate_recursive inner (depth + 1))"
| "validate_recursive (D_Option inner) depth =
    validate_at depth (validate_recursive inner (depth + 1))"
| "validate_recursive (D_Struct nm fds) depth =
    validate_at depth (validate_fields fds depth)"
| "validate_recursive (D_Enum nm discriminant_width variants) depth =
    validate_at depth (if variants = [] then Inl (ValueConstraintViolated_fc Empty)
      else if discriminant_width \<noteq> 1 \<and> discriminant_width \<noteq> 2 then Inl (ValueConstraintViolated_fc NotReal)
      else validate_variants discriminant_width [] variants depth)"
| "validate_fields [] depth = Inr ()"
| "validate_fields (FieldDescriptor nm node # fs) depth =
    (if nm = [] then Inl (ValueConstraintViolated_fc Empty)
     else result_bind (validate_recursive node (depth + 1)) (\<lambda>_. validate_fields fs depth))"
| "validate_variants w seen [] depth = Inr ()"
| "validate_variants w seen (VariantDescriptor d nm None # vs) depth =
    result_bind (validate_variant_head w seen d nm) (\<lambda>_.
      validate_variants w (List.insert d seen) vs depth)"
| "validate_variants w seen (VariantDescriptor d nm (Some pl) # vs) depth =
    result_bind (validate_variant_head w seen d nm) (\<lambda>_.
    result_bind (validate_recursive pl (depth + 1)) (\<lambda>_.
      validate_variants w (List.insert d seen) vs depth))"

definition validate_structural_completeness_node :: "DescriptorNode \<Rightarrow> unit operation" where
  "validate_structural_completeness_node d = validate_recursive d 0"

section \<open>Well-formed descriptors\<close>

text \<open>Names are UTF-8 (the invariant of \<open>String\<close>) and enum widths are 1 or 2.\<close>

fun node_wf :: "DescriptorNode \<Rightarrow> bool"
and fields_wf :: "FieldDescriptor list \<Rightarrow> bool"
and variants_wf :: "VariantDescriptor list \<Rightarrow> bool"
where
  "node_wf (D_EventVec inner _) = node_wf inner"
| "node_wf (D_Option inner) = node_wf inner"
| "node_wf (D_Struct nm fds) = (utf8_valid nm \<and> fields_wf fds)"
| "node_wf (D_Enum nm w vs) = (utf8_valid nm \<and> (w = 1 \<or> w = 2) \<and> variants_wf vs)"
| "node_wf _ = True"
| "fields_wf [] = True"
| "fields_wf (FieldDescriptor nm node # fs) = (utf8_valid nm \<and> node_wf node \<and> fields_wf fs)"
| "variants_wf [] = True"
| "variants_wf (VariantDescriptor d nm None # vs) = (utf8_valid nm \<and> variants_wf vs)"
| "variants_wf (VariantDescriptor d nm (Some pl) # vs) = (utf8_valid nm \<and> node_wf pl \<and> variants_wf vs)"

declare decode_recursive.simps [simp del]

lemma at_depth_eq_Inr [result_simps]:
  "at_depth depth r = Inr x \<longleftrightarrow> depth \<le> MAX_DESCRIPTOR_DEPTH \<and> r = Inr x"
  by (auto simp: at_depth_def)

lemma validate_at_eq_Inr [result_simps]:
  "validate_at depth r = Inr x \<longleftrightarrow> depth \<le> MAX_DESCRIPTOR_DEPTH \<and> r = Inr x"
  by (auto simp: validate_at_def)

lemma encode_count_eq_Inr [result_simps]:
  "encode_count n = Inr b \<longleftrightarrow> n \<le> U32_MAX \<and> b = u32_to_le (of_nat n)"
  by (auto simp: encode_count_def result_simps)

lemma encode_name_eq_Inr [result_simps]:
  "encode_name nm = Inr b \<longleftrightarrow> length nm \<le> U32_MAX \<and> b = u32_to_le (of_nat (length nm)) @ nm"
  by (auto simp: encode_name_def result_simps)

lemma constructor_tag_nonzero [simp]: "constructor_tag d \<noteq> 0"
  by (cases d) simp_all

lemma encode_recursive_tag:
  "encode_recursive d depth = Inr bs \<Longrightarrow> \<exists>t. bs = constructor_tag d # t"
  by (cases d) (auto simp: result_simps)

section \<open>Reading at a cursor\<close>

lemma drop_advance: "drop c buf = xs @ rest \<Longrightarrow> k = c + length xs \<Longrightarrow> drop k buf = rest"
  by (metis add.commute append_eq_conv_conj drop_drop)

lemma drop_room: "drop c buf = xs @ rest \<Longrightarrow> xs \<noteq> [] \<Longrightarrow> c + length xs \<le> length buf"
proof -
  assume d: "drop c buf = xs @ rest" and "xs \<noteq> []"
  then have "c < length buf" by (metis append_is_Nil_conv drop_eq_Nil not_le)
  moreover have "length buf - c = length xs + length rest" using d by (metis length_append length_drop)
  ultimately show ?thesis by linarith
qed

lemma subslice_at: "drop c buf = xs @ rest \<Longrightarrow> k = c + length xs \<Longrightarrow> subslice c k buf = xs"
  by (simp add: subslice_def)

lemma nth_at: "drop c buf = x # rest \<Longrightarrow> buf ! c = x"
  by (metis drop_eq_Nil hd_drop_conv_nth linorder_not_less list.distinct(1) list.sel(1))

lemma u32_to_le_nonempty [simp]: "u32_to_le w \<noteq> []"
  by (metis length_u32_to_le list.size(3) zero_neq_numeral)

lemma u16_to_le_nonempty [simp]: "u16_to_le w \<noteq> []"
  by (metis length_u16_to_le list.size(3) zero_neq_numeral)

lemma decode_count_at:
  assumes "drop c buf = u32_to_le w @ rest"
  shows "decode_count buf c = Inr (unat w, c + 4)"
proof -
  have "c + 4 \<le> length buf" using drop_room [OF assms] by simp
  moreover have "subslice c (c + 4) buf = u32_to_le w" by (rule subslice_at [OF assms]) simp
  ultimately show ?thesis by (simp add: decode_count_def)
qed

lemma decode_name_at:
  assumes "drop c buf = u32_to_le (of_nat (length nm)) @ nm @ rest"
    and "length nm \<le> U32_MAX" and "utf8_valid nm"
  shows "decode_name buf c = Inr (nm, c + 4 + length nm)"
proof -
  have d: "drop (c + 4) buf = nm @ rest" by (rule drop_advance [OF assms(1)]) simp
  have "drop c buf = (u32_to_le (of_nat (length nm)) @ nm) @ rest" using assms(1) by simp
  from drop_room [OF this] have "c + 4 + length nm \<le> length buf" by simp
  moreover have "subslice (c + 4) (c + 4 + length nm) buf = nm" by (rule subslice_at [OF d]) simp
  ultimately show ?thesis
    using assms(2,3) by (simp add: decode_name_def decode_count_at [OF assms(1)] unat_of_nat_u32 from_utf8_def)
qed

lemma decode_name_eq_Inr:
  "decode_name buf c = Inr (nm, k) \<longleftrightarrow>
    (let n = unat (u32_from_le (subslice c (c + 4) buf)) in
     c + 4 + n \<le> length buf \<and> k = c + 4 + n \<and> nm = subslice (c + 4) (c + 4 + n) buf \<and> utf8_valid nm)"
  by (auto simp: decode_name_def decode_count_def Let_def result_simps)

lemma decode_name_canonical:
  assumes "decode_name buf c = Inr (nm, k)"
  shows "encode_name nm = Inr (subslice c k buf) \<and> utf8_valid nm \<and> c + 4 \<le> k \<and> k \<le> length buf"
proof -
  let ?n = "unat (u32_from_le (subslice c (c + 4) buf))"
  have d: "c + 4 + ?n \<le> length buf" "k = c + 4 + ?n" "nm = subslice (c + 4) (c + 4 + ?n) buf" "utf8_valid nm"
    using assms by (auto simp: decode_name_eq_Inr Let_def)
  have len: "length nm = ?n" using d(1,3) by simp
  have "u32_to_le (of_nat (length nm)) = subslice c (c + 4) buf"
    using d(1) u32_to_from_le [of "subslice c (c + 4) buf"] len by simp
  then have "u32_to_le (of_nat (length nm)) @ nm = subslice c k buf"
    using d(2,3) subslice_join [of c "c + 4" k buf] by simp
  moreover have "length nm \<le> U32_MAX" using len unat_u32_le by simp
  ultimately show ?thesis using d(1,2,4) by (simp add: encode_name_eq_Inr)
qed

lemma decode_count_canonical:
  assumes "decode_count buf c = Inr (n, k)"
  shows "encode_count n = Inr (subslice c k buf) \<and> k = c + 4 \<and> k \<le> length buf"
proof -
  have d: "c + 4 \<le> length buf" "k = c + 4" "n = unat (u32_from_le (subslice c (c + 4) buf))"
    using assms by (auto simp: decode_count_def split: if_splits)
  then have "u32_to_le (of_nat n) = subslice c k buf"
    using u32_to_from_le [of "subslice c (c + 4) buf"] by simp
  then show ?thesis using d by (simp add: encode_count_eq_Inr unat_u32_le)
qed

lemma decode_count_within_eq_Inr:
  "decode_count_within m buf c = Inr (n, k) \<longleftrightarrow>
    decode_count buf c = Inr (n, k) \<and> n \<le> (length buf - k) div m"
  by (cases "decode_count buf c") (auto simp: decode_count_within_def Let_def split: if_splits)

lemma u32_small_cast:
  "(d :: u32) \<le> 255 \<Longrightarrow> (ucast (ucast d :: byte) :: u32) = d"
  "(d :: u32) \<le> 65535 \<Longrightarrow> (ucast (ucast d :: u16) :: u32) = d"
  by (simp_all add: word_le_nat_alt word_unat_eq_iff unsigned_ucast_eq unsigned_take_bit_eq take_bit_nat_eq_self)

section \<open>Discriminants and minimal sizes\<close>

lemma encode_discriminant_eq_Inr:
  assumes "w = 1 \<or> w = 2"
  shows "encode_discriminant w d = Inr b \<longleftrightarrow>
    (w = 1 \<and> d \<le> 255 \<and> b = [ucast d]) \<or> (w = 2 \<and> d \<le> 65535 \<and> b = u16_to_le (ucast d))"
  using assms by (auto simp: encode_discriminant_def)

lemma length_encode_discriminant:
  "encode_discriminant w d = Inr b \<Longrightarrow> w = 1 \<or> w = 2 \<Longrightarrow> length b = unat w"
  by (auto simp: encode_discriminant_eq_Inr)

lemma decode_discriminant_at:
  assumes "drop c buf = db @ rest" and "encode_discriminant w d = Inr db" and "w = 1 \<or> w = 2"
  shows "decode_discriminant w buf c = Inr (d, c + length db)"
proof -
  have ne: "db \<noteq> []" using length_encode_discriminant [OF assms(2,3)] assms(3) by auto
  have room: "c + length db \<le> length buf" by (rule drop_room [OF assms(1) ne])
  have len: "length db = unat w" by (rule length_encode_discriminant [OF assms(2,3)])
  show ?thesis
  proof (cases "w = 1")
    case True
    then have "db = [ucast d]" "d \<le> 255" using assms(2,3) by (auto simp: encode_discriminant_eq_Inr)
    then show ?thesis
      using True room nth_at [of c buf "ucast d" rest] assms(1) by (simp add: decode_discriminant_def u32_small_cast)
  next
    case False
    then have w: "w = 2" "db = u16_to_le (ucast d)" "d \<le> 65535"
      using assms(2,3) by (auto simp: encode_discriminant_eq_Inr)
    then have "subslice c (c + 2) buf = u16_to_le (ucast d)" using subslice_at [OF assms(1)] by simp
    with w room show ?thesis by (simp add: decode_discriminant_def u32_small_cast)
  qed
qed

lemma decode_discriminant_canonical:
  assumes "decode_discriminant w buf c = Inr (d, k)" and "w = 1 \<or> w = 2"
  shows "encode_discriminant w d = Inr (subslice c k buf) \<and> k = c + unat w \<and> k \<le> length buf"
proof (cases "w = 1")
  case True
  then have d: "c < length buf" "k = c + 1" "d = ucast (buf ! c)"
    using assms(1) by (auto simp: decode_discriminant_def split: if_splits)
  have "(ucast (buf ! c) :: u32) \<le> 255"
    using unat_word_less [of "buf ! c"]
    by (simp add: word_le_nat_alt unsigned_ucast_eq take_bit_nat_eq_self)
  moreover have "(ucast (ucast (buf ! c) :: u32) :: byte) = buf ! c"
    using unat_word_less [of "buf ! c"]
    by (simp add: word_unat_eq_iff unsigned_ucast_eq unsigned_take_bit_eq take_bit_nat_eq_self)
  moreover have "subslice c (Suc c) buf = [buf ! c]" using d(1) subslice_Suc [of c c buf] by (simp add: subslice_def)
  ultimately show ?thesis using True d by (simp add: encode_discriminant_def not_less)
next
  case False
  with assms have w: "w = 2" by simp
  let ?v = "u16_from_le (subslice c (c + 2) buf)"
  have d: "c + 2 \<le> length buf" "k = c + 2" "d = ucast ?v"
    using assms(1) w by (auto simp: decode_discriminant_def split: if_splits)
  have "(ucast ?v :: u32) \<le> 65535"
    using unat_word_less [of ?v] by (simp add: word_le_nat_alt unsigned_ucast_eq take_bit_nat_eq_self)
  moreover have "(ucast (ucast ?v :: u32) :: u16) = ?v"
    using unat_word_less [of ?v]
    by (simp add: word_unat_eq_iff unsigned_ucast_eq unsigned_take_bit_eq take_bit_nat_eq_self)
  moreover have "u16_to_le ?v = subslice c (c + 2) buf" using d(1) by (simp add: u16_to_from_le)
  ultimately show ?thesis using w d by (simp add: encode_discriminant_def not_less)
qed

lemma encode_fields_min: "encode_fields fs depth = Inr bs \<Longrightarrow> 5 * length fs \<le> length bs"
proof (induction fs arbitrary: bs)
  case Nil
  then show ?case by simp
next
  case (Cons f fs)
  obtain nm node where f: "f = FieldDescriptor nm node" by (cases f)
  from Cons.prems obtain b fb where *: "encode_recursive node (depth + 1) = Inr b"
    "encode_fields fs depth = Inr fb" "length bs = 4 + length nm + length b + length fb"
    by (auto simp: f result_simps)
  from encode_recursive_tag [OF *(1)] have "1 \<le> length b" by auto
  with Cons.IH [OF *(2)] *(3) show ?case by simp
qed

lemma encode_variants_min:
  assumes "w = 1 \<or> w = 2"
  shows "encode_variants w vs depth = Inr bs \<Longrightarrow> (unat w + 5) * length vs \<le> length bs"
proof (induction vs arbitrary: bs)
  case Nil
  then show ?case by simp
next
  case (Cons v vs)
  obtain d nm pl where v: "v = VariantDescriptor d nm pl" by (cases v)
  obtain db vb and b :: bytes where *: "encode_discriminant w d = Inr db" "1 \<le> length b" "encode_variants w vs depth = Inr vb"
    "length bs = length db + 4 + length nm + length b + length vb"
  proof (cases pl)
    case None
    with Cons.prems v that [of _ "[0]"] show ?thesis by (auto simp: result_simps)
  next
    case (Some p)
    with Cons.prems v obtain db b vb where "encode_discriminant w d = Inr db"
      "encode_recursive p (depth + 1) = Inr b" "encode_variants w vs depth = Inr vb"
      "length bs = length db + 4 + length nm + length b + length vb"
      by (auto simp: result_simps)
    with that [of db b vb] encode_recursive_tag [of p "depth + 1" b] show ?thesis by auto
  qed
  with Cons.IH [OF *(3)] length_encode_discriminant [OF *(1) assms] show ?case by simp
qed

lemma decode_count_within_at:
  assumes "drop c buf = u32_to_le (of_nat n) @ bs @ rest" and "n \<le> U32_MAX" and "m * n \<le> length bs" and "0 < m"
  shows "decode_count_within m buf c = Inr (n, c + 4)"
proof -
  have "decode_count buf c = Inr (n, c + 4)"
    using decode_count_at [OF assms(1)] assms(2) by (simp add: unat_of_nat_u32)
  moreover have "drop (c + 4) buf = bs @ rest" by (rule drop_advance [OF assms(1)]) simp
  then have "length bs \<le> length buf - (c + 4)" by (metis le_add1 length_append length_drop)
  then have "n * m \<le> length buf - (c + 4)" using assms(3) by (simp add: mult.commute)
  then have "n \<le> (length buf - (c + 4)) div m" using assms(4) by (simp add: less_eq_div_iff_mult_less_eq)
  ultimately show ?thesis by (simp add: decode_count_within_eq_Inr)
qed

section \<open>Decoding an encoding\<close>

lemma drop_prefix: "buf = x # xs @ rest \<Longrightarrow> k = Suc (length xs) \<Longrightarrow> drop k buf = rest"
  by simp

lemma decode_struct_step:
  assumes "depth \<le> MAX_DESCRIPTOR_DEPTH" and "buf = 15 # u32_to_le (of_nat (length nm)) @ nm @
      u32_to_le (of_nat (length fds)) @ fb @ rest"
    and "length nm \<le> U32_MAX" and "utf8_valid nm" and "length fds \<le> U32_MAX" and "5 * length fds \<le> length fb"
    and "decode_fields (length fds) buf (9 + length nm) depth = Inr (fds, 9 + length nm + length fb)"
  shows "decode_recursive buf depth = Inr (D_Struct nm fds, 9 + length nm + length fb)"
proof -
  have "decode_name buf 1 = Inr (nm, 1 + 4 + length nm)"
    by (rule decode_name_at [OF _ assms(3,4)]) (simp add: assms(2))
  moreover have "decode_count_within 5 buf (5 + length nm) = Inr (length fds, 5 + length nm + 4)"
    by (rule decode_count_within_at [OF drop_prefix [of _ 15 "u32_to_le (of_nat (length nm)) @ nm"] assms(5,6)]) (simp_all add: assms(2))
  moreover have "buf \<noteq> []" "buf ! 0 = 15" by (simp_all add: assms(2))
  ultimately show ?thesis
    using assms(1,7) by (simp add: decode_recursive.simps [of buf] not_less)
qed

lemma decode_enum_step:
  assumes "depth \<le> MAX_DESCRIPTOR_DEPTH" and "buf = 16 # u32_to_le (of_nat (length nm)) @ nm @ [w] @
      u32_to_le (of_nat (length vs)) @ vb @ rest"
    and "length nm \<le> U32_MAX" and "utf8_valid nm" and "length vs \<le> U32_MAX" and "w = 1 \<or> w = 2"
    and "(unat w + 5) * length vs \<le> length vb"
    and "decode_variants (length vs) w buf (10 + length nm) depth = Inr (vs, 10 + length nm + length vb)"
  shows "decode_recursive buf depth = Inr (D_Enum nm w vs, 10 + length nm + length vb)"
proof -
  have "decode_name buf 1 = Inr (nm, 1 + 4 + length nm)"
    by (rule decode_name_at [OF _ assms(3,4)]) (simp add: assms(2))
  moreover have d: "drop (5 + length nm) buf = w # u32_to_le (of_nat (length vs)) @ vb @ rest"
    by (rule drop_prefix [of _ 16 "u32_to_le (of_nat (length nm)) @ nm"]) (simp_all add: assms(2))
  then have "decode_width buf (5 + length nm) = Inr (w, 6 + length nm)"
    using drop_room [of "5 + length nm" buf "[w]"] nth_at [OF d] assms(6) by (auto simp: decode_width_def)
  moreover have "drop (6 + length nm) buf = u32_to_le (of_nat (length vs)) @ vb @ rest"
    by (rule drop_prefix [of _ 16 "u32_to_le (of_nat (length nm)) @ nm @ [w]"]) (simp_all add: assms(2))
  from decode_count_within_at [OF this assms(5,7)]
  have "decode_count_within (unat w + 5) buf (6 + length nm) = Inr (length vs, 10 + length nm)" by simp
  moreover have "buf \<noteq> []" "buf ! 0 = 16" by (simp_all add: assms(2))
  ultimately show ?thesis
    using assms(1,8) by (simp add: decode_recursive.simps [of buf] not_less)
qed

lemma drop_named:
  "drop c buf = u32_to_le w @ nm @ b @ rest \<Longrightarrow> k = c + 4 + length nm + length b \<Longrightarrow> drop k buf = rest"
  using drop_advance [of c buf "u32_to_le w @ nm @ b" rest k] by simp

lemma decode_field_step:
  assumes "drop c buf = u32_to_le (of_nat (length nm)) @ nm @ b @ rest" and "length nm \<le> U32_MAX"
    and "utf8_valid nm" and "decode_recursive (b @ rest) (depth + 1) = Inr (node, length b)"
    and "decode_fields n buf (c + 4 + length nm + length b) depth = Inr (fs, k)"
  shows "decode_fields (Suc n) buf c depth = Inr (FieldDescriptor nm node # fs, k)"
proof -
  have "drop (c + 4 + length nm) buf = b @ rest" by (rule drop_named [of _ _ _ nm "[]"]) (simp_all add: assms(1))
  then show ?thesis using assms(4,5) by (simp add: decode_name_at [OF assms(1,2,3)])
qed

lemma decode_variant_step:
  assumes "drop c buf = db @ u32_to_le (of_nat (length nm)) @ nm @ b @ rest"
    and "encode_discriminant w d = Inr db" and "w = 1 \<or> w = 2" and "length nm \<le> U32_MAX" and "utf8_valid nm"
    and "case pl of None \<Rightarrow> b = [0]
         | Some p \<Rightarrow> decode_recursive (b @ rest) (depth + 1) = Inr (p, length b) \<and> b \<noteq> [] \<and> hd b \<noteq> 0"
    and "decode_variants n w buf (c + length db + 4 + length nm + length b) depth = Inr (vs, k)"
  shows "decode_variants (Suc n) w buf c depth = Inr (VariantDescriptor d nm pl # vs, k)"
proof -
  have d1: "drop (c + length db) buf = u32_to_le (of_nat (length nm)) @ nm @ b @ rest"
    by (rule drop_advance [OF assms(1)]) simp
  have d2: "drop (c + length db + 4 + length nm) buf = b @ rest"
    by (rule drop_named [of "c + length db" _ _ nm "[]"]) (simp_all add: d1)
  have ne: "b \<noteq> []" using assms(6) by (auto split: option.splits)
  from drop_room [OF d2 ne] ne have room: "\<not> length buf < c + length db + 4 + length nm + 1"
    by (cases b) auto
  have hd: "buf ! (c + length db + 4 + length nm) = hd b"
    using nth_at [of "c + length db + 4 + length nm" buf] d2 ne by (cases b) auto
  show ?thesis
    using assms(6,7) room hd d2
    by (cases pl) (simp_all add: decode_discriminant_at [OF assms(1,2,3)] decode_name_at [OF d1 assms(4,5)])
qed

lemma decode_encode_mutual:
  "node_wf d \<Longrightarrow> encode_recursive d depth = Inr bs \<Longrightarrow>
     decode_recursive (bs @ rest) depth = Inr (d, length bs)"
  "fields_wf fs \<Longrightarrow> encode_fields fs depth = Inr bs \<Longrightarrow> drop c buf = bs @ rest \<Longrightarrow>
     decode_fields (length fs) buf c depth = Inr (fs, c + length bs)"
  "variants_wf vs \<Longrightarrow> w = 1 \<or> w = 2 \<Longrightarrow> encode_variants w vs depth = Inr bs \<Longrightarrow> drop c buf = bs @ rest \<Longrightarrow>
     decode_variants (length vs) w buf c depth = Inr (vs, c + length bs)"
proof (induction d depth and fs depth and w vs depth arbitrary: bs rest and bs rest c buf and bs rest c buf
    rule: encode_recursive_encode_fields_encode_variants.induct)
  case (17 inner max_items depth)
  from "17.prems" obtain b where b: "encode_recursive inner (depth + 1) = Inr b"
    "bs = 13 # b @ u32_to_le max_items" "depth \<le> MAX_DESCRIPTOR_DEPTH" by (auto simp: result_simps)
  have "decode_recursive (b @ u32_to_le max_items @ rest) (depth + 1) = Inr (inner, length b)"
    using "17.IH" [of b] "17.prems" b by simp
  then show ?case using b by (simp add: decode_recursive.simps [of "13 # _"] not_less bytes_simps)
next
  case (18 inner depth)
  from "18.prems" obtain b where b: "encode_recursive inner (depth + 1) = Inr b"
    "bs = 14 # b" "depth \<le> MAX_DESCRIPTOR_DEPTH" by (auto simp: result_simps)
  have "decode_recursive (b @ rest) (depth + 1) = Inr (inner, length b)"
    using "18.IH" [of b] "18.prems" b by simp
  then show ?case using b by (simp add: decode_recursive.simps [of "14 # _"] not_less)
next
  case (19 nm fds depth)
  from "19.prems" obtain fb where fb: "encode_fields fds depth = Inr fb" "length nm \<le> U32_MAX"
    "length fds \<le> U32_MAX" "depth \<le> MAX_DESCRIPTOR_DEPTH"
    "bs = 15 # u32_to_le (of_nat (length nm)) @ nm @ u32_to_le (of_nat (length fds)) @ fb"
    by (auto simp: result_simps)
  have "decode_fields (length fds) (bs @ rest) (9 + length nm) depth = Inr (fds, 9 + length nm + length fb)"
  proof (rule "19.IH")
    show "encode_name nm = Inr (u32_to_le (of_nat (length nm)) @ nm)"
      "encode_count (length fds) = Inr (u32_to_le (of_nat (length fds)))"
      "fields_wf fds" "encode_fields fds depth = Inr fb"
      using fb "19.prems" by (simp_all add: result_simps)
    show "drop (9 + length nm) (bs @ rest) = fb @ rest"
      by (rule drop_prefix [of _ 15 "u32_to_le (of_nat (length nm)) @ nm @ u32_to_le (of_nat (length fds))"])
        (simp_all add: fb)
  qed
  from decode_struct_step [OF fb(4) _ fb(2) _ fb(3) encode_fields_min [OF fb(1)] this, of rest]
  show ?case using "19.prems" fb(5) by simp
next
  case (20 nm w vs depth)
  from "20.prems" obtain vb where vb: "encode_variants w vs depth = Inr vb" "length nm \<le> U32_MAX"
    "length vs \<le> U32_MAX" "depth \<le> MAX_DESCRIPTOR_DEPTH"
    "bs = 16 # u32_to_le (of_nat (length nm)) @ nm @ [w] @ u32_to_le (of_nat (length vs)) @ vb"
    by (auto simp: result_simps)
  have w: "w = 1 \<or> w = 2" using "20.prems" by simp
  have "decode_variants (length vs) w (bs @ rest) (10 + length nm) depth = Inr (vs, 10 + length nm + length vb)"
  proof (rule "20.IH")
    show "encode_name nm = Inr (u32_to_le (of_nat (length nm)) @ nm)"
      "encode_count (length vs) = Inr (u32_to_le (of_nat (length vs)))"
      "variants_wf vs" "w = 1 \<or> w = 2" "encode_variants w vs depth = Inr vb"
      using vb w "20.prems" by (simp_all add: result_simps)
    show "drop (10 + length nm) (bs @ rest) = vb @ rest"
      by (rule drop_prefix [of _ 16 "u32_to_le (of_nat (length nm)) @ nm @ [w] @ u32_to_le (of_nat (length vs))"])
        (simp_all add: vb)
  qed
  from decode_enum_step [OF vb(4) _ vb(2) _ vb(3) w encode_variants_min [OF w vb(1)] this, of rest]
  show ?case using "20.prems" vb(5) by simp
next
  case (22 nm node fs depth)
  from "22.prems" obtain b fb where b: "encode_recursive node (depth + 1) = Inr b" "length nm \<le> U32_MAX"
    "encode_fields fs depth = Inr fb" "bs = u32_to_le (of_nat (length nm)) @ nm @ b @ fb"
    by (auto simp: result_simps)
  have en: "encode_name nm = Inr (u32_to_le (of_nat (length nm)) @ nm)" using b(2) by (simp add: result_simps)
  have wf: "utf8_valid nm" "node_wf node" "fields_wf fs" using "22.prems"(1) by simp_all
  have d: "drop c buf = u32_to_le (of_nat (length nm)) @ nm @ b @ fb @ rest" using "22.prems"(3) b(4) by simp
  from decode_field_step [OF d b(2) wf(1) "22.IH"(1) [OF en wf(2) b(1)]
      "22.IH"(2) [OF en b(1) wf(3) b(3) drop_named [OF d refl]]]
  show ?case using b(4) by (simp add: add.assoc)
next
  case (24 w d nm vs depth)
  from "24.prems" obtain db vb where b: "encode_discriminant w d = Inr db" "length nm \<le> U32_MAX"
    "encode_variants w vs depth = Inr vb" "bs = db @ u32_to_le (of_nat (length nm)) @ nm @ [0] @ vb"
    by (auto simp: result_simps)
  have en: "encode_name nm = Inr (u32_to_le (of_nat (length nm)) @ nm)" using b(2) by (simp add: result_simps)
  have wf: "utf8_valid nm" "variants_wf vs" using "24.prems"(1) by simp_all
  have d: "drop c buf = db @ u32_to_le (of_nat (length nm)) @ nm @ [0] @ vb @ rest"
    using "24.prems"(4) b(4) by simp
  from decode_variant_step [OF d b(1) "24.prems"(2) b(2) wf(1) _
      "24.IH" [OF b(1) en wf(2) "24.prems"(2) b(3) drop_named [OF drop_advance [OF d refl] refl]], of None]
  show ?case using b(4) by (simp add: add.assoc)
next
  case (25 w d nm pl vs depth)
  from "25.prems" obtain db b vb where b: "encode_discriminant w d = Inr db" "length nm \<le> U32_MAX"
    "encode_recursive pl (depth + 1) = Inr b"
    "encode_variants w vs depth = Inr vb" "bs = db @ u32_to_le (of_nat (length nm)) @ nm @ b @ vb"
    by (auto simp: result_simps)
  have en: "encode_name nm = Inr (u32_to_le (of_nat (length nm)) @ nm)" using b(2) by (simp add: result_simps)
  have wf: "utf8_valid nm" "node_wf pl" "variants_wf vs" using "25.prems"(1) by simp_all
  have d: "drop c buf = db @ u32_to_le (of_nat (length nm)) @ nm @ b @ vb @ rest"
    using "25.prems"(4) b(5) by simp
  have pl: "decode_recursive (b @ vb @ rest) (depth + 1) = Inr (pl, length b) \<and> b \<noteq> [] \<and> hd b \<noteq> 0"
    using "25.IH"(1) [OF b(1) en wf(2) b(3)] encode_recursive_tag [OF b(3)] by auto
  from decode_variant_step [OF d b(1) "25.prems"(2) b(2) wf(1) _
      "25.IH"(2) [OF b(1) en b(3) wf(3) "25.prems"(2) b(4) drop_named [OF drop_advance [OF d refl] refl]], of "Some pl"]
  show ?case using b(5) pl by (simp add: add.assoc)
qed (auto simp: result_simps decode_recursive.simps [of "_ # _"] decode_bound_def bytes_simps)

section \<open>What the decoder accepts is an encoding\<close>

lemma decode_width_eq_Inr:
  "decode_width buf c = Inr (w, k) \<longleftrightarrow> c < length buf \<and> w = buf ! c \<and> k = Suc c \<and> (w = 1 \<or> w = 2)"
  by (auto simp: decode_width_def split: if_splits)

lemma decode_bound_canonical:
  "decode_bound buf = Inr m \<Longrightarrow> 5 \<le> length buf \<and> take 5 buf = buf ! 0 # u32_to_le m"
  using take_Cons_subslice [of 5 buf]
  by (auto simp: decode_bound_def u32_to_from_le split: if_splits)

lemma subslice_Cons_first: "1 \<le> k \<Longrightarrow> buf \<noteq> [] \<Longrightarrow> buf ! 0 = t \<Longrightarrow> t # subslice 1 k buf = take k buf"
  by (cases buf; cases k) (simp_all add: subslice_def)

lemma struct_canonical:
  assumes "decode_name buf 1 = Inr (nm, c)" and "decode_count buf c = Inr (n, k)"
    and "encode_fields fs depth = Inr (subslice k e buf)" and "length fs = n" and "k \<le> e"
    and "buf ! 0 = 15" and "depth \<le> MAX_DESCRIPTOR_DEPTH"
  shows "encode_recursive (D_Struct nm fs) depth = Inr (take e buf)"
proof -
  note nm = decode_name_canonical [OF assms(1)] and ct = decode_count_canonical [OF assms(2)]
  have "subslice 1 c buf @ subslice c k buf @ subslice k e buf = subslice 1 e buf"
    using nm ct assms(5) by (simp add: glue_simps)
  moreover have "15 # subslice 1 e buf = take e buf"
    by (rule subslice_Cons_first) (use nm ct assms(5,6) in auto)
  ultimately show ?thesis using nm ct assms by (simp add: at_depth_def)
qed

lemma enum_canonical:
  assumes "decode_name buf 1 = Inr (nm, c)" and "decode_width buf c = Inr (w, c')"
    and "decode_count buf c' = Inr (n, k)" and "encode_variants w vs depth = Inr (subslice k e buf)"
    and "length vs = n" and "k \<le> e" and "buf ! 0 = 16" and "depth \<le> MAX_DESCRIPTOR_DEPTH"
  shows "encode_recursive (D_Enum nm w vs) depth = Inr (take e buf)"
proof -
  note nm = decode_name_canonical [OF assms(1)] and ct = decode_count_canonical [OF assms(3)]
  have w: "w = buf ! c" "c' = Suc c" "c < length buf" using assms(2) by (simp_all add: decode_width_eq_Inr)
  have "w # subslice c' k buf @ subslice k e buf = subslice c e buf"
    using w ct assms(6) by (simp add: glue_simps)
  then have "subslice 1 c buf @ w # subslice c' k buf @ subslice k e buf = subslice 1 e buf"
    using nm w ct assms(6) by (simp add: glue_simps)
  moreover have "16 # subslice 1 e buf = take e buf"
    by (rule subslice_Cons_first) (use nm w ct assms(6,7) in auto)
  ultimately show ?thesis using nm ct assms by (simp add: at_depth_def)
qed

lemma field_canonical:
  assumes "decode_name buf c = Inr (nm, c1)" and "encode_recursive node (depth + 1) = Inr (take n (drop c1 buf))"
    and "encode_fields fs depth = Inr (subslice (c1 + n) e buf)" and "c1 + n \<le> e"
  shows "encode_fields (FieldDescriptor nm node # fs) depth = Inr (subslice c e buf)"
proof -
  have "take n (drop c1 buf) = subslice c1 (c1 + n) buf" by (simp add: subslice_def)
  then show ?thesis
    using decode_name_canonical [OF assms(1)] assms(2-4) by (simp add: glue_simps del: take_subslice)
qed

lemma variant_canonical:
  assumes "decode_discriminant w buf c = Inr (d, c1)" and "w = 1 \<or> w = 2" and "decode_name buf c1 = Inr (nm, c2)"
    and "case pl of None \<Rightarrow> n = 1 \<and> buf ! c2 = 0 \<and> c2 < length buf
         | Some p \<Rightarrow> encode_recursive p (depth + 1) = Inr (take n (drop c2 buf))"
    and "encode_variants w vs depth = Inr (subslice (c2 + n) e buf)" and "c2 + n \<le> e"
  shows "encode_variants w (VariantDescriptor d nm pl # vs) depth = Inr (subslice c e buf)"
proof -
  note dc = decode_discriminant_canonical [OF assms(1,2)] and nm = decode_name_canonical [OF assms(3)]
  have glue: "subslice c c1 buf @ subslice c1 c2 buf @ subslice c2 (c2 + n) buf @ subslice (c2 + n) e buf =
      subslice c e buf"
    using dc nm assms(6) by (simp add: glue_simps)
  show ?thesis
  proof (cases pl)
    case None
    then have "subslice c2 (c2 + n) buf = [0]"
      using assms(4) subslice_Suc [of c2 c2 buf] by (simp add: subslice_def)
    with None glue dc nm assms(5) show ?thesis by simp
  next
    case (Some p)
    have "take n (drop c2 buf) = subslice c2 (c2 + n) buf" by (simp add: subslice_def)
    with Some glue dc nm assms(4,5) show ?thesis by simp
  qed
qed

lemma decode_recursive_InrE:
  assumes "decode_recursive buf depth = Inr (d, n)"
  obtains (leaf) "n = 1" "node_wf d" "encode_recursive d depth = Inr [buf ! 0]"
    | (bound) m where "decode_bound buf = Inr m" "n = 5" "node_wf d"
        "encode_recursive d depth = Inr (buf ! 0 # u32_to_le m)"
    | (vec) inner k where "buf ! 0 = 13" "decode_recursive (drop 1 buf) (depth + 1) = Inr (inner, k)"
        "1 + k + 4 \<le> length buf" "n = 1 + k + 4"
        "d = D_EventVec inner (u32_from_le (subslice (1 + k) (1 + k + 4) buf))"
    | (opt) inner k where "buf ! 0 = 14" "decode_recursive (drop 1 buf) (depth + 1) = Inr (inner, k)"
        "n = 1 + k" "d = D_Option inner"
    | (struct) nm c m k fs where "buf ! 0 = 15" "decode_name buf 1 = Inr (nm, c)"
        "decode_count_within 5 buf c = Inr (m, k)" "decode_fields m buf k depth = Inr (fs, n)" "d = D_Struct nm fs"
    | (enum) nm c w c' m k vs where "buf ! 0 = 16" "decode_name buf 1 = Inr (nm, c)"
        "decode_width buf c = Inr (w, c')" "decode_count_within (unat w + 5) buf c' = Inr (m, k)"
        "decode_variants m w buf k depth = Inr (vs, n)" "d = D_Enum nm w vs"
proof -
  have "depth \<le> MAX_DESCRIPTOR_DEPTH" using assms by (auto simp: decode_recursive.simps [of buf] split: if_splits)
  then have [simp]: "at_depth depth r = r" for r :: "encode_error + 'z" by (simp add: at_depth_def)
  show thesis
    using assms
    by (subst (asm) decode_recursive.simps)
      (auto split: if_splits simp: result_simps intro: leaf bound vec opt struct enum)
qed

lemma decode_recursive_guards:
  "decode_recursive buf depth = Inr r \<Longrightarrow> \<not> MAX_DESCRIPTOR_DEPTH < depth \<and> buf \<noteq> []"
  by (auto simp: decode_recursive.simps [of buf] split: if_splits)

text \<open>What is to be shown of a node at one depth; the loops and the node are proved from the next depth.\<close>

definition decoder_canonical_at :: "nat \<Rightarrow> bool" where
  "decoder_canonical_at depth \<longleftrightarrow> (\<forall>buf d n. decode_recursive buf depth = Inr (d, n) \<longrightarrow>
     node_wf d \<and> n \<le> length buf \<and> encode_recursive d depth = Inr (take n buf))"

lemma decoder_canonical_atD:
  "decoder_canonical_at depth \<Longrightarrow> decode_recursive buf depth = Inr (d, n) \<Longrightarrow>
     node_wf d \<and> n \<le> length buf \<and> encode_recursive d depth = Inr (take n buf)"
  by (simp add: decoder_canonical_at_def)

lemma decode_fields_canonical:
  assumes next_depth: "decoder_canonical_at (depth + 1)"
  shows "decode_fields m buf c depth = Inr (fs, e) \<Longrightarrow> c \<le> length buf \<Longrightarrow>
     fields_wf fs \<and> length fs = m \<and> c \<le> e \<and> e \<le> length buf \<and> encode_fields fs depth = Inr (subslice c e buf)"
proof (induction m arbitrary: c fs)
  case 0
  then show ?case by (simp add: subslice_def)
next
  case (Suc m)
  from Suc.prems(1) obtain nm c1 node k fs' where *: "decode_name buf c = Inr (nm, c1)"
    "decode_recursive (drop c1 buf) (depth + 1) = Inr (node, k)"
    "decode_fields m buf (c1 + k) depth = Inr (fs', e)" "fs = FieldDescriptor nm node # fs'"
    by (auto simp: result_simps)
  note nm = decode_name_canonical [OF *(1)]
  note node = decoder_canonical_atD [OF next_depth *(2)]
  have "c1 + k \<le> length buf" using node nm by auto
  note rest = Suc.IH [OF *(3) this]
  show ?case
    using field_canonical [OF *(1), of node depth k fs' e] nm node rest *(4) by simp
qed

lemma decode_variants_canonical:
  assumes next_depth: "decoder_canonical_at (depth + 1)" and w: "w = 1 \<or> w = 2"
  shows "decode_variants m w buf c depth = Inr (vs, e) \<Longrightarrow> c \<le> length buf \<Longrightarrow>
     variants_wf vs \<and> length vs = m \<and> c \<le> e \<and> e \<le> length buf \<and> encode_variants w vs depth = Inr (subslice c e buf)"
proof (induction m arbitrary: c vs)
  case 0
  then show ?case by (simp add: subslice_def)
next
  case (Suc m)
  from Suc.prems(1) obtain d c1 nm c2 where *: "decode_discriminant w buf c = Inr (d, c1)"
    "decode_name buf c1 = Inr (nm, c2)" "c2 < length buf"
    by (auto simp: result_simps split: if_splits)
  note dc = decode_discriminant_canonical [OF *(1) w] and nm = decode_name_canonical [OF *(2)]
  show ?case
  proof (cases "buf ! c2 = 0")
    case True
    with Suc.prems(1) * obtain vs' where vs: "decode_variants m w buf (c2 + 1) depth = Inr (vs', e)"
      "vs = VariantDescriptor d nm None # vs'" by (auto simp: result_simps)
    from variant_canonical [OF *(1) w *(2), where pl = None and n = 1 and depth = depth and vs = vs' and e = e] Suc.IH [OF vs(1)] dc nm vs True *(3)
    show ?thesis by simp
  next
    case False
    with Suc.prems(1) * obtain p k vs' where vs: "decode_recursive (drop c2 buf) (depth + 1) = Inr (p, k)"
      "decode_variants m w buf (c2 + k) depth = Inr (vs', e)"
      "vs = VariantDescriptor d nm (Some p) # vs'" by (auto simp: result_simps)
    note p = decoder_canonical_atD [OF next_depth vs(1)]
    have "c2 + k \<le> length buf" using p *(3) by auto
    note rest = Suc.IH [OF vs(2) this]
    from variant_canonical [OF *(1) w *(2), where pl = "Some p" and n = k and depth = depth and vs = vs' and e = e] rest dc nm vs(3) p *(3)
    show ?thesis by simp
  qed
qed

lemma decode_vec_canonical:
  assumes "encode_recursive inner (depth + 1) = Inr (take k (drop 1 buf))" and "buf ! 0 = 13"
    and "1 + k + 4 \<le> length buf" and "depth \<le> MAX_DESCRIPTOR_DEPTH"
  shows "encode_recursive (D_EventVec inner (u32_from_le (subslice (1 + k) (1 + k + 4) buf))) depth =
    Inr (take (1 + k + 4) buf)"
proof -
  have "take k (drop 1 buf) = subslice 1 (1 + k) buf" by (simp add: subslice_def)
  moreover have "subslice 1 (1 + k) buf @ subslice (1 + k) (1 + k + 4) buf = subslice 1 (1 + k + 4) buf"
    by (simp add: glue_simps)
  moreover have "13 # subslice 1 (1 + k + 4) buf = take (1 + k + 4) buf"
    by (rule subslice_Cons_first) (use assms in auto)
  ultimately show ?thesis using assms by (simp add: at_depth_def u32_to_from_le)
qed

lemma decoder_canonical_step:
  assumes next_depth: "decoder_canonical_at (depth + 1)"
  shows "decoder_canonical_at depth"
  unfolding decoder_canonical_at_def
proof (intro allI impI)
  fix buf d n
  assume dec: "decode_recursive buf depth = Inr (d, n)"
  note g = decode_recursive_guards [OF dec]
  from dec show "node_wf d \<and> n \<le> length buf \<and> encode_recursive d depth = Inr (take n buf)"
  proof (cases rule: decode_recursive_InrE)
    case leaf
    with g show ?thesis by (cases buf) auto
  next
    case (bound m)
    with decode_bound_canonical [of buf m] show ?thesis by simp
  next
    case (vec inner k)
    with decode_vec_canonical [of inner depth k buf] decoder_canonical_atD [OF next_depth vec(2)] g
    show ?thesis by simp
  next
    case (opt inner k)
    with decoder_canonical_atD [OF next_depth opt(2)] g show ?thesis
      by (cases buf) (auto simp: at_depth_def)
  next
    case (struct nm c m k fs)
    have ct: "decode_count buf c = Inr (m, k)" using struct by (simp add: decode_count_within_eq_Inr)
    with struct_canonical [OF struct(2) ct, of fs depth n] decode_fields_canonical [OF next_depth struct(4)]
      g struct decode_name_canonical [OF struct(2)] decode_count_canonical [OF ct]
    show ?thesis by simp
  next
    case (enum nm c w c' m k vs)
    have ct: "decode_count buf c' = Inr (m, k)" using enum by (simp add: decode_count_within_eq_Inr)
    have w: "w = 1 \<or> w = 2" using enum(3) by (auto simp: decode_width_eq_Inr)
    with enum_canonical [OF enum(2,3) ct, of vs depth n] decode_variants_canonical [OF next_depth w enum(5)]
      g enum decode_name_canonical [OF enum(2)] decode_count_canonical [OF ct]
    show ?thesis by simp
  qed
qed

lemma decoder_canonical: "decoder_canonical_at depth"
proof (induction "17 - depth" arbitrary: depth)
  case 0
  then have "\<not> depth \<le> MAX_DESCRIPTOR_DEPTH" by (simp add: MAX_DESCRIPTOR_DEPTH_def)
  then show ?case
    unfolding decoder_canonical_at_def using decode_recursive_guards not_less by blast
next
  case (Suc m)
  then have "m = 17 - (depth + 1)" by simp
  from Suc.hyps(1) [OF this] show ?case by (rule decoder_canonical_step)
qed

section \<open>The codec and the length calculation\<close>

text \<open>The encoder as a total function, for the codec contract: where it fails the value is not valid.\<close>

definition descriptor_bytes :: "DescriptorNode \<Rightarrow> bytes" where
  "descriptor_bytes d = (case DescriptorNode_encode d of Inr bs \<Rightarrow> bs | Inl _ \<Rightarrow> [])"

definition descriptor_valid :: "DescriptorNode \<Rightarrow> bool" where
  "descriptor_valid d \<longleftrightarrow> node_wf d \<and> is_ok (DescriptorNode_encode d)"

interpretation descriptor: canonical_codec descriptor_bytes DescriptorNode_decode descriptor_valid
proof
  fix d rest
  assume "descriptor_valid d"
  then obtain bs where "node_wf d" "encode_recursive d 0 = Inr bs"
    by (auto simp: descriptor_valid_def is_ok_iff DescriptorNode_encode_def)
  then show "DescriptorNode_decode (descriptor_bytes d @ rest) = Inr (d, length (descriptor_bytes d))"
    by (simp add: DescriptorNode_decode_def descriptor_bytes_def DescriptorNode_encode_def decode_encode_mutual)
next
  fix buf d n
  assume "DescriptorNode_decode buf = Inr (d, n)"
  then have *: "node_wf d \<and> n \<le> length buf \<and> encode_recursive d 0 = Inr (take n buf)"
    using decoder_canonical_atD [OF decoder_canonical] by (simp add: DescriptorNode_decode_def)
  then show "descriptor_valid d \<and> n \<le> length buf"
    by (simp add: descriptor_valid_def DescriptorNode_encode_def)
  from * show "take n buf = descriptor_bytes d"
    by (simp add: descriptor_bytes_def DescriptorNode_encode_def)
qed

lemma len_sum_eq_Inr [result_simps]:
  "len_sum t [] = Inr n \<longleftrightarrow> n = t"
  "t \<le> USIZE_MAX \<Longrightarrow> len_sum t [a] = Inr n \<longleftrightarrow> n = t + a \<and> n \<le> USIZE_MAX"
  "t \<le> USIZE_MAX \<Longrightarrow> len_sum t [a, b] = Inr n \<longleftrightarrow> n = t + a + b \<and> n \<le> USIZE_MAX"
  "t \<le> USIZE_MAX \<Longrightarrow> len_sum t [a, b, c] = Inr n \<longleftrightarrow> n = t + a + b + c \<and> n \<le> USIZE_MAX"
  "t \<le> USIZE_MAX \<Longrightarrow> len_sum t [a, b, c, d] = Inr n \<longleftrightarrow> n = t + a + b + c + d \<and> n \<le> USIZE_MAX"
  by (auto simp: checked_add_def len_sum.simps split: if_splits)

lemma USIZE_one [simp]: "1 \<le> USIZE_MAX" "Suc 0 \<le> USIZE_MAX"
  by (simp_all add: USIZE_bound)

lemma len_u32_eq_Inr [result_simps]: "len_u32 n = Inr m \<longleftrightarrow> n \<le> U32_MAX \<and> m = n"
  by (auto simp: len_u32_def unat_of_nat_u32 result_simps split: option.splits)

declare len_sum.simps [simp del]

lemma disc_len_eq_Inr:
  "disc_len w d = Inr n \<longleftrightarrow> (\<exists>b. encode_discriminant w d = Inr b \<and> n = length b)"
  by (auto simp: disc_len_def encode_discriminant_def)

lemma encoded_len_mutual:
  "encoded_len_recursive d depth = Inr n \<longleftrightarrow>
     (\<exists>bs. encode_recursive d depth = Inr bs \<and> n = length bs \<and> n \<le> USIZE_MAX)"
  "t \<le> USIZE_MAX \<Longrightarrow> encoded_len_fields fs depth t = Inr n \<longleftrightarrow>
     (\<exists>bs. encode_fields fs depth = Inr bs \<and> n = t + length bs \<and> n \<le> USIZE_MAX)"
  "t \<le> USIZE_MAX \<Longrightarrow> encoded_len_variants w vs depth t = Inr n \<longleftrightarrow>
     (\<exists>bs. encode_variants w vs depth = Inr bs \<and> n = t + length bs \<and> n \<le> USIZE_MAX)"
proof (induction d depth and fs depth and w vs depth arbitrary: n and t n and t n
    rule: encode_recursive_encode_fields_encode_variants.induct)
  case (19 nm fds depth)
  show ?case
  proof (cases "length nm \<le> U32_MAX \<and> length fds \<le> U32_MAX")
    case True
    then have en: "encode_name nm = Inr (u32_to_le (of_nat (length nm)) @ nm)"
      "encode_count (length fds) = Inr (u32_to_le (of_nat (length fds)))" and t: "9 + length nm \<le> USIZE_MAX"
      by (simp_all add: result_simps U32_bound USIZE_bound)
    with "19.IH" [OF en t] True show ?thesis by (auto simp: result_simps)
  qed (auto simp: result_simps)
next
  case (20 nm w vs depth)
  show ?case
  proof (cases "length nm \<le> U32_MAX \<and> length vs \<le> U32_MAX")
    case True
    then have en: "encode_name nm = Inr (u32_to_le (of_nat (length nm)) @ nm)"
      "encode_count (length vs) = Inr (u32_to_le (of_nat (length vs)))" and t: "10 + length nm \<le> USIZE_MAX"
      by (simp_all add: result_simps U32_bound USIZE_bound)
    with "20.IH" [OF en t] True show ?thesis by (auto simp: result_simps)
  qed (auto simp: result_simps)
next
  case (22 nm node fs depth)
  show ?case
  proof (cases "length nm \<le> U32_MAX \<and> is_ok (encode_recursive node (depth + 1))")
    case True
    then obtain b where en: "encode_name nm = Inr (u32_to_le (of_nat (length nm)) @ nm)"
      and b: "encode_recursive node (depth + 1) = Inr b" by (auto simp: result_simps is_ok_iff)
    show ?thesis
      using "22.IH"(1) [OF en] "22.IH"(2) [OF en b] "22.prems" True b by (auto simp: result_simps)
  qed (use "22.IH"(1) "22.prems" in \<open>auto simp: result_simps is_ok_iff\<close>)
next
  case (24 w d nm vs depth)
  show ?case
  proof (cases "length nm \<le> U32_MAX \<and> is_ok (encode_discriminant w d)")
    case True
    then obtain b where en: "encode_name nm = Inr (u32_to_le (of_nat (length nm)) @ nm)"
      and b: "encode_discriminant w d = Inr b" by (auto simp: result_simps is_ok_iff)
    show ?thesis
      using "24.IH" [OF b en] "24.prems" True b by (auto simp: result_simps disc_len_eq_Inr)
  qed (use "24.prems" in \<open>auto simp: result_simps is_ok_iff disc_len_eq_Inr\<close>)
next
  case (25 w d nm pl vs depth)
  show ?case
  proof (cases "length nm \<le> U32_MAX \<and> is_ok (encode_discriminant w d) \<and> is_ok (encode_recursive pl (depth + 1))")
    case True
    then obtain db b where en: "encode_name nm = Inr (u32_to_le (of_nat (length nm)) @ nm)"
      and b: "encode_discriminant w d = Inr db" "encode_recursive pl (depth + 1) = Inr b"
      by (auto simp: result_simps is_ok_iff)
    show ?thesis
      using "25.IH"(1) [OF b(1) en] "25.IH"(2) [OF b(1) en b(2)] "25.prems" True b
      by (auto simp: result_simps disc_len_eq_Inr)
  qed (use "25.IH"(1) "25.prems" in \<open>fastforce simp: result_simps is_ok_iff disc_len_eq_Inr\<close>)
qed (auto simp: result_simps USIZE_one)

section \<open>Properties\<close>

text \<open>C21: when the encoder accepts a descriptor, the decoder reads it back from its bytes, whatever follows them, and
  consumes exactly those bytes, if and only if the names in it are UTF-8 and its enum widths are 1 or 2. The encoder
  itself checks neither: for any other descriptor its bytes are never read back as that descriptor.\<close>

theorem descriptor_roundtrip:
  assumes "DescriptorNode_encode d = Inr bs"
  shows "DescriptorNode_decode (bs @ rest) = Inr (d, length bs) \<longleftrightarrow> node_wf d"
proof
  assume "DescriptorNode_decode (bs @ rest) = Inr (d, length bs)"
  from descriptor.dec_valid [OF this] show "node_wf d" by (simp add: descriptor_valid_def)
next
  assume "node_wf d"
  then show "DescriptorNode_decode (bs @ rest) = Inr (d, length bs)"
    using descriptor.dec_enc [of d rest] assms by (simp add: descriptor_valid_def descriptor_bytes_def)
qed

theorem descriptor_roundtrip_witness:
  "DescriptorNode_decode ([0x0F, 1, 0, 0, 0, 65, 1, 0, 0, 0, 1, 0, 0, 0, 98, 0x0D, 0x02, 7, 0, 0, 0] @ [9, 9]) =
      Inr (D_Struct (ascii ''A'') [FieldDescriptor (ascii ''b'') (D_EventVec D_U16 7)], 21) \<and>
    DescriptorNode_encode (D_Enum (ascii ''A'') 3 []) = Inr [0x10, 1, 0, 0, 0, 65, 3, 0, 0, 0, 0] \<and>
    DescriptorNode_decode ([0x10, 1, 0, 0, 0, 65, 3, 0, 0, 0, 0] @ []) \<noteq> Inr (D_Enum (ascii ''A'') 3 [], 11)"
proof -
  have enc: "DescriptorNode_encode (D_Struct (ascii ''A'') [FieldDescriptor (ascii ''b'') (D_EventVec D_U16 7)]) =
      Inr [0x0F, 1, 0, 0, 0, 65, 1, 0, 0, 0, 1, 0, 0, 0, 98, 0x0D, 0x02, 7, 0, 0, 0]"
    "DescriptorNode_encode (D_Enum (ascii ''A'') 3 []) = Inr [0x10, 1, 0, 0, 0, 65, 3, 0, 0, 0, 0]"
    by (simp_all add: DescriptorNode_encode_def at_depth_def MAX_DESCRIPTOR_DEPTH_def encode_name_def
        encode_count_def u32_try_from_def U32_bound u32_to_le_def ascii_def)
  have len: "length ([0x10, 1, 0, 0, 0, 65, 3, 0, 0, 0, 0] :: bytes) = 11" by simp
  from descriptor_roundtrip [OF enc(2), of "[]", unfolded len]
  have "DescriptorNode_decode ([0x10, 1, 0, 0, 0, 65, 3, 0, 0, 0, 0] @ []) \<noteq> Inr (D_Enum (ascii ''A'') 3 [], 11)" by simp
  moreover have "DescriptorNode_decode ([0x0F, 1, 0, 0, 0, 65, 1, 0, 0, 0, 1, 0, 0, 0, 98, 0x0D, 0x02, 7, 0, 0, 0] @ [9, 9]) =
      Inr (D_Struct (ascii ''A'') [FieldDescriptor (ascii ''b'') (D_EventVec D_U16 7)], 21)"
    using descriptor_roundtrip [OF enc(1), of "[9, 9]"] by (simp add: ascii_def)
  ultimately show ?thesis using enc(2) by blast
qed

text \<open>Whatever buffer the recursive decoder accepts, the node it returns has valid names and widths,
  nests at most to the depth limit (its encoder accepts it), and its encoding is exactly the bytes
  consumed: the descriptor language has one wire form per descriptor, so the schema identity hashed
  from those bytes is a function of the descriptor.\<close>

lemma descriptor_decode_canonical:
  assumes "DescriptorNode_decode buf = Inr (d, n)"
  shows "node_wf d \<and> n \<le> length buf \<and> DescriptorNode_encode d = Inr (take n buf)"
proof -
  have "descriptor_valid d" by (rule descriptor.dec_valid [OF assms])
  moreover have "take n buf = descriptor_bytes d" by (rule descriptor.dec_canonical [OF assms])
  ultimately show ?thesis
    using descriptor.dec_consumed_le [OF assms] by (auto simp: descriptor_valid_def is_ok_iff descriptor_bytes_def)
qed

text \<open>The length calculation, which walks the descriptor without writing anything, succeeds
  exactly when the encoder does and the encoding's size fits \<open>usize\<close>, and then returns that size.\<close>

lemma encoded_len_correct:
  "encoded_len d = Inr n \<longleftrightarrow> (\<exists>bs. DescriptorNode_encode d = Inr bs \<and> n = length bs \<and> n \<le> USIZE_MAX)"
  by (simp add: encoded_len_def DescriptorNode_encode_def encoded_len_mutual)

end
