(* ===== verification/Schema_Descriptor.thy ===== *)
theory Schema_Descriptor
  imports Descriptor
begin

text \<open>
  \<open>SchemaDescriptor\<close>, \<open>AdmittedDescriptor\<close> and \<open>SchemaIdentity\<close> of \<open>schema.rs\<close>: the versioned
  descriptor and its wire form, admission (structural validation, the 64 KiB bound on the record,
  the record's bytes and the identity hashed from them) and the derivation of fiber identifiers.
  BLAKE3 is a parameter, as hash (\<open>H\<close>) and as keyed derivation (\<open>derive_key\<close>).
\<close>

definition MAX_DESCRIPTOR_RECORD_BYTES :: nat where "MAX_DESCRIPTOR_RECORD_BYTES = 65536"

record SchemaDescriptor =
  sd_version :: u32
  sd_root :: DescriptorNode

definition SchemaDescriptor_encode :: "SchemaDescriptor \<Rightarrow> encode_error + bytes" where
  "SchemaDescriptor_encode sd =
    result_bind (DescriptorNode_encode (sd_root sd)) (\<lambda>b. Inr (u32_to_le (sd_version sd) @ b))"

definition encoded_record_len :: "SchemaDescriptor \<Rightarrow> encode_error + nat" where
  "encoded_record_len sd =
    result_bind (encoded_len (sd_root sd)) (\<lambda>root_len.
      ok_or (Custom_enc ''length overflow'')
        (Option.bind (checked_add 1 4) (\<lambda>prefix. checked_add prefix root_len)))"

definition SchemaDescriptor_decode :: "bytes \<Rightarrow> SchemaDescriptor decoded" where
  "SchemaDescriptor_decode buf =
    (if length buf < 4 then Inl (TruncatedPayload 4 (length buf))
     else result_bind (DescriptorNode_decode (drop 4 buf)) (\<lambda>(root, consumed).
       Inr (\<lparr>sd_version = u32_from_le (subslice 0 4 buf), sd_root = root\<rparr>, 4 + consumed)))"

definition validate_structural_completeness :: "SchemaDescriptor \<Rightarrow> unit operation" where
  "validate_structural_completeness sd =
    (if sd_version sd = 0 then Inl MissingSchemaDescriptor
     else validate_structural_completeness_node (sd_root sd))"

record AdmittedDescriptor =
  ad_descriptor :: SchemaDescriptor
  ad_encoded_record :: bytes
  ad_identity :: bytes

text \<open>The \<open>None\<close> branch is the panic of \<open>OwnershipRecord::encode\<close>, which this record kind never reaches;
  the model gives it the failure of an over-long value.\<close>

definition try_from_descriptor :: "blake3 \<Rightarrow> SchemaDescriptor \<Rightarrow> AdmittedDescriptor operation" where
  "try_from_descriptor H sd =
    result_bind (validate_structural_completeness sd) (\<lambda>_.
    result_bind (map_err (\<lambda>_. ValueConstraintViolated_fc TooLong) (encoded_record_len sd)) (\<lambda>record_len.
    if record_len > MAX_DESCRIPTOR_RECORD_BYTES then Inl (ValueConstraintViolated_fc TooLong)
    else
      result_bind (map_err (\<lambda>_. ValueConstraintViolated_fc TooLong) (DescriptorNode_encode (sd_root sd)))
        (\<lambda>desc_bytes.
          case OwnershipRecord_encode (SchemaDescriptor_record (sd_version sd) desc_bytes) of
            None \<Rightarrow> Inl (ValueConstraintViolated_fc TooLong)
          | Some encoded_record \<Rightarrow>
              Inr \<lparr>ad_descriptor = sd, ad_encoded_record = encoded_record,
                   ad_identity = H (drop 1 encoded_record)\<rparr>)))"

definition try_identity :: "blake3 \<Rightarrow> SchemaDescriptor \<Rightarrow> bytes operation" where
  "try_identity H sd = result_bind (try_from_descriptor H sd) (\<lambda>a. Inr (ad_identity a))"

definition SchemaIdentity_try_from_descriptor ::
    "blake3 \<Rightarrow> u32 \<Rightarrow> DescriptorNode \<Rightarrow> encode_error + bytes" where
  "SchemaIdentity_try_from_descriptor H version root =
    result_bind (DescriptorNode_encode root) (\<lambda>b. Inr (H (u32_to_le version @ b)))"

definition hex_char :: "nat \<Rightarrow> char" where
  "hex_char n = ''0123456789abcdef'' ! n"

definition to_hex :: "bytes \<Rightarrow> string" where
  "to_hex bs = concat (map (\<lambda>b. [hex_char (unat b div 16), hex_char (unat b mod 16)]) bs)"

definition derive_fiber_id :: "(bytes \<Rightarrow> bytes \<Rightarrow> bytes) \<Rightarrow> bytes \<Rightarrow> bytes" where
  "derive_fiber_id derive_key domain_key =
    subslice 0 16 (derive_key (ascii ''pardosa.fiber_id.v1'') domain_key)"

section \<open>Structural completeness, declaratively\<close>

text \<open>The nesting depth of a node, and the conditions of structural completeness without the
  traversal order or the accumulated set of seen discriminants.\<close>

fun variant_discriminant :: "VariantDescriptor \<Rightarrow> u32" where
  "variant_discriminant (VariantDescriptor d _ _) = d"

fun node_depth :: "DescriptorNode \<Rightarrow> nat"
and fields_depth :: "FieldDescriptor list \<Rightarrow> nat"
and variants_depth :: "VariantDescriptor list \<Rightarrow> nat"
where
  "node_depth (D_EventVec inner _) = Suc (node_depth inner)"
| "node_depth (D_Option inner) = Suc (node_depth inner)"
| "node_depth (D_Struct _ fds) = fields_depth fds"
| "node_depth (D_Enum _ _ vs) = variants_depth vs"
| "node_depth _ = 0"
| "fields_depth [] = 0"
| "fields_depth (FieldDescriptor _ node # fs) = max (Suc (node_depth node)) (fields_depth fs)"
| "variants_depth [] = 0"
| "variants_depth (VariantDescriptor _ _ None # vs) = variants_depth vs"
| "variants_depth (VariantDescriptor _ _ (Some pl) # vs) = max (Suc (node_depth pl)) (variants_depth vs)"

definition discriminant_fits :: "byte \<Rightarrow> u32 \<Rightarrow> bool" where
  "discriminant_fits w d \<longleftrightarrow> (w = 1 \<longrightarrow> d \<le> 255) \<and> (w = 2 \<longrightarrow> d \<le> 65535)"

fun node_complete :: "DescriptorNode \<Rightarrow> bool"
and fields_complete :: "FieldDescriptor list \<Rightarrow> bool"
and variants_complete :: "byte \<Rightarrow> VariantDescriptor list \<Rightarrow> bool"
where
  "node_complete (D_EventString m) = (m \<noteq> 0)"
| "node_complete (D_NonEmptyEventString m) = (m \<noteq> 0)"
| "node_complete (D_EventBytes m) = (m \<noteq> 0)"
| "node_complete (D_EventVec inner m) = (m \<noteq> 0 \<and> node_complete inner)"
| "node_complete (D_Option inner) = node_complete inner"
| "node_complete (D_Struct _ fds) = fields_complete fds"
| "node_complete (D_Enum _ w vs) = (vs \<noteq> [] \<and> (w = 1 \<or> w = 2) \<and>
     distinct (map variant_discriminant vs) \<and> variants_complete w vs)"
| "node_complete _ = True"
| "fields_complete [] = True"
| "fields_complete (FieldDescriptor nm node # fs) = (nm \<noteq> [] \<and> node_complete node \<and> fields_complete fs)"
| "variants_complete w [] = True"
| "variants_complete w (VariantDescriptor d nm None # vs) =
    (nm \<noteq> [] \<and> discriminant_fits w d \<and> variants_complete w vs)"
| "variants_complete w (VariantDescriptor d nm (Some pl) # vs) =
    (nm \<noteq> [] \<and> discriminant_fits w d \<and> node_complete pl \<and> variants_complete w vs)"

lemma validate_variant_head_eq:
  "validate_variant_head w seen d nm = Inr () \<longleftrightarrow> nm \<noteq> [] \<and> discriminant_fits w d \<and> d \<notin> set seen"
  by (auto simp: validate_variant_head_def discriminant_fits_def)

lemma validate_mutual:
  "validate_recursive d k = Inr () \<longleftrightarrow> k + node_depth d \<le> MAX_DESCRIPTOR_DEPTH \<and> node_complete d"
  "validate_fields fs k = Inr () \<longleftrightarrow>
     (fs = [] \<or> k + fields_depth fs \<le> MAX_DESCRIPTOR_DEPTH) \<and> fields_complete fs"
  "validate_variants w seen vs k = Inr () \<longleftrightarrow>
     (variants_depth vs = 0 \<or> k + variants_depth vs \<le> MAX_DESCRIPTOR_DEPTH) \<and> variants_complete w vs \<and>
     distinct (map variant_discriminant vs) \<and> (\<forall>v\<in>set vs. variant_discriminant v \<notin> set seen)"
proof (induction d k and fs k and w seen vs k rule: validate_recursive_validate_fields_validate_variants.induct)
qed (auto simp: result_simps validate_variant_head_eq)

section \<open>Admission\<close>

lemma checked_record_len: "n \<le> USIZE_MAX \<Longrightarrow>
    ok_or (Custom_enc ''length overflow'') (Option.bind (checked_add (Suc 0) 4) (\<lambda>p. checked_add p n)) = Inr m \<longleftrightarrow>
    m = 5 + n \<and> m \<le> USIZE_MAX"
  by (auto simp: result_simps Option.bind_eq_Some_conv USIZE_bound)

lemma encoded_record_len_eq_Inr:
  "encoded_record_len sd = Inr n \<longleftrightarrow>
    (\<exists>bs. DescriptorNode_encode (sd_root sd) = Inr bs \<and> n = 5 + length bs \<and> n \<le> USIZE_MAX)"
proof -
  have len: "encoded_len d = Inr n \<longleftrightarrow>
      (\<exists>bs. DescriptorNode_encode d = Inr bs \<and> n = length bs \<and> n \<le> USIZE_MAX)" for d n
    by (simp add: encoded_len_def DescriptorNode_encode_def encoded_len_mutual)
  show ?thesis by (auto simp: encoded_record_len_def result_bind_eq_Inr len checked_record_len)
qed

lemma try_from_descriptor_eq_Inr:
  "try_from_descriptor H sd = Inr a \<longleftrightarrow>
    sd_version sd \<noteq> 0 \<and> node_depth (sd_root sd) \<le> MAX_DESCRIPTOR_DEPTH \<and> node_complete (sd_root sd) \<and>
    (\<exists>bs. DescriptorNode_encode (sd_root sd) = Inr bs \<and> 5 + length bs \<le> MAX_DESCRIPTOR_RECORD_BYTES \<and>
      a = \<lparr>ad_descriptor = sd, ad_encoded_record = 9 # u32_to_le (sd_version sd) @ bs,
           ad_identity = H (u32_to_le (sd_version sd) @ bs)\<rparr>)"
proof (cases "encoded_record_len sd")
  case (Inl e)
  then have "\<not> (\<exists>bs. DescriptorNode_encode (sd_root sd) = Inr bs \<and> 5 + length bs \<le> MAX_DESCRIPTOR_RECORD_BYTES)"
    using encoded_record_len_eq_Inr [of sd "5 + length _"]
    by (force simp: MAX_DESCRIPTOR_RECORD_BYTES_def USIZE_bound)
  with Inl show ?thesis by (auto simp: try_from_descriptor_def result_simps)
next
  case (Inr n)
  then obtain bs where "DescriptorNode_encode (sd_root sd) = Inr bs" "n = 5 + length bs"
    using encoded_record_len_eq_Inr [of sd n] by auto
  with Inr show ?thesis
    by (auto simp: try_from_descriptor_def validate_structural_completeness_def
        validate_structural_completeness_node_def validate_mutual result_bind_eq_Inr
        OwnershipRecord_encode_def split: if_splits)
qed

lemma SchemaDescriptor_decode_encode:
  assumes "node_wf (sd_root sd)" and "DescriptorNode_encode (sd_root sd) = Inr bs"
  shows "SchemaDescriptor_decode (u32_to_le (sd_version sd) @ bs @ rest) = Inr (sd, 4 + length bs)"
proof -
  have "descriptor_valid (sd_root sd)" using assms by (simp add: descriptor_valid_def)
  from descriptor.dec_enc [OF this, of rest] assms(2) show ?thesis
    by (simp add: SchemaDescriptor_decode_def bytes_simps descriptor_bytes_def)
qed

text \<open>A descriptor is admitted exactly when its version is not zero, its nesting is within the
  depth limit, it is structurally complete (non-zero bounds, non-empty names, at least one variant,
  width 1 or 2, discriminants within the width and pairwise distinct) and its record of tag, version
  and descriptor bytes is at most 64 KiB.\<close>

lemma admission_iff:
  "is_ok (try_from_descriptor H sd) \<longleftrightarrow>
    sd_version sd \<noteq> 0 \<and> node_depth (sd_root sd) \<le> MAX_DESCRIPTOR_DEPTH \<and> node_complete (sd_root sd) \<and>
    (\<exists>bs. DescriptorNode_encode (sd_root sd) = Inr bs \<and> 5 + length bs \<le> MAX_DESCRIPTOR_RECORD_BYTES)"
  by (auto simp: is_ok_iff try_from_descriptor_eq_Inr)

text \<open>The record an admitted descriptor carries is at most 64 KiB, decodes as a schema-descriptor
  ownership record taking the whole record, and the bytes after its tag decode to the very descriptor
  admitted; its identity is the hash of those bytes, the value \<open>SchemaIdentity::try_from_descriptor\<close>
  computes from version and root.\<close>

lemma admitted_descriptor_record:
  assumes "try_from_descriptor H sd = Inr a" and "node_wf (sd_root sd)"
  shows "length (ad_encoded_record a) \<le> MAX_DESCRIPTOR_RECORD_BYTES \<and>
    (\<exists>ds. OwnershipRecord_decode (ad_encoded_record a) =
       Inr (SchemaDescriptor_record (sd_version sd) ds, length (ad_encoded_record a))) \<and>
    SchemaDescriptor_decode (drop 1 (ad_encoded_record a)) = Inr (sd, length (ad_encoded_record a) - 1) \<and>
    SchemaIdentity_try_from_descriptor H (sd_version sd) (sd_root sd) = Inr (ad_identity a)"
proof -
  from assms(1) obtain bs where bs: "DescriptorNode_encode (sd_root sd) = Inr bs"
    "5 + length bs \<le> MAX_DESCRIPTOR_RECORD_BYTES"
    and a: "a = \<lparr>ad_descriptor = sd, ad_encoded_record = 9 # u32_to_le (sd_version sd) @ bs,
           ad_identity = H (u32_to_le (sd_version sd) @ bs)\<rparr>"
    by (auto simp: try_from_descriptor_eq_Inr)
  have "OwnershipRecord_encode (SchemaDescriptor_record (sd_version sd) bs) = Some (ad_encoded_record a)"
    by (simp add: OwnershipRecord_encode_def a)
  from decode_schema_descriptor_record_encode [OF this]
  have "OwnershipRecord_decode (ad_encoded_record a) =
      Inr (SchemaDescriptor_record (sd_version sd) bs, length (ad_encoded_record a))"
    by (simp add: OwnershipRecord_decode_def a)
  then show ?thesis
    using bs SchemaDescriptor_decode_encode [OF assms(2) bs(1), of "[]"]
    by (auto simp: a SchemaIdentity_try_from_descriptor_def)
qed

text \<open>Two admitted descriptors with one schema identity are the same version and root, or their
  record bodies are a collision of the hash: the identity separates schemas as well as the hash does.\<close>

lemma schema_identity_separates:
  assumes "try_from_descriptor H s = Inr a" and "try_from_descriptor H t = Inr b"
    and "node_wf (sd_root s)" and "node_wf (sd_root t)" and "ad_identity a = ad_identity b"
  shows "s = t \<or> (drop 1 (ad_encoded_record a) \<noteq> drop 1 (ad_encoded_record b) \<and>
    H (drop 1 (ad_encoded_record a)) = H (drop 1 (ad_encoded_record b)))"
proof -
  from assms(1,2) obtain bs cs where bs: "DescriptorNode_encode (sd_root s) = Inr bs"
    "ad_encoded_record a = 9 # u32_to_le (sd_version s) @ bs" "ad_identity a = H (u32_to_le (sd_version s) @ bs)"
    and cs: "DescriptorNode_encode (sd_root t) = Inr cs"
    "ad_encoded_record b = 9 # u32_to_le (sd_version t) @ cs" "ad_identity b = H (u32_to_le (sd_version t) @ cs)"
    by (auto simp: try_from_descriptor_eq_Inr)
  have "s = t" if "u32_to_le (sd_version s) @ bs = u32_to_le (sd_version t) @ cs"
    using SchemaDescriptor_decode_encode [OF assms(3) bs(1), of "[]"] that
      SchemaDescriptor_decode_encode [OF assms(4) cs(1), of "[]"] by simp
  then show ?thesis using assms(5) bs cs by auto
qed

section \<open>Hexadecimal text\<close>

lemma length_to_hex: "length (to_hex bs) = 2 * length bs"
  by (induction bs) (simp_all add: to_hex_def)

lemma hex_char_inject: "i < 16 \<Longrightarrow> j < 16 \<Longrightarrow> hex_char i = hex_char j \<Longrightarrow> i = j"
proof -
  have d: "distinct ''0123456789abcdef''" and l: "length ''0123456789abcdef'' = 16" by simp_all
  assume "i < 16" "j < 16" "hex_char i = hex_char j"
  then show "i = j" using nth_eq_iff_index_eq [OF d, of i j] l by (simp add: hex_char_def del: nth_Cons_numeral)
qed

lemma hex_byte_inject:
  assumes "hex_char (unat (a :: byte) div 16) = hex_char (unat (b :: byte) div 16)"
    and "hex_char (unat a mod 16) = hex_char (unat b mod 16)"
  shows "a = b"
proof -
  have "unat a < 256" "unat b < 256" using unat_word_less [of a] unat_word_less [of b] by simp_all
  then have "unat a div 16 = unat b div 16" "unat a mod 16 = unat b mod 16"
    using assms hex_char_inject by auto
  then have "unat a = unat b" by (metis div_mult_mod_eq)
  then show ?thesis by (simp add: word_unat_eq_iff)
qed

text \<open>The hexadecimal rendering of an identity has two characters per byte and determines the
  identity.\<close>

lemma to_hex_faithful: "length (to_hex bs) = 2 * length bs \<and> (to_hex bs = to_hex cs \<longleftrightarrow> bs = cs)"
proof -
  have "to_hex bs = to_hex cs \<Longrightarrow> bs = cs"
  proof (induction bs arbitrary: cs)
    case Nil
    then show ?case by (cases cs) (simp_all add: to_hex_def)
  next
    case (Cons b bs)
    then obtain c cs' where cs: "cs = c # cs'" by (cases cs) (simp_all add: to_hex_def)
    with Cons.prems have "to_hex bs = to_hex cs'" and "b = c"
      using hex_byte_inject [of b c] by (simp_all add: to_hex_def)
    with Cons.IH cs show ?case by simp
  qed
  then show ?thesis using length_to_hex by blast
qed

end
