(* ===== verification/Meta_File.thy ===== *)
theory Meta_File
  imports Container Ownership_Records Schema_Descriptor
begin

text \<open>
  The ownership file (\<open>.meta\<close>) of \<open>file.rs\<close>: reading all its records back into \<open>MetaRecords\<close>, appending
  one record, and the length calculation for claims. What the operating system answers is an input:
  \<open>MetaRead\<close> says whether the file exists and opens and what reading it gives; \<open>MetaWrite\<close> whether it
  opens for append, how many bytes of a failing write reach the file, and whether the sync succeeds.
\<close>

record MetaRecords =
  mr_latest_claim :: "OwnershipClaimRecord option"
  mr_schema_descriptor :: "SchemaDescriptor option"
  mr_outbound_pointer :: "OutboundPointerRecord option"
  mr_inbound_pointer :: "InboundPointerRecord option"
  mr_migration_start :: "MigrationStartRecord option"
  mr_migration_end :: "MigrationEndRecord option"
  mr_rescue_policy_choice :: "RescuePolicyChoiceRecord option"

definition MetaRecords_default :: MetaRecords where
  "MetaRecords_default = \<lparr>mr_latest_claim = None, mr_schema_descriptor = None, mr_outbound_pointer = None,
     mr_inbound_pointer = None, mr_migration_start = None, mr_migration_end = None,
     mr_rescue_policy_choice = None\<rparr>"

text \<open>The match on one decoded record.\<close>

fun apply_meta_record :: "MetaRecords \<Rightarrow> OwnershipRecord \<Rightarrow> MetaRecords operation" where
  "apply_meta_record records (OwnershipClaim claim) = Inr (records\<lparr>mr_latest_claim := Some claim\<rparr>)"
| "apply_meta_record records (SchemaDescriptor_record schema_version desc_bytes) =
    result_bind (map_err (\<lambda>_. OwnershipRecordUnreadable) (DescriptorNode_decode desc_bytes))
      (\<lambda>(root, consumed_desc).
        if consumed_desc \<noteq> length desc_bytes then Inl OwnershipRecordUnreadable
        else
          (let new_desc = \<lparr>sd_version = schema_version, sd_root = root\<rparr> in
           case mr_schema_descriptor records of
             Some existing \<Rightarrow> if existing \<noteq> new_desc then Inl OwnershipRecordUnreadable else Inr records
           | None \<Rightarrow> Inr (records\<lparr>mr_schema_descriptor := Some new_desc\<rparr>)))"
| "apply_meta_record records (OutboundPointer p) = Inr (records\<lparr>mr_outbound_pointer := Some p\<rparr>)"
| "apply_meta_record records (InboundPointer p) = Inr (records\<lparr>mr_inbound_pointer := Some p\<rparr>)"
| "apply_meta_record records (MigrationStart ms) = Inr (records\<lparr>mr_migration_start := Some ms\<rparr>)"
| "apply_meta_record records (MigrationEnd me) = Inr (records\<lparr>mr_migration_end := Some me\<rparr>)"
| "apply_meta_record records (RescuePolicyChoice r) = Inr (records\<lparr>mr_rescue_policy_choice := Some r\<rparr>)"
| "apply_meta_record records (CleanRelease _) = Inr records"
| "apply_meta_record records (IdentityStructure _) = Inr records"

fun read_meta_frames :: "MetaRecords \<Rightarrow> bytes list \<Rightarrow> MetaRecords operation" where
  "read_meta_frames records [] = Inr records"
| "read_meta_frames records (frame # rest) =
    result_bind (map_err (\<lambda>_. OwnershipRecordUnreadable) (OwnershipRecord_decode frame)) (\<lambda>(record, consumed).
      if consumed \<noteq> length frame then Inl OwnershipRecordUnreadable
      else result_bind (apply_meta_record records record) (\<lambda>records'. read_meta_frames records' rest))"

record MetaRead =
  mi_exists :: bool
  mi_open_ok :: bool
  mi_read :: FileRead

definition read_meta_records :: "crc32c \<Rightarrow> MetaRead \<Rightarrow> MetaRecords operation" where
  "read_meta_records crc io =
    (if \<not> mi_exists io then Inr MetaRecords_default
     else if \<not> mi_open_ok io then Inl OwnershipRecordUnreadable
     else result_bind (map_err (\<lambda>_. OwnershipRecordUnreadable) (read_container_frames crc (mi_read io))) (\<lambda>scan.
       if cs_tail_state scan \<noteq> Clean then Inl OwnershipRecordUnreadable
       else if ch_format_version (cs_header scan) \<noteq> CONTAINER_FORMAT_VERSION then Inl OwnershipRecordUnreadable
       else read_meta_frames MetaRecords_default (cs_frames scan)))"

datatype MetaWriteError = Open failure_condition | WriteOrSync failure_condition

fun into_failure :: "MetaWriteError \<Rightarrow> failure_condition" where
  "into_failure (Open f) = f"
| "into_failure (WriteOrSync f) = f"

text \<open>\<open>mw_written\<close>: \<open>None\<close> when \<open>write_all\<close> succeeds, \<open>Some k\<close> when it fails after \<open>k\<close> bytes. The
  result is paired with the content the file is left with; \<open>None\<close> is the panic of \<open>OwnershipRecord::encode\<close>.\<close>

record MetaWrite =
  mw_open_ok :: bool
  mw_written :: "nat option"
  mw_sync_ok :: bool

definition append_meta_record_impl :: "crc32c \<Rightarrow> MetaWrite \<Rightarrow> bytes \<Rightarrow> OwnershipRecord \<Rightarrow> bool \<Rightarrow> bool \<Rightarrow>
    (MetaWriteError + unit) option \<times> bytes" where
  "append_meta_record_impl crc io content record simulate_write_error simulate_sync_error =
    (if \<not> mw_open_ok io then (Some (Inl (Open OwnershipRecordUnreadable)), content)
     else
       (case OwnershipRecord_encode record of
          None \<Rightarrow> (None, content)
        | Some rec_buf \<Rightarrow>
            (case try_encode_payload crc rec_buf of
               Inl _ \<Rightarrow> (Some (Inl (WriteOrSync (ValueConstraintViolated_fc TooLong))), content)
             | Inr frame_buf \<Rightarrow>
                 if simulate_write_error then (Some (Inl (WriteOrSync OwnershipRecordUnreadable)), content)
                 else
                   (case mw_written io of
                      Some k \<Rightarrow> (Some (Inl (WriteOrSync OwnershipRecordUnreadable)), content @ take k frame_buf)
                    | None \<Rightarrow>
                        if simulate_sync_error \<or> \<not> mw_sync_ok io
                        then (Some (Inl (WriteOrSync OwnershipRecordUnreadable)), content @ frame_buf)
                        else (Some (Inr ()), content @ frame_buf)))))"

definition append_meta_record :: "crc32c \<Rightarrow> MetaWrite \<Rightarrow> bytes \<Rightarrow> OwnershipRecord \<Rightarrow>
    (MetaWriteError + unit) option \<times> bytes" where
  "append_meta_record crc io content record = append_meta_record_impl crc io content record False False"

definition compute_claim_wire_len_bounded :: "nat \<Rightarrow> nat \<Rightarrow> u32 operation" where
  "compute_claim_wire_len_bounded label_len max_wire_len =
    result_bind (ok_or (ValueConstraintViolated_fc TooLong) (checked_add 69 label_len)) (\<lambda>wire_total.
      if wire_total > max_wire_len then Inl (ValueConstraintViolated_fc TooLong)
      else ok_or (ValueConstraintViolated_fc TooLong) (u32_try_from wire_total))"

definition compute_claim_wire_len :: "nat \<Rightarrow> u32 operation" where
  "compute_claim_wire_len label_len = compute_claim_wire_len_bounded label_len U32_MAX"

section \<open>Reading what was appended\<close>

definition meta_read :: "bytes \<Rightarrow> MetaRead" where
  "meta_read content = \<lparr>mi_exists = True, mi_open_ok = True, mi_read = file_read content\<rparr>"

lemma read_meta_frames_append:
  "read_meta_frames r (xs @ ys) = result_bind (read_meta_frames r xs) (\<lambda>r'. read_meta_frames r' ys)"
proof (induction xs arbitrary: r)
  case Nil
  then show ?case by simp
next
  case (Cons f xs)
  then show ?case
    by (cases "OwnershipRecord_decode f"; cases "apply_meta_record r (fst (projr (OwnershipRecord_decode f)))") auto
qed

lemma read_meta_whole:
  assumes "list_all (\<lambda>p. length p \<le> U32_MAX) frames" and "length (container_bytes crc frames) \<le> USIZE_MAX"
  shows "read_meta_records crc (meta_read (container_bytes crc frames)) = read_meta_frames MetaRecords_default frames"
  using whole_container [OF assms] by (simp add: read_meta_records_def meta_read_def ContainerHeader_new_def)

lemma read_meta_records_frames:
  assumes "read_meta_records crc (meta_read content) = Inr r" and "length content \<le> USIZE_MAX"
  obtains frames where "content = container_bytes crc frames" and "list_all (\<lambda>p. length p \<le> U32_MAX) frames"
    and "read_meta_frames MetaRecords_default frames = Inr r"
proof -
  from assms(1) obtain s where s: "read_container_frames crc (file_read content) = Inr s" "cs_tail_state s = Clean"
    "read_meta_frames MetaRecords_default (cs_frames s) = Inr r"
    by (auto simp: read_meta_records_def meta_read_def result_simps split: if_splits)
  from that clean_scan [OF s(1) assms(2) s(2)] s(3) show thesis by blast
qed

lemma read_meta_frames_record:
  assumes "OwnershipRecord_wf record" and "OwnershipRecord_encode record = Some bs"
  shows "read_meta_frames r [bs] = apply_meta_record r record"
proof -
  have "OwnershipRecord_decode bs = Inr (record, length bs)"
    using ownership_record_decode_encode [OF assms(1), of "[]"] assms(2) by simp
  then show ?thesis by (cases "apply_meta_record r record") simp_all
qed

text \<open>A write that stops inside the frame leaves a torn tail, which reading refuses.\<close>

lemma read_meta_torn:
  assumes "list_all (\<lambda>p. length p \<le> U32_MAX) (pl # frames)" and "0 < k" and "k < length (frame_bytes crc pl)"
    and "length (container_bytes crc frames) + k \<le> USIZE_MAX"
  shows "read_meta_records crc (meta_read (container_bytes crc frames @ take k (frame_bytes crc pl))) =
    Inl OwnershipRecordUnreadable"
  using torn_container [OF assms(1,3,4)] assms(2) by (simp add: read_meta_records_def meta_read_def)

text \<open>What is read after \<open>k\<close> bytes of a record's frame have reached a readable file.\<close>

lemma read_meta_after_write:
  assumes "read_meta_records crc (meta_read content) = Inr r" and "OwnershipRecord_wf record"
    and "OwnershipRecord_encode record = Some bs" and "length bs \<le> U32_MAX"
    and "length (content @ take k (frame_bytes crc bs)) \<le> USIZE_MAX"
  shows "read_meta_records crc (meta_read (content @ take k (frame_bytes crc bs))) =
    (if k = 0 then Inr r else if k < length (frame_bytes crc bs) then Inl OwnershipRecordUnreadable
     else apply_meta_record r record)"
proof -
  have "length content \<le> USIZE_MAX" using assms(5) by simp
  from read_meta_records_frames [OF assms(1) this] obtain frames where
    f: "content = container_bytes crc frames" "list_all (\<lambda>p. length p \<le> U32_MAX) frames"
      "read_meta_frames MetaRecords_default frames = Inr r" .
  consider "k = 0" | "0 < k" "k < length (frame_bytes crc bs)" | "length (frame_bytes crc bs) \<le> k" by linarith
  then show ?thesis
  proof cases
    case 1
    then show ?thesis using assms(1) by simp
  next
    case 2
    then show ?thesis using read_meta_torn [of bs frames k crc] f assms(4,5) by simp
  next
    case 3
    then have "content @ take k (frame_bytes crc bs) = container_bytes crc (frames @ [bs])"
      by (simp add: f(1) container_bytes_snoc)
    moreover from this have "read_meta_records crc (meta_read (container_bytes crc (frames @ [bs]))) =
        read_meta_frames MetaRecords_default (frames @ [bs])"
      using f(2) assms(4,5) by (intro read_meta_whole) simp_all
    ultimately show ?thesis
      using 3 f(3) read_meta_frames_record [OF assms(2,3)] by (auto simp: read_meta_frames_append)
  qed
qed

section \<open>Properties\<close>

text \<open>C31: appending to a readable ownership file. Whatever happens, the file keeps its bytes and gains a beginning of the
  frame of the encoded record, which decodes to that record; on success it gains the whole frame. After a success
  reading gives what \<open>apply_meta_record\<close> makes of the former summary and the record: a claim, a pointer, a migration
  mark or a rescue policy replaces the former one, clean releases and identity structures are stored but not part of
  the summary, and a schema descriptor that does not decode or differs from the recorded one makes the file
  unreadable. After a failure the file reads as before, as if the append had succeeded, or is refused as unreadable.\<close>

theorem meta_append_atomic:
  assumes "read_meta_records crc (meta_read content) = Inr r" and "OwnershipRecord_wf record"
    and "append_meta_record crc io content record = (Some res, content')" and "length content' \<le> USIZE_MAX"
  shows "\<exists>bs k. OwnershipRecord_decode bs = Inr (record, length bs) \<and> content' = content @ take k (frame_bytes crc bs) \<and>
    (res = Inr () \<longrightarrow> k = length (frame_bytes crc bs) \<and>
       read_meta_records crc (meta_read content') = apply_meta_record r record) \<and>
    (read_meta_records crc (meta_read content') = Inr r \<or>
     read_meta_records crc (meta_read content') = apply_meta_record r record \<or>
     read_meta_records crc (meta_read content') = Inl OwnershipRecordUnreadable)"
proof -
  obtain bs where bs: "OwnershipRecord_encode record = Some bs"
    using ownership_record_decode_encode [OF assms(2), of "[]"] by auto
  then have dec: "OwnershipRecord_decode bs = Inr (record, length bs)"
    using ownership_record_decode_encode [OF assms(2), of "[]"] by simp
  have frame: "length bs \<le> U32_MAX" if "try_encode_payload crc bs = Inr fb" for fb
    using that by (simp add: try_encode_payload_eq_Inr)
  have "content' = content @ take 0 (frame_bytes crc bs) \<and> res \<noteq> Inr () \<or>
      (\<exists>k. content' = content @ take k (frame_bytes crc bs) \<and> length bs \<le> U32_MAX \<and>
        (res = Inr () \<longrightarrow> k = length (frame_bytes crc bs)))"
    using assms(3) bs frame
    by (auto simp: append_meta_record_def append_meta_record_impl_def try_encode_payload_eq_Inr
        split: if_splits sum.splits option.splits intro: exI [of _ "length (frame_bytes crc bs)"])
  then consider (before) "content' = content @ take 0 (frame_bytes crc bs)" "res \<noteq> Inr ()"
    | (written) k where "content' = content @ take k (frame_bytes crc bs)" "length bs \<le> U32_MAX"
      "res = Inr () \<longrightarrow> k = length (frame_bytes crc bs)" by blast
  then show ?thesis
  proof cases
    case before
    then show ?thesis using assms(1) dec by (intro exI [of _ bs] exI [of _ 0]) simp
  next
    case (written k)
    from read_meta_after_write [OF assms(1,2) bs written(2), of k] assms(4) written dec show ?thesis
      by (intro exI [of _ bs] exI [of _ k]) (auto simp: written(1) simp del: length_frame_bytes split: if_splits)
  qed
qed

text \<open>An empty readable ownership file, and a claim appended to it.\<close>

lemma meta_read_empty: "read_meta_records crc (meta_read (container_bytes crc [])) = Inr MetaRecords_default"
  using read_meta_whole [of "[]" crc] by (simp add: container_bytes_def ContainerHeader_to_bytes_def USIZE_bound)

definition first_claim :: OwnershipClaimRecord where
  "first_claim = \<lparr>claim_epoch = 1, claim_machine_id = replicate 16 0, claim_boot_id = replicate 16 0,
     claim_process_id = 0, claim_process_start_time_ns = 0, claim_time_ns = 0, claim_operator_label = []\<rparr>"

theorem meta_append_atomic_witness:
  "\<exists>content'. append_meta_record (\<lambda>b. 0) \<lparr>mw_open_ok = True, mw_written = None, mw_sync_ok = True\<rparr>
      (container_bytes (\<lambda>b. 0) []) (OwnershipClaim first_claim) = (Some (Inr ()), content') \<and>
    read_meta_records (\<lambda>b. 0) (meta_read content') = Inr (MetaRecords_default\<lparr>mr_latest_claim := Some first_claim\<rparr>)"
proof -
  obtain bs where bs: "OwnershipRecord_encode (OwnershipClaim first_claim) = Some bs" "length bs = 69"
    by (simp add: first_claim_def OwnershipRecord_encode_def u32_try_from_def U32_bound)
  let ?c = "container_bytes (\<lambda>b. 0) [] @ frame_bytes (\<lambda>b. 0) bs"
  have "append_meta_record (\<lambda>b. 0) \<lparr>mw_open_ok = True, mw_written = None, mw_sync_ok = True\<rparr>
      (container_bytes (\<lambda>b. 0) []) (OwnershipClaim first_claim) = (Some (Inr ()), ?c)"
    using bs by (simp add: append_meta_record_def append_meta_record_impl_def try_encode_payload_def u32_try_from_def
        U32_bound frame_bytes_def)
  with meta_append_atomic [OF meta_read_empty _ this] bs(2) show ?thesis
    by (auto simp: first_claim_def USIZE_bound container_bytes_def ContainerHeader_to_bytes_def)
qed

text \<open>The length computed for a claim is the length of its encoding: the calculation succeeds exactly
  when the encoded claim exists and fits a frame, and returns its size.\<close>

lemma claim_wire_len_exact:
  assumes "length (claim_machine_id c) = 16" and "length (claim_boot_id c) = 16"
  shows "compute_claim_wire_len (length (claim_operator_label c)) = Inr n \<longleftrightarrow>
    (\<exists>bs. OwnershipRecord_encode (OwnershipClaim c) = Some bs \<and> length bs \<le> U32_MAX \<and> n = of_nat (length bs))"
  using assms
  by (auto simp: compute_claim_wire_len_def compute_claim_wire_len_bounded_def OwnershipRecord_encode_def
      result_simps U32_bound USIZE_bound)

end
