(* ===== verification/Fiber_State.thy ===== *)
theory Fiber_State
  imports Envelope
begin

text \<open>
  The fiber lifecycle of \<open>store.rs\<close>: the five states, the attempted transitions, the transition
  function \<open>apply_action\<close> with its five public entry points, \<open>rescue_locked\<close>, and the boundary
  check applied when a store is reopened. The documented lifecycle is an inductive relation and
  the code is shown to implement exactly it.
\<close>

datatype FiberState = Undefined | Defined | Detached | Purged | Locked

datatype FiberMigrationPolicy = Keep | Purge | LockAndPrune

datatype LockedRescuePolicy = PreserveAuditTrail | AcceptDataLoss

datatype AttemptedTransition = Create | Update | Detach | Rescue | Migrate FiberMigrationPolicy

record IllegalStateTransition =
  ist_from :: FiberState
  ist_attempted :: AttemptedTransition

definition apply_action :: "FiberState \<Rightarrow> AttemptedTransition \<Rightarrow> IllegalStateTransition + FiberState" where
  "apply_action st action =
    (case (st, action) of
       (Defined, Detach) \<Rightarrow> Inr Detached
     | (Detached, Migrate Keep) \<Rightarrow> Inr Detached
     | (Detached, Migrate LockAndPrune) \<Rightarrow> Inr Locked
     | (Detached, Migrate Purge) \<Rightarrow> Inr Purged
     | (Locked, Migrate Purge) \<Rightarrow> Inr Purged
     | (Undefined, Create) \<Rightarrow> Inr Defined
     | (Purged, Create) \<Rightarrow> Inr Defined
     | (Defined, Update) \<Rightarrow> Inr Defined
     | (Detached, Rescue) \<Rightarrow> Inr Defined
     | (Locked, Rescue) \<Rightarrow> Inr Defined
     | _ \<Rightarrow> Inl \<lparr>ist_from = st, ist_attempted = action\<rparr>)"

definition FiberState_create :: "FiberState \<Rightarrow> IllegalStateTransition + FiberState" where
  "FiberState_create st = apply_action st Create"

definition update :: "FiberState \<Rightarrow> IllegalStateTransition + FiberState" where
  "update st = apply_action st Update"

definition detach :: "FiberState \<Rightarrow> IllegalStateTransition + FiberState" where
  "detach st = apply_action st Detach"

definition rescue :: "FiberState \<Rightarrow> IllegalStateTransition + FiberState" where
  "rescue st = apply_action st Rescue"

definition migrate :: "FiberState \<Rightarrow> FiberMigrationPolicy \<Rightarrow> IllegalStateTransition + FiberState" where
  "migrate st policy = apply_action st (Migrate policy)"

definition rescue_locked :: "FiberState \<Rightarrow> LockedRescuePolicy \<Rightarrow> IllegalStateTransition + FiberState" where
  "rescue_locked st policy =
    (case st of
       Locked \<Rightarrow> Inr Defined
     | _ \<Rightarrow> Inl \<lparr>ist_from = st, ist_attempted = Rescue\<rparr>)"

fun is_reopened_valid :: "FiberState \<Rightarrow> bool" where
  "is_reopened_valid Locked = False"
| "is_reopened_valid _ = True"

section \<open>Reopening a store\<close>

datatype ReopenedFiberState = R_Undefined | R_Defined | R_Detached | R_Purged

fun to_fiber_state :: "ReopenedFiberState \<Rightarrow> FiberState" where
  "to_fiber_state R_Undefined = Undefined"
| "to_fiber_state R_Defined = Defined"
| "to_fiber_state R_Detached = Detached"
| "to_fiber_state R_Purged = Purged"

datatype MigrationMode = Steady | Migrating

datatype IllegalOpenCombination =
    UnownedMustHaveUnknownGeneration
  | UnknownGenerationCannotBeCurrent
  | UnownedCannotHoldAppendAuthority
  | LockedStateOnReopen
  | MigratingModeOnReopen
  | RemovedIdentitiesOnReopen

record ReopenedStoreBoundary =
  rsb_fiber_states :: "(bytes \<times> ReopenedFiberState) list"
  rsb_mode :: MigrationMode

fun reopen_states :: "(bytes \<times> FiberState) list \<Rightarrow> IllegalOpenCombination + (bytes \<times> ReopenedFiberState) list" where
  "reopen_states [] = Inr []"
| "reopen_states ((fid, st) # rest) =
    result_bind
      (case st of
         Locked \<Rightarrow> Inl LockedStateOnReopen
       | Undefined \<Rightarrow> Inr R_Undefined
       | Defined \<Rightarrow> Inr R_Defined
       | Detached \<Rightarrow> Inr R_Detached
       | Purged \<Rightarrow> Inr R_Purged)
      (\<lambda>r. result_bind (reopen_states rest) (\<lambda>rs. Inr ((fid, r) # rs)))"

definition ReopenedStoreBoundary_validate ::
    "(bytes \<times> FiberState) list \<Rightarrow> MigrationMode \<Rightarrow> bytes list \<Rightarrow> IllegalOpenCombination + ReopenedStoreBoundary" where
  "ReopenedStoreBoundary_validate raw_fiber_states mode removed_fiber_identities =
    (if mode = Migrating then Inl MigratingModeOnReopen
     else if removed_fiber_identities \<noteq> [] then Inl RemovedIdentitiesOnReopen
     else result_bind (reopen_states raw_fiber_states)
       (\<lambda>sts. Inr \<lparr>rsb_fiber_states = sts, rsb_mode = Steady\<rparr>))"

section \<open>The documented lifecycle\<close>

inductive lifecycle :: "FiberState \<Rightarrow> AttemptedTransition \<Rightarrow> FiberState \<Rightarrow> bool" where
  created: "st = Undefined \<or> st = Purged \<Longrightarrow> lifecycle st Create Defined"
| updated: "lifecycle Defined Update Defined"
| detached: "lifecycle Defined Detach Detached"
| rescued: "st = Detached \<or> st = Locked \<Longrightarrow> lifecycle st Rescue Defined"
| kept: "lifecycle Detached (Migrate Keep) Detached"
| purged: "st = Detached \<or> st = Locked \<Longrightarrow> lifecycle st (Migrate Purge) Purged"
| locked: "lifecycle Detached (Migrate LockAndPrune) Locked"

inductive_cases lifecycle_lockedE: "lifecycle st a Locked"
inductive_cases lifecycle_undefinedE: "lifecycle st a Undefined"

inductive lifecycles :: "FiberState \<Rightarrow> AttemptedTransition list \<Rightarrow> FiberState \<Rightarrow> bool" where
  none: "lifecycles st [] st"
| step: "lifecycles st acts mid \<Longrightarrow> lifecycle mid a fin \<Longrightarrow> lifecycles st (acts @ [a]) fin"

lemma apply_action_lifecycle: "apply_action st a = Inr st' \<longleftrightarrow> lifecycle st a st'"
proof
  assume "apply_action st a = Inr st'"
  then show "lifecycle st a st'"
    by (auto simp: apply_action_def lifecycle.simps
        split: FiberState.splits AttemptedTransition.splits FiberMigrationPolicy.splits)
next
  assume "lifecycle st a st'"
  then show "apply_action st a = Inr st'" by cases (auto simp: apply_action_def)
qed

lemma apply_action_error: "apply_action st a = Inl e \<Longrightarrow> e = \<lparr>ist_from = st, ist_attempted = a\<rparr>"
  by (auto simp: apply_action_def
      split: FiberState.splits AttemptedTransition.splits FiberMigrationPolicy.splits)

text \<open>The public entry points, one per transition.\<close>

fun attempt :: "FiberState \<Rightarrow> AttemptedTransition \<Rightarrow> IllegalStateTransition + FiberState" where
  "attempt st Create = FiberState_create st"
| "attempt st Update = update st"
| "attempt st Detach = detach st"
| "attempt st Rescue = rescue st"
| "attempt st (Migrate policy) = migrate st policy"

lemma attempt_applies: "attempt st a = apply_action st a"
  by (cases a) (simp_all add: FiberState_create_def update_def detach_def rescue_def migrate_def)

text \<open>Running a sequence of actions through the entry points.\<close>

fun run_actions :: "FiberState \<Rightarrow> AttemptedTransition list \<Rightarrow> IllegalStateTransition + FiberState" where
  "run_actions st [] = Inr st"
| "run_actions st (a # acts) = result_bind (attempt st a) (\<lambda>st'. run_actions st' acts)"

lemma run_actions_append:
  "run_actions st (xs @ ys) = result_bind (run_actions st xs) (\<lambda>mid. run_actions mid ys)"
proof (induction xs arbitrary: st)
  case Nil
  then show ?case by simp
next
  case (Cons a xs)
  then show ?case by (cases "attempt st a") simp_all
qed

lemma run_actions_lifecycles: "run_actions st acts = Inr fin \<longleftrightarrow> lifecycles st acts fin"
proof
  show "run_actions st acts = Inr fin \<Longrightarrow> lifecycles st acts fin"
  proof (induction acts arbitrary: fin rule: rev_induct)
    case Nil
    then show ?case by (simp add: lifecycles.none)
  next
    case (snoc a acts)
    then obtain mid where "run_actions st acts = Inr mid" "apply_action mid a = Inr fin"
      by (auto simp: run_actions_append result_simps attempt_applies)
    with snoc.IH show ?case using lifecycles.step apply_action_lifecycle by blast
  qed
  show "lifecycles st acts fin \<Longrightarrow> run_actions st acts = Inr fin"
    by (induction rule: lifecycles.induct) (simp_all add: run_actions_append attempt_applies apply_action_lifecycle [symmetric])
qed

lemma lifecycles_locked:
  "lifecycles st acts fin \<Longrightarrow> fin = Locked \<Longrightarrow> st = Locked \<or> Migrate LockAndPrune \<in> set acts"
  by (induction rule: lifecycles.induct) (auto elim: lifecycle_lockedE)

lemma lifecycles_undefined: "lifecycles st acts fin \<Longrightarrow> fin = Undefined \<Longrightarrow> acts = [] \<and> st = Undefined"
  by (induction rule: lifecycles.induct) (auto elim: lifecycle_undefinedE)

lemma attempt_refused: "attempt st a = Inl e \<longleftrightarrow> e = \<lparr>ist_from = st, ist_attempted = a\<rparr> \<and> \<not> (\<exists>st'. lifecycle st a st')"
  using apply_action_error [of st a] apply_action_lifecycle [of st a] by (cases "apply_action st a") (auto simp: attempt_applies)

text \<open>C27: a sequence of calls of the entry points succeeds exactly along the documented lifecycle, state after state;
  a refused call reports the state it was attempted in and the transition; rescuing a locked fiber under a policy is
  the rescue of the lifecycle, and it is refused for fibers that are not locked.\<close>

theorem lifecycle_refinement:
  "(run_actions st acts = Inr fin \<longleftrightarrow> lifecycles st acts fin) \<and>
   (\<forall>a e. attempt st a = Inl e \<longleftrightarrow> e = \<lparr>ist_from = st, ist_attempted = a\<rparr> \<and> \<not> (\<exists>st'. lifecycle st a st')) \<and>
   (rescue_locked st policy = Inr fin \<longleftrightarrow> st = Locked \<and> lifecycle st Rescue fin)"
proof -
  have "rescue_locked st policy = Inr fin \<longleftrightarrow> st = Locked \<and> lifecycle st Rescue fin"
    by (cases st) (auto simp: rescue_locked_def lifecycle.simps)
  then show ?thesis using run_actions_lifecycles attempt_refused by blast
qed

text \<open>A fiber that starts out undefined is locked only after a lock-and-prune migration, and once
  any action has succeeded its identifier never counts as undefined again.\<close>

lemma lifecycle_safety:
  assumes "run_actions Undefined acts = Inr fin" and "acts \<noteq> []"
  shows "(fin = Locked \<longrightarrow> Migrate LockAndPrune \<in> set acts) \<and> fin \<noteq> Undefined"
  using assms lifecycles_locked lifecycles_undefined by (auto simp: run_actions_lifecycles)

section \<open>Reopening\<close>

lemma reopen_states_eq_Inr:
  "reopen_states raw = Inr sts \<longleftrightarrow>
    (\<forall>p\<in>set raw. is_reopened_valid (snd p)) \<and> raw = map (\<lambda>(i, s). (i, to_fiber_state s)) sts"
proof (induction raw arbitrary: sts)
  case Nil
  then show ?case by auto
next
  case (Cons p raw)
  then show ?case
    by (cases p; cases sts; cases "snd p"; cases "snd (hd sts)") (auto simp: result_simps)
qed

text \<open>Reopening is admitted exactly when the mode is steady, no identity was removed and no fiber
  is locked; the boundary then lists the very states given, in order, and its mode is steady.\<close>

lemma reopen_boundary_iff:
  "ReopenedStoreBoundary_validate raw mode removed = Inr b \<longleftrightarrow>
    mode = Steady \<and> removed = [] \<and> list_all (\<lambda>p. is_reopened_valid (snd p)) raw \<and>
    raw = map (\<lambda>(i, s). (i, to_fiber_state s)) (rsb_fiber_states b) \<and> rsb_mode b = Steady"
  by (cases b; cases mode)
    (auto simp: ReopenedStoreBoundary_validate_def result_simps reopen_states_eq_Inr list_all_iff)

end
