(* ===== verification/Admission.thy ===== *)
theory Admission
  imports Fiber_State Ownership_Records Schema_Descriptor Event_Log
begin

text \<open>
  The decisions of \<open>store.rs\<close> that admit or refuse access to an artefact: qualified open results,
  epoch fencing, compare-and-set claims, takeover, ordered creation, open admission, event admission
  and precursor links. Ownership over time is a relation between recorded ownerships, creation over
  time (with crashes) a relation between storage contents.
\<close>

datatype DeathProof = MachineReboot | ProcessAbsence | ProcessIdReuse

datatype LivenessVerdict = ProvenDead DeathProof | Indeterminate_liveness

record CleanReleaseProof =
  crp_epoch :: u64
  crp_release_time_ns :: u64

datatype 'a WriteLandingVerdict = Landed 'a | Undetermined u64

section \<open>Qualified open results\<close>

datatype OwnershipStatus = Owned_status u64 | Unowned_status
datatype GenerationKnowledge = Known_generation u32 | Unknown_generation
datatype SupersessionStatus = Current | Superseded "u32 option" | Unknown_supersession
datatype MigrationDisagreement = No_disagreement | OutboundWithoutInbound | InboundWithoutOutbound
datatype HistoryIntegrity = Unanchored | Anchored
datatype MigrationCompleteness = KnownComplete | KnownIncomplete | Unknown_completeness
datatype AppendAuthority = HoldsAuthority | HeldByGeneration u32 | Unknown_authority

record QualifiedOpenResult =
  q_ownership :: OwnershipStatus
  q_generation :: GenerationKnowledge
  q_supersession :: SupersessionStatus
  q_migration_disagreement :: MigrationDisagreement
  q_history_integrity :: HistoryIntegrity
  q_migration_completeness :: MigrationCompleteness
  q_append_authority :: AppendAuthority

definition orphan_read :: QualifiedOpenResult where
  "orphan_read = \<lparr>q_ownership = Unowned_status, q_generation = Unknown_generation,
     q_supersession = Unknown_supersession, q_migration_disagreement = No_disagreement,
     q_history_integrity = Unanchored, q_migration_completeness = Unknown_completeness,
     q_append_authority = Unknown_authority\<rparr>"

text \<open>The builder holds the same seven facts; \<open>build\<close> checks their combination, first match first.\<close>

definition QualifiedOpenResultBuilder_default :: QualifiedOpenResult where
  "QualifiedOpenResultBuilder_default = \<lparr>q_ownership = Unowned_status, q_generation = Unknown_generation,
     q_supersession = Unknown_supersession, q_migration_disagreement = No_disagreement,
     q_history_integrity = Unanchored, q_migration_completeness = Unknown_completeness,
     q_append_authority = Unknown_authority\<rparr>"

definition build :: "QualifiedOpenResult \<Rightarrow> IllegalOpenCombination + QualifiedOpenResult" where
  "build b =
    (case (q_ownership b, q_generation b, q_supersession b, q_append_authority b) of
       (Unowned_status, Known_generation _, _, _) \<Rightarrow> Inl UnownedMustHaveUnknownGeneration
     | (_, Unknown_generation, Current, _) \<Rightarrow> Inl UnknownGenerationCannotBeCurrent
     | (Unowned_status, _, _, HoldsAuthority) \<Rightarrow> Inl UnownedCannotHoldAppendAuthority
     | _ \<Rightarrow> Inr b)"

section \<open>Fencing and claims\<close>

datatype RecordedOwnership = Claimed OwnershipClaimRecord | Unowned | Unreadable | Absent

fun fence_write :: "u64 \<Rightarrow> RecordedOwnership \<Rightarrow> unit operation" where
  "fence_write carried_epoch Unreadable = Inl OwnershipRecordUnreadable"
| "fence_write carried_epoch Absent = Inl OwnershipUnestablished"
| "fence_write carried_epoch Unowned = Inl OwnershipUnestablished"
| "fence_write carried_epoch (Claimed claim) =
    (if carried_epoch = claim_epoch claim then Inr () else Inl StaleEpoch)"

fun evaluate_owner_liveness :: "DeathProof option \<Rightarrow> LivenessVerdict" where
  "evaluate_owner_liveness (Some proof) = ProvenDead proof"
| "evaluate_owner_liveness None = Indeterminate_liveness"

fun evaluate_claim_cas :: "RecordedOwnership \<Rightarrow> u64 option \<Rightarrow> OwnershipClaimRecord \<Rightarrow> u64 operation" where
  "evaluate_claim_cas Unreadable expected_epoch candidate_claim = Inl OwnershipRecordUnreadable"
| "evaluate_claim_cas Absent expected_epoch candidate_claim = Inl OwnershipUnestablished"
| "evaluate_claim_cas Unowned expected_epoch candidate_claim =
    (if expected_epoch = None then Inr (claim_epoch candidate_claim) else Inl ConcurrencyConflict)"
| "evaluate_claim_cas (Claimed existing) expected_epoch candidate_claim =
    (if Some (claim_epoch existing) = expected_epoch \<and> claim_epoch candidate_claim > claim_epoch existing
     then Inr (claim_epoch candidate_claim) else Inl ConcurrencyConflict)"

definition validate_name_pairing :: "bytes \<Rightarrow> bytes \<Rightarrow> unit operation" where
  "validate_name_pairing ownership_record_name event_data_name =
    (if ownership_record_name = event_data_name then Inr () else Inl ArtefactMismatch)"

datatype TakeoverProof = CleanRelease_proof CleanReleaseProof | Death DeathProof

datatype TakeoverVerdict = Proven | Indeterminate_takeover

fun evaluate_takeover :: "OwnershipClaimRecord \<Rightarrow> TakeoverProof option \<Rightarrow> TakeoverVerdict" where
  "evaluate_takeover current_claim (Some (CleanRelease_proof clean)) =
    (if crp_epoch clean \<ge> claim_epoch current_claim then Proven else Indeterminate_takeover)"
| "evaluate_takeover current_claim (Some (Death _)) = Proven"
| "evaluate_takeover current_claim None = Indeterminate_takeover"

section \<open>Creation and open\<close>

datatype ArtefactPresence = Presence_None | OwnershipRecordOnly | EventDataOnly | Both

fun admit_create :: "ArtefactPresence \<Rightarrow> unit operation" where
  "admit_create Presence_None = Inr ()"
| "admit_create Both = Inl StoreAlreadyExists"
| "admit_create OwnershipRecordOnly = Inl StoreAlreadyExists"
| "admit_create EventDataOnly = Inl StoreAlreadyExists"

datatype IncompleteCreationState = Unseeded | Claimed_incomplete OwnershipClaimRecord

datatype CreationProgression =
    UnseededOwnershipRecordCreated
  | OwnershipClaimSeeded OwnershipClaimRecord
  | Complete

fun presence :: "CreationProgression \<Rightarrow> ArtefactPresence" where
  "presence UnseededOwnershipRecordCreated = OwnershipRecordOnly"
| "presence (OwnershipClaimSeeded _) = OwnershipRecordOnly"
| "presence Complete = Both"

fun CreationProgression_from :: "IncompleteCreationState \<Rightarrow> CreationProgression" where
  "CreationProgression_from Unseeded = UnseededOwnershipRecordCreated"
| "CreationProgression_from (Claimed_incomplete claim) = OwnershipClaimSeeded claim"

definition begin_creation :: "ArtefactPresence \<Rightarrow> CreationProgression operation" where
  "begin_creation p = result_bind (admit_create p) (\<lambda>_. Inr UnseededOwnershipRecordCreated)"

fun seed_claim :: "CreationProgression \<Rightarrow> OwnershipClaimRecord \<Rightarrow> CreationProgression operation" where
  "seed_claim UnseededOwnershipRecordCreated claim = Inr (OwnershipClaimSeeded claim)"
| "seed_claim (OwnershipClaimSeeded _) claim = Inl ConcurrencyConflict"
| "seed_claim Complete claim = Inl ConcurrencyConflict"

fun complete_event_data :: "CreationProgression \<Rightarrow> CreationProgression operation" where
  "complete_event_data (OwnershipClaimSeeded _) = Inr Complete"
| "complete_event_data UnseededOwnershipRecordCreated = Inl OwnershipUnestablished"
| "complete_event_data Complete = Inl StoreAlreadyExists"

fun resume_incomplete_creation ::
    "ArtefactPresence \<Rightarrow> OwnershipClaimRecord option \<Rightarrow> IncompleteCreationState operation" where
  "resume_incomplete_creation OwnershipRecordOnly (Some claim) = Inr (Claimed_incomplete claim)"
| "resume_incomplete_creation OwnershipRecordOnly None = Inr Unseeded"
| "resume_incomplete_creation Presence_None claim = Inl NoArtefactExists"
| "resume_incomplete_creation Both claim = Inl StoreAlreadyExists"
| "resume_incomplete_creation EventDataOnly claim = Inl OwnershipUnestablished"

datatype OpenAdmission = Ready | IncompleteCreation IncompleteCreationState | ReadOnlyOrphan

fun admit_open :: "ArtefactPresence \<Rightarrow> OwnershipClaimRecord option \<Rightarrow> bool \<Rightarrow> OpenAdmission operation" where
  "admit_open Presence_None claim write_intent = Inl NoArtefactExists"
| "admit_open EventDataOnly claim write_intent =
    (if write_intent then Inl OwnershipUnestablished else Inr ReadOnlyOrphan)"
| "admit_open OwnershipRecordOnly claim write_intent =
    Inr (IncompleteCreation (case claim of Some c \<Rightarrow> Claimed_incomplete c | None \<Rightarrow> Unseeded))"
| "admit_open Both claim write_intent = Inr Ready"

section \<open>Events and precursor links\<close>

text \<open>Schema and envelope identities are 32-byte values; the diagnostic text of the third mode is not
  read by any branch.\<close>

datatype EventAdmission =
    Event "SchemaDescriptor option" bytes bytes bytes bytes
  | RecordReaderOnly "SchemaDescriptor option" bytes bytes
  | MismatchUndeterminedSubject_admission

fun admit_event :: "EventAdmission \<Rightarrow> unit operation" where
  "admit_event (Event descriptor expected_schema actual_schema expected_envelope actual_envelope) =
    (if descriptor = None then Inl MissingSchemaDescriptor
     else if expected_envelope \<noteq> actual_envelope then Inl EnvelopeMismatch
     else if expected_schema \<noteq> actual_schema then Inl SchemaMismatch
     else Inr ())"
| "admit_event (RecordReaderOnly descriptor expected_envelope actual_envelope) =
    (if descriptor = None then Inl MissingSchemaDescriptor
     else if expected_envelope \<noteq> actual_envelope then Inl EnvelopeMismatch
     else Inr ())"
| "admit_event MismatchUndeterminedSubject_admission = Inl MismatchUndeterminedSubject"

record PrecursorLink =
  pl_envelope :: EventEnvelope
  pl_is_genesis :: bool

definition classify :: "EventEnvelope \<Rightarrow> PrecursorLink operation" where
  "classify envelope =
    (let is_zero_precursor = prec envelope = zero_id; is_zero_hash = prec_hash envelope = zero_hash in
     if is_zero_precursor then
       (if is_zero_hash then Inr \<lparr>pl_envelope = envelope, pl_is_genesis = True\<rparr>
        else Inl (PrecursorChainBroken None))
     else Inr \<lparr>pl_envelope = envelope, pl_is_genesis = False\<rparr>)"

definition admit_precursor_link ::
    "blake3 \<Rightarrow> bytes \<Rightarrow> PrecursorLink \<Rightarrow> (bytes \<Rightarrow> EventEnvelope option) \<Rightarrow> unit operation" where
  "admit_precursor_link H expected_fiber_id link resolve_predecessor =
    (if fid (pl_envelope link) \<noteq> expected_fiber_id then Inl (PrecursorChainBroken (Some PrecursorWrongFiber))
     else if pl_is_genesis link then Inr ()
     else
       (case resolve_predecessor (prec (pl_envelope link)) of
          None \<Rightarrow> Inl (PrecursorChainBroken (Some PrecursorOutOfRange))
        | Some predecessor \<Rightarrow>
            if eid predecessor \<noteq> prec (pl_envelope link)
            then Inl (PrecursorChainBroken (Some PrecursorOutOfRange))
            else if fid predecessor \<noteq> expected_fiber_id
            then Inl (PrecursorChainBroken (Some PrecursorWrongFiber))
            else
              (let computed_hash = compute_envelope_commitment H (env_header predecessor) (env_payload predecessor) in
               if prec_hash (pl_envelope link) \<noteq> computed_hash then Inl (PrecursorChainBroken None)
               else Inr ())))"

section \<open>Ownership over time\<close>

text \<open>A sequence of successful compare-and-set claims, each replacing the recorded claim.\<close>

inductive claim_run :: "RecordedOwnership \<Rightarrow> OwnershipClaimRecord list \<Rightarrow> RecordedOwnership \<Rightarrow> bool" where
  stay: "claim_run r [] r"
| claim: "evaluate_claim_cas r expected c = Inr n \<Longrightarrow> claim_run (Claimed c) cs r' \<Longrightarrow> claim_run r (c # cs) r'"

inductive_cases claim_run_ConsE: "claim_run r (c # cs) r'"
inductive_cases claim_run_NilE: "claim_run r [] r'"

lemma claim_cas_eq_Inr:
  "evaluate_claim_cas r expected c = Inr n \<longleftrightarrow> n = claim_epoch c \<and>
    (r = Unowned \<and> expected = None \<or>
     (\<exists>old. r = Claimed old \<and> expected = Some (claim_epoch old) \<and> claim_epoch old < claim_epoch c))"
  by (cases r) auto

lemma claim_run_last: "claim_run r cs r' \<Longrightarrow> cs \<noteq> [] \<Longrightarrow> r' = Claimed (last cs)"
  by (induction rule: claim_run.induct) (auto elim: claim_run_NilE)

lemma claim_run_increasing:
  "claim_run (Claimed c) cs r' \<Longrightarrow> sorted_wrt (<) (map claim_epoch (c # cs))"
proof (induction cs arbitrary: c)
  case Nil
  then show ?case by simp
next
  case (Cons d cs)
  then have step: "claim_epoch c < claim_epoch d" and run: "claim_run (Claimed d) cs r'"
    by (auto elim!: claim_run_ConsE split: if_splits)
  from Cons.IH [OF run] step show ?case by auto
qed

lemma fence_write_eq_Inr: "fence_write n r = Inr u \<longleftrightarrow> (\<exists>c. r = Claimed c \<and> claim_epoch c = n)"
  by (cases r) auto

section \<open>Creation over time\<close>

text \<open>What storage holds of one artefact, and the process that creates it: the progression it has in
  hand, lost in a crash and recovered from storage by resuming.\<close>

record artefact_storage =
  as_ownership_record :: bool
  as_claim :: "OwnershipClaimRecord option"
  as_event_data :: bool

definition empty_storage :: artefact_storage where
  "empty_storage = \<lparr>as_ownership_record = False, as_claim = None, as_event_data = False\<rparr>"

definition stored_presence :: "artefact_storage \<Rightarrow> ArtefactPresence" where
  "stored_presence s =
    (if as_ownership_record s then (if as_event_data s then Both else OwnershipRecordOnly)
     else (if as_event_data s then EventDataOnly else Presence_None))"

type_synonym creation_state = "artefact_storage \<times> CreationProgression option"

inductive creation_step :: "creation_state \<Rightarrow> creation_state \<Rightarrow> bool" where
  begin_step: "begin_creation (stored_presence s) = Inr p \<Longrightarrow>
    creation_step (s, None) (s\<lparr>as_ownership_record := True\<rparr>, Some p)"
| seed_step: "seed_claim p c = Inr p' \<Longrightarrow> creation_step (s, Some p) (s\<lparr>as_claim := Some c\<rparr>, Some p')"
| complete_step: "complete_event_data p = Inr p' \<Longrightarrow>
    creation_step (s, Some p) (s\<lparr>as_event_data := True\<rparr>, Some p')"
| crash_step: "creation_step (s, x) (s, None)"
| resume_step: "resume_incomplete_creation (stored_presence s) (as_claim s) = Inr i \<Longrightarrow>
    creation_step (s, None) (s, Some (CreationProgression_from i))"

inductive_cases creation_stepE: "creation_step x y"

abbreviation creation_steps :: "creation_state \<Rightarrow> creation_state \<Rightarrow> bool" where
  "creation_steps \<equiv> creation_step\<^sup>*\<^sup>*"

fun stored_as :: "artefact_storage \<Rightarrow> CreationProgression \<Rightarrow> bool" where
  "stored_as s UnseededOwnershipRecordCreated \<longleftrightarrow> as_ownership_record s \<and> as_claim s = None \<and> \<not> as_event_data s"
| "stored_as s (OwnershipClaimSeeded c) \<longleftrightarrow> as_ownership_record s \<and> as_claim s = Some c \<and> \<not> as_event_data s"
| "stored_as s Complete \<longleftrightarrow> as_ownership_record s \<and> as_claim s \<noteq> None \<and> as_event_data s"

definition creation_inv :: "creation_state \<Rightarrow> bool" where
  "creation_inv x \<longleftrightarrow> (as_event_data (fst x) \<longrightarrow> as_claim (fst x) \<noteq> None) \<and>
     (as_claim (fst x) \<noteq> None \<longrightarrow> as_ownership_record (fst x)) \<and>
     (case snd x of Some p \<Rightarrow> stored_as (fst x) p | None \<Rightarrow> True)"

lemma begin_creation_eq [simp]:
  "begin_creation p = Inr q \<longleftrightarrow> p = Presence_None \<and> q = UnseededOwnershipRecordCreated"
  by (cases p) (auto simp: begin_creation_def)

lemma seed_claim_eq: "seed_claim p c = Inr q \<longleftrightarrow> p = UnseededOwnershipRecordCreated \<and> q = OwnershipClaimSeeded c"
  by (cases p) auto

lemma complete_event_data_eq:
  "complete_event_data p = Inr q \<longleftrightarrow> (\<exists>c. p = OwnershipClaimSeeded c) \<and> q = Complete"
  by (cases p) auto

lemma resume_eq:
  "resume_incomplete_creation p c = Inr i \<longleftrightarrow> p = OwnershipRecordOnly \<and>
    i = (case c of Some c \<Rightarrow> Claimed_incomplete c | None \<Rightarrow> Unseeded)"
  by (cases p; cases c) auto

lemma stored_presence_iff:
  "stored_presence s = Presence_None \<longleftrightarrow> \<not> as_ownership_record s \<and> \<not> as_event_data s"
  "stored_presence s = OwnershipRecordOnly \<longleftrightarrow> as_ownership_record s \<and> \<not> as_event_data s"
  "stored_presence s = Both \<longleftrightarrow> as_ownership_record s \<and> as_event_data s"
  "stored_presence s = EventDataOnly \<longleftrightarrow> \<not> as_ownership_record s \<and> as_event_data s"
  by (simp_all add: stored_presence_def)

lemma creation_step_inv: "creation_step x y \<Longrightarrow> creation_inv x \<Longrightarrow> creation_inv y"
  by (erule creation_stepE)
    (auto simp: creation_inv_def seed_claim_eq complete_event_data_eq resume_eq stored_presence_iff split: option.splits)

lemma creation_steps_inv: "creation_steps x y \<Longrightarrow> creation_inv x \<Longrightarrow> creation_inv y"
  by (induction rule: rtranclp_induct) (auto intro: creation_step_inv)

text \<open>The three steps of an undisturbed creation, from any progression that storage backs.\<close>

lemma creation_finishes:
  assumes "stored_as s p"
  shows "\<exists>y. creation_steps (s, Some p) y \<and> stored_presence (fst y) = Both"
proof (cases p)
  case UnseededOwnershipRecordCreated
  obtain c :: OwnershipClaimRecord where True by simp
  let ?s1 = "s\<lparr>as_claim := Some c\<rparr>"
  have "creation_steps (s, Some p) (?s1, Some (OwnershipClaimSeeded c))"
    using UnseededOwnershipRecordCreated seed_step [of p c "OwnershipClaimSeeded c" s] by (simp add: r_into_rtranclp)
  moreover have "creation_step (?s1, Some (OwnershipClaimSeeded c)) (?s1\<lparr>as_event_data := True\<rparr>, Some Complete)"
    by (rule complete_step) simp
  ultimately show ?thesis
    using assms UnseededOwnershipRecordCreated
    by (intro exI [of _ "(?s1\<lparr>as_event_data := True\<rparr>, Some Complete)"]) (auto simp: stored_presence_def)
next
  case (OwnershipClaimSeeded c)
  then have "creation_step (s, Some p) (s\<lparr>as_event_data := True\<rparr>, Some Complete)"
    by (intro complete_step) simp
  with assms OwnershipClaimSeeded show ?thesis
    by (intro exI [of _ "(s\<lparr>as_event_data := True\<rparr>, Some Complete)"]) (auto simp: stored_presence_def)
next
  case Complete
  with assms show ?thesis by (intro exI [of _ "(s, Some p)"]) (simp add: stored_presence_def)
qed

lemma creation_state_finishes:
  assumes "creation_inv x"
  shows "\<exists>y. creation_steps x y \<and> stored_presence (fst y) = Both"
proof -
  obtain s q where x: "x = (s, q)" by (cases x)
  have from_None: "\<exists>y. creation_steps (s, None) y \<and> stored_presence (fst y) = Both"
  proof (cases "stored_presence s")
    case Both
    then show ?thesis by (intro exI [of _ "(s, None)"]) simp
  next
    case EventDataOnly
    then show ?thesis using assms by (auto simp: x creation_inv_def stored_presence_iff)
  next
    case Presence_None
    let ?s1 = "s\<lparr>as_ownership_record := True\<rparr>"
    have "stored_as ?s1 UnseededOwnershipRecordCreated"
      using assms Presence_None by (auto simp: x creation_inv_def stored_presence_iff)
    from creation_finishes [OF this] begin_step [of s UnseededOwnershipRecordCreated] Presence_None
    show ?thesis by (auto intro: converse_rtranclp_into_rtranclp)
  next
    case OwnershipRecordOnly
    let ?p = "CreationProgression_from (case as_claim s of Some c \<Rightarrow> Claimed_incomplete c | None \<Rightarrow> Unseeded)"
    have "stored_as s ?p"
      using assms OwnershipRecordOnly by (auto simp: x creation_inv_def stored_presence_iff split: option.splits)
    moreover have "creation_step (s, None) (s, Some ?p)"
      using OwnershipRecordOnly by (intro resume_step) (simp add: resume_eq)
    ultimately show ?thesis
      using creation_finishes by (meson converse_rtranclp_into_rtranclp)
  qed
  show ?thesis using from_None crash_step [of s q] by (auto simp: x intro: converse_rtranclp_into_rtranclp)
qed

section \<open>Properties\<close>

text \<open>C20: epochs only grow along successful claims, so a writer whose epoch was current and whose claim has
  since been replaced, once or many times, is refused as stale from then on, while the last claimant passes
  the fence.\<close>

theorem replaced_owner_is_fenced:
  assumes "fence_write n r = Inr ()" and "claim_run r cs r'" and "cs \<noteq> []"
  shows "fence_write n r' = Inl StaleEpoch \<and> fence_write (claim_epoch (last cs)) r' = Inr () \<and>
    sorted_wrt (<) (n # map claim_epoch cs)"
proof -
  obtain c where c: "r = Claimed c" "n = claim_epoch c" using assms(1) by (auto simp: fence_write_eq_Inr)
  have grow: "sorted_wrt (<) (map claim_epoch (c # cs))" using claim_run_increasing assms(2) c(1) by blast
  then have "claim_epoch c < claim_epoch (last cs)" using assms(3) by simp
  with grow claim_run_last [OF assms(2,3)] show ?thesis by (auto simp: c(2))
qed

text \<open>A claim record the witnesses use.\<close>

definition sample_claim :: "u64 \<Rightarrow> OwnershipClaimRecord" where
  "sample_claim n = \<lparr>claim_epoch = n, claim_machine_id = [], claim_boot_id = [], claim_process_id = 0,
     claim_process_start_time_ns = 0, claim_time_ns = 0, claim_operator_label = []\<rparr>"

lemma sample_claim_epoch [simp]: "claim_epoch (sample_claim n) = n"
  by (simp add: sample_claim_def)

theorem replaced_owner_is_fenced_witness:
  "fence_write 3 (Claimed (sample_claim 9)) = Inl StaleEpoch \<and>
    fence_write (claim_epoch (last [sample_claim 5, sample_claim 9])) (Claimed (sample_claim 9)) = Inr () \<and>
    sorted_wrt (<) (3 # map claim_epoch [sample_claim 5, sample_claim 9])"
proof (rule replaced_owner_is_fenced)
  show "fence_write 3 (Claimed (sample_claim 3)) = Inr ()" by simp
  show "claim_run (Claimed (sample_claim 3)) [sample_claim 5, sample_claim 9] (Claimed (sample_claim 9))"
    by (rule claim_run.claim [where expected = "Some 3" and n = 5],
        simp, rule claim_run.claim [where expected = "Some 5" and n = 9], simp, rule claim_run.stay)
qed simp

text \<open>Two claimants that observed the same ownership cannot both win: once one of them has been
  recorded, the other's compare-and-set with the expectation it formed earlier is a conflict.\<close>

lemma claim_race_single_winner:
  assumes "evaluate_claim_cas r expected c = Inr n"
  shows "evaluate_claim_cas (Claimed c) expected d = Inl ConcurrencyConflict"
  using assms by (auto simp: claim_cas_eq_Inr)

text \<open>Creation is ordered and survives crashes: whatever interleaving of creation steps, crashes and
  resumptions has run from empty storage, event data is never stored without a recorded claim nor a claim
  without an ownership record (so storage never holds orphaned event data), and some continuation
  completes the artefact.\<close>

lemma creation_ordered_and_resumable:
  assumes "creation_steps (empty_storage, None) (s, p)"
  shows "(as_event_data s \<longrightarrow> as_claim s \<noteq> None) \<and> (as_claim s \<noteq> None \<longrightarrow> as_ownership_record s) \<and>
    stored_presence s \<noteq> EventDataOnly \<and>
    (\<exists>y. creation_steps (s, p) y \<and> stored_presence (fst y) = Both)"
proof -
  have "creation_inv (empty_storage, None)" by (simp add: creation_inv_def empty_storage_def)
  from creation_steps_inv [OF assms this] have inv: "creation_inv (s, p)" .
  with creation_state_finishes [OF inv] show ?thesis by (auto simp: creation_inv_def stored_presence_iff)
qed

text \<open>Creation and opening exclude each other: creation is admitted exactly where opening reports that
  no artefact exists; opening to write is admitted exactly where an ownership record is stored, is ready
  exactly when event data is stored too, and otherwise names the state in which creation resumes.\<close>

lemma create_open_exclusive:
  "(admit_create p = Inr () \<longleftrightarrow> admit_open p c w = Inl NoArtefactExists) \<and>
   (is_ok (admit_open p c True) \<longleftrightarrow> p = OwnershipRecordOnly \<or> p = Both) \<and>
   (admit_open p c True = Inr Ready \<longleftrightarrow> p = Both) \<and>
   (admit_open p c w = Inr (IncompleteCreation i) \<longleftrightarrow> resume_incomplete_creation p c = Inr i) \<and>
   (admit_open p c w = Inr ReadOnlyOrphan \<longleftrightarrow> p = EventDataOnly \<and> \<not> w)"
  by (cases p; cases c) auto

text \<open>An envelope's precursor link is admitted on a fiber exactly when the envelope is of that fiber and
  either is a well-formed genesis or links, by identifier and commitment, to the event of the same fiber
  that resolving its precursor gives.\<close>

lemma precursor_link_exact:
  "result_bind (classify e) (\<lambda>link. admit_precursor_link H f link resolve) = Inr () \<longleftrightarrow>
    fid e = f \<and>
    (prec e = zero_id \<and> prec_hash e = zero_hash \<or>
     (\<exists>p. resolve (prec e) = Some p \<and> fid p = f \<and> links H p e))"
  by (auto simp: classify_def admit_precursor_link_def Let_def links_def commitment_def split: option.splits)

text \<open>Events are admitted exactly when a descriptor is present, the envelope identities agree and, on
  the event-yielding path only, the schema identities agree; a missing descriptor is reported before an
  envelope mismatch, and that before a schema mismatch.\<close>

lemma admit_event_exact:
  "(admit_event (Event d es as ee ae) = Inr () \<longleftrightarrow> d \<noteq> None \<and> ee = ae \<and> es = as) \<and>
   (admit_event (RecordReaderOnly d ee ae) = Inr () \<longleftrightarrow> d \<noteq> None \<and> ee = ae) \<and>
   (admit_event (Event d es as ee ae) = Inl MissingSchemaDescriptor \<longleftrightarrow> d = None) \<and>
   (admit_event (Event d es as ee ae) = Inl EnvelopeMismatch \<longleftrightarrow> d \<noteq> None \<and> ee \<noteq> ae) \<and>
   (admit_event (Event d es as ee ae) = Inl SchemaMismatch \<longleftrightarrow> d \<noteq> None \<and> ee = ae \<and> es \<noteq> as)"
  by auto

text \<open>The builder returns the facts it was given exactly when an unowned artefact has neither a known
  generation nor append authority and an unknown generation is not called current; the orphan read is such
  a result.\<close>

lemma qualified_open_exact:
  "(build b = Inr q \<longleftrightarrow> q = b \<and>
     (if q_ownership b = Unowned_status
      then q_generation b = Unknown_generation \<and> q_append_authority b \<noteq> HoldsAuthority else True) \<and>
     (if q_generation b = Unknown_generation then q_supersession b \<noteq> Current else True)) \<and>
   build QualifiedOpenResultBuilder_default = Inr orphan_read"
  by (auto simp: build_def QualifiedOpenResultBuilder_default_def orphan_read_def
      split: OwnershipStatus.splits GenerationKnowledge.splits SupersessionStatus.splits AppendAuthority.splits)

end
