(* ===== verification/File_Engine.thy ===== *)
theory File_Engine
  imports Meta_File Admission
begin

text \<open>
  \<open>FileEngine\<close> of \<open>file.rs\<close>, the file driver behind the storage pipeline, and the default methods of the
  \<open>StorageEngine\<close> trait of \<open>store/engine.rs\<close> that it uses. The open container file is its content
  (\<open>fe_file\<close>); the ownership file is read afresh by every authority check, so what it holds is an argument.
  \<open>ReadIo\<close> and \<open>AppendIo\<close> are the answers of the operating system to one call. Paths are not modelled,
  diagnostic texts are reduced to their cause, and the quota simulation exists in test builds only.
\<close>

datatype RollbackOutcome = Succeeded | TruncateFailed | SyncFailed | SeekFailed

datatype uncertain_cause = Simulated_indeterminate | Write_failed RollbackOutcome | Sync_failed

record FileEngine =
  fe_file :: "bytes option"
  fe_carried_epoch :: u64
  fe_claim :: "OwnershipClaimRecord option"
  fe_admission :: OpenAdmission
  fe_meta_records :: MetaRecords
  fe_exclusion_policy :: FileExclusionPolicy
  fe_locked :: bool
  fe_frame_count :: u64
  fe_read_all_count :: nat
  fe_uncertain :: bool
  fe_uncertain_diagnostic :: "uncertain_cause option"
  fe_simulate_indeterminate :: bool
  fe_simulate_sync_error :: bool
  fe_simulate_write_error :: bool
  fe_fail_after_n_blocks :: "nat option"
  fe_undetermined_after_n_blocks :: "nat option"
  fe_recovered_tail_truncation :: "TornTailInfo option"

definition exclusion_lost :: "FileEngine \<Rightarrow> bool" where
  "exclusion_lost e \<longleftrightarrow> fe_exclusion_policy e = Standard \<and> (fe_file e = None \<or> \<not> fe_locked e)"

definition check_authority :: "crc32c \<Rightarrow> MetaRead \<Rightarrow> FileEngine \<Rightarrow> unit operation" where
  "check_authority crc meta_io e =
    (if fe_uncertain e then Inl OwnershipRecordUnreadable
     else if exclusion_lost e then Inl AnotherOwnerHoldsExclusion
     else result_bind (read_meta_records crc meta_io) (\<lambda>meta.
       if mr_outbound_pointer meta \<noteq> None then Inl RetiredMigrationSource
       else result_bind (ok_or OwnershipRecordUnreadable (mr_latest_claim meta)) (\<lambda>latest_claim.
         if claim_epoch latest_claim \<noteq> fe_carried_epoch e then Inl StaleEpoch
         else Inr ())))"

definition at_limit :: "u64 \<Rightarrow> nat option \<Rightarrow> bool" where
  "at_limit frame_count limit = (case limit of Some n \<Rightarrow> frame_count \<ge> of_nat n | None \<Rightarrow> False)"

definition become_uncertain :: "uncertain_cause \<Rightarrow> FileEngine \<Rightarrow> FileEngine" where
  "become_uncertain cause e = e\<lparr>fe_uncertain := True, fe_uncertain_diagnostic := Some cause\<rparr>"

definition check_append_simulation ::
    "FileEngine \<Rightarrow> u64 WriteLandingVerdict option operation \<times> FileEngine" where
  "check_append_simulation e =
    (if fe_simulate_indeterminate e
     then (Inr (Some (Undetermined (fe_carried_epoch e))), become_uncertain Simulated_indeterminate e)
     else if at_limit (fe_frame_count e) (fe_undetermined_after_n_blocks e)
     then (Inr (Some (Undetermined (fe_carried_epoch e))), become_uncertain Simulated_indeterminate e)
     else if at_limit (fe_frame_count e) (fe_fail_after_n_blocks e)
     then (Inl (PrecursorChainBroken None), e)
     else (Inr None, e))"

text \<open>\<open>ai_written\<close>: \<open>None\<close> when \<open>write_all\<close> succeeds, \<open>Some k\<close> when it fails after \<open>k\<close> bytes.\<close>

record AppendIo =
  ai_seek_end_ok :: bool
  ai_written :: "nat option"
  ai_set_len_ok :: bool
  ai_rollback_sync_ok :: bool
  ai_seek_start_ok :: bool
  ai_sync_ok :: bool

definition rollback :: "AppendIo \<Rightarrow> RollbackOutcome" where
  "rollback io =
    (if \<not> ai_set_len_ok io then TruncateFailed
     else if \<not> ai_rollback_sync_ok io then SyncFailed
     else if \<not> ai_seek_start_ok io then SeekFailed
     else Succeeded)"

text \<open>The write itself, once a file is open and the checks have passed.\<close>

definition write_block :: "AppendIo \<Rightarrow> FileEngine \<Rightarrow> bytes \<Rightarrow> bytes \<Rightarrow>
    u64 WriteLandingVerdict operation \<times> FileEngine" where
  "write_block io e content block =
    (if \<not> ai_seek_end_ok io then (Inl TransportUnavailable, e)
     else
       (case (if fe_simulate_write_error e then Some 0 else ai_written io) of
          Some k \<Rightarrow>
            (Inr (Undetermined (fe_carried_epoch e)),
             become_uncertain (Write_failed (rollback io))
               (e\<lparr>fe_file := Some (if ai_set_len_ok io then content else content @ take k block)\<rparr>))
        | None \<Rightarrow>
            let e1 = e\<lparr>fe_file := Some (content @ block)\<rparr> in
            if fe_simulate_sync_error e \<or> \<not> ai_sync_ok io
            then (Inr (Undetermined (fe_carried_epoch e)), become_uncertain Sync_failed e1)
            else (Inr (Landed (fe_frame_count e + 1)), e1\<lparr>fe_frame_count := fe_frame_count e + 1\<rparr>)))"

definition append_block :: "crc32c \<Rightarrow> MetaRead \<Rightarrow> AppendIo \<Rightarrow> FileEngine \<Rightarrow> bytes \<Rightarrow>
    u64 WriteLandingVerdict operation \<times> FileEngine" where
  "append_block crc meta_io io e block =
    (case check_authority crc meta_io e of
       Inl f \<Rightarrow> (Inl f, e)
     | Inr _ \<Rightarrow>
         if exclusion_lost e then (Inl AnotherOwnerHoldsExclusion, e)
         else
           (case check_append_simulation e of
              (Inl f, e1) \<Rightarrow> (Inl f, e1)
            | (Inr (Some verdict), e1) \<Rightarrow> (Inr verdict, e1)
            | (Inr None, e1) \<Rightarrow>
                (case fe_file e1 of
                   None \<Rightarrow> (Inl OwnershipUnestablished, e1)
                 | Some content \<Rightarrow> write_block io e1 content block)))"

record ReadIo =
  ri_seek_ok :: bool
  ri_scan_seek_ok :: bool
  ri_len_ok :: bool
  ri_read_ok :: bool
  ri_restore_ok :: bool

definition engine_read :: "ReadIo \<Rightarrow> bytes \<Rightarrow> FileRead" where
  "engine_read io content = \<lparr>fr_seek_ok = ri_scan_seek_ok io,
     fr_file_len = (if ri_len_ok io then Some (length content) else None),
     fr_bytes = (if ri_read_ok io then Some content else None)\<rparr>"

text \<open>The scan shared by \<open>read_all\<close> and \<open>recover_frames\<close>.\<close>

definition scan_container :: "crc32c \<Rightarrow> ReadIo \<Rightarrow> bytes \<Rightarrow> bytes list operation" where
  "scan_container crc io content =
    (if \<not> ri_seek_ok io then Inl NoArtefactExists
     else result_bind (read_container_frames crc (engine_read io content)) (\<lambda>scan.
       if cs_tail_state scan \<noteq> Clean then Inl (PrecursorChainBroken None)
       else if \<not> ri_restore_ok io then Inl (PrecursorChainBroken None)
       else Inr (cs_frames scan)))"

definition read_all :: "crc32c \<Rightarrow> ReadIo \<Rightarrow> FileEngine \<Rightarrow> bytes list operation \<times> FileEngine" where
  "read_all crc io e =
    (let e1 = e\<lparr>fe_read_all_count := fe_read_all_count e + 1\<rparr> in
     (case fe_file e of None \<Rightarrow> Inr [] | Some content \<Rightarrow> scan_container crc io content, e1))"

definition read_chunk :: "crc32c \<Rightarrow> ReadIo \<Rightarrow> FileEngine \<Rightarrow> u64 \<Rightarrow> nat \<Rightarrow> bytes list operation \<times> FileEngine" where
  "read_chunk crc io e start_index max_items =
    (if max_items = 0 then (Inr [], e)
     else
       (case read_all crc io e of
          (Inl f, e1) \<Rightarrow> (Inl f, e1)
        | (Inr all_blocks, e1) \<Rightarrow>
            let start = unat start_index in
            if start \<ge> length all_blocks then (Inr [], e1)
            else
              let end_index = min (saturating_add start max_items) (length all_blocks) in
              (Inr (subslice start end_index all_blocks), e1)))"

definition read_block :: "crc32c \<Rightarrow> ReadIo \<Rightarrow> FileEngine \<Rightarrow> u64 \<Rightarrow> bytes operation \<times> FileEngine" where
  "read_block crc io e index =
    (case read_chunk crc io e index 1 of
       (Inl f, e1) \<Rightarrow> (Inl f, e1)
     | (Inr chunk, e1) \<Rightarrow>
         (if chunk = [] then Inl (ValueConstraintViolated_fc TooLong) else Inr (last chunk), e1))"

fun deliver :: "(u64 \<Rightarrow> bytes \<Rightarrow> 's \<Rightarrow> unit operation \<times> 's) \<Rightarrow> nat \<Rightarrow> bytes list \<Rightarrow> 's \<Rightarrow> unit operation \<times> 's" where
  "deliver on_frame pos [] s = (Inr (), s)"
| "deliver on_frame pos (frame # rest) s =
    (case on_frame (of_nat pos) frame s of
       (Inl f, s1) \<Rightarrow> (Inl f, s1)
     | (Inr _, s1) \<Rightarrow> deliver on_frame (pos + 1) rest s1)"

definition recover_frames :: "crc32c \<Rightarrow> ReadIo \<Rightarrow> FileEngine \<Rightarrow> nat \<Rightarrow>
    (u64 \<Rightarrow> bytes \<Rightarrow> 's \<Rightarrow> unit operation \<times> 's) \<Rightarrow> 's \<Rightarrow> u64 operation \<times> 's \<times> FileEngine" where
  "recover_frames crc io e chunk_size on_frame s =
    (case fe_file e of
       None \<Rightarrow> (Inr 0, s, e)
     | Some content \<Rightarrow>
         (case scan_container crc io content of
            Inl f \<Rightarrow> (Inl f, s, e)
          | Inr frames \<Rightarrow>
              let e1 = e\<lparr>fe_frame_count := of_nat (length frames)\<rparr> in
              (case deliver on_frame 0 frames s of
                 (Inl f, s1) \<Rightarrow> (Inl f, s1, e1)
               | (Inr _, s1) \<Rightarrow> (Inr (of_nat (length frames)), s1, e1))))"

definition acquire_exclusion :: "TryLock \<Rightarrow> FileEngine \<Rightarrow> unit operation \<times> FileEngine" where
  "acquire_exclusion try_lock e =
    (if fe_file e = None then (Inr (), e)
     else
       (case acquire_file_exclusion try_lock (fe_exclusion_policy e) of
          Inl f \<Rightarrow> (Inl f, e)
        | Inr _ \<Rightarrow> (Inr (), e\<lparr>fe_locked := True\<rparr>)))"

definition release_exclusion :: "bool \<Rightarrow> FileEngine \<Rightarrow> unit operation \<times> FileEngine" where
  "release_exclusion unlock_ok e =
    (if fe_locked e \<and> fe_exclusion_policy e = Standard \<and> fe_file e \<noteq> None then
       (if unlock_ok then (Inr (), e\<lparr>fe_locked := False\<rparr>) else (Inl ExclusionUnavailable, e))
     else (Inr (), e))"

definition is_retired :: "crc32c \<Rightarrow> MetaRead \<Rightarrow> bool operation" where
  "is_retired crc meta_io = result_bind (read_meta_records crc meta_io) (\<lambda>meta. Inr (mr_outbound_pointer meta \<noteq> None))"

definition engine_sync :: "crc32c \<Rightarrow> MetaRead \<Rightarrow> bool \<Rightarrow> FileEngine \<Rightarrow> unit operation \<times> FileEngine" where
  "engine_sync crc meta_io sync_ok e =
    (case check_authority crc meta_io e of
       Inl f \<Rightarrow> (Inl f, e)
     | Inr _ \<Rightarrow>
         if fe_file e \<noteq> None \<and> \<not> sync_ok then (Inl OwnershipRecordUnreadable, become_uncertain Sync_failed e)
         else (Inr (), e))"

definition best_effort_unlock_on_drop :: "FileEngine \<Rightarrow> FileEngine" where
  "best_effort_unlock_on_drop e =
    (if fe_locked e \<and> fe_exclusion_policy e = Standard \<and> fe_file e \<noteq> None then e\<lparr>fe_locked := False\<rparr> else e)"

section \<open>Appends\<close>

text \<open>What an authority check establishes: the session is certain, holds its exclusion, and the ownership
  file names its epoch as the current claim and no successor.\<close>

definition authorised :: "crc32c \<Rightarrow> MetaRead \<Rightarrow> FileEngine \<Rightarrow> bool" where
  "authorised crc meta_io e \<longleftrightarrow> \<not> fe_uncertain e \<and> \<not> exclusion_lost e \<and>
     (\<exists>meta claim. read_meta_records crc meta_io = Inr meta \<and> mr_outbound_pointer meta = None \<and>
        mr_latest_claim meta = Some claim \<and> claim_epoch claim = fe_carried_epoch e)"

lemma check_authority_iff: "check_authority crc m e = Inr u \<longleftrightarrow> authorised crc m e"
  by (auto simp: check_authority_def authorised_def result_simps split: if_splits)

lemma check_authority_uncertain: "fe_uncertain e \<Longrightarrow> check_authority crc m e = Inl OwnershipRecordUnreadable"
  by (simp add: check_authority_def)

lemma become_uncertain_simps [simp]:
  "fe_uncertain (become_uncertain c e)" "fe_uncertain_diagnostic (become_uncertain c e) = Some c"
  "fe_file (become_uncertain c e) = fe_file e"
  by (simp_all add: become_uncertain_def)

lemma check_append_simulation_cases:
  obtains (pass) "check_append_simulation e = (Inr None, e)"
    | (unsure) "check_append_simulation e =
        (Inr (Some (Undetermined (fe_carried_epoch e))), become_uncertain Simulated_indeterminate e)"
    | (fail) "check_append_simulation e = (Inl (PrecursorChainBroken None), e)"
  unfolding check_append_simulation_def by (metis (full_types))

definition append_outcome :: "bool \<Rightarrow> FileEngine \<Rightarrow> bytes \<Rightarrow> u64 WriteLandingVerdict operation \<Rightarrow> FileEngine \<Rightarrow> bool" where
  "append_outcome ok e block res e' =
    (case res of
       Inr (Landed n) \<Rightarrow> ok \<and> n = fe_frame_count e + 1 \<and>
         (\<exists>content. fe_file e = Some content \<and>
            e' = e\<lparr>fe_file := Some (content @ block), fe_frame_count := n\<rparr>)
     | Inr (Undetermined epoch) \<Rightarrow> ok \<and> epoch = fe_carried_epoch e \<and> fe_uncertain e' \<and>
         fe_uncertain_diagnostic e' \<noteq> None \<and>
         (\<exists>k. fe_file e' = map_option (\<lambda>content. content @ take k block) (fe_file e))
     | Inl f \<Rightarrow> e' = e)"

lemma write_block_outcome:
  assumes "fe_file e = Some content" and "write_block io e content block = (res, e')"
  shows "append_outcome True e block res e'"
proof (cases "ai_seek_end_ok io")
  case False
  then show ?thesis using assms by (auto simp: write_block_def append_outcome_def)
next
  case seek: True
  let ?w = "if fe_simulate_write_error e then Some 0 else ai_written io"
  show ?thesis
  proof (cases ?w)
    case (Some k)
    have "\<exists>j. (if ai_set_len_ok io then content else content @ take k block) = content @ take j block"
      by (auto intro: exI [of _ 0] exI [of _ k])
    then show ?thesis using seek Some assms by (auto simp: write_block_def append_outcome_def)
  next
    case None
    have "\<exists>j. block = take j block" by (rule exI [of _ "length block"]) simp
    then show ?thesis using seek None assms
      by (auto simp: write_block_def append_outcome_def Let_def split: if_splits)
  qed
qed

lemma append_block_outcome:
  assumes "append_block crc m io e block = (res, e')"
  shows "append_outcome (authorised crc m e) e block res e'"
proof (cases "authorised crc m e")
  case False
  then obtain f where "check_authority crc m e = Inl f"
    using check_authority_iff [of crc m e] by (cases "check_authority crc m e") auto
  then show ?thesis using assms by (auto simp: append_block_def append_outcome_def)
next
  case True
  then have ok: "check_authority crc m e = Inr ()" "\<not> exclusion_lost e"
    using check_authority_iff by (auto simp: authorised_def)
  show ?thesis
  proof (cases rule: check_append_simulation_cases [of e])
    case pass
    then show ?thesis
      using ok assms True write_block_outcome [of e _ io block res e']
      by (cases "fe_file e") (auto simp: append_block_def append_outcome_def)
  next
    case unsure
    have "\<exists>k. fe_file e = map_option (\<lambda>content. content @ take k block) (fe_file e)"
      by (rule exI [of _ 0]) (cases "fe_file e"; simp)
    then show ?thesis using ok assms True unsure by (auto simp: append_block_def append_outcome_def)
  next
    case fail
    then show ?thesis using ok assms by (auto simp: append_block_def append_outcome_def)
  qed
qed

section \<open>Reading back\<close>

definition engine_stores :: "crc32c \<Rightarrow> bytes list \<Rightarrow> FileEngine \<Rightarrow> bool" where
  "engine_stores crc ps e \<longleftrightarrow> fe_file e = Some (container_bytes crc ps) \<and> list_all (\<lambda>p. length p \<le> U32_MAX) ps"

definition all_ok :: "ReadIo \<Rightarrow> bool" where
  "all_ok io \<longleftrightarrow> ri_seek_ok io \<and> ri_scan_seek_ok io \<and> ri_len_ok io \<and> ri_read_ok io \<and> ri_restore_ok io"

lemma engine_read_ok: "all_ok io \<Longrightarrow> engine_read io content = file_read content"
  by (simp add: engine_read_def file_read_def all_ok_def)

lemma engine_read_faulty:
  "read_container_frames crc (engine_read io content) = Inr s \<Longrightarrow>
    read_container_frames crc (file_read content) = Inr s"
  by (auto simp: read_container_frames_def engine_read_def file_read_def split: if_splits)

lemma scan_container_stored:
  assumes "list_all (\<lambda>p. length p \<le> U32_MAX) ps"
  shows "all_ok io \<Longrightarrow> length (container_bytes crc ps) \<le> USIZE_MAX \<Longrightarrow>
      scan_container crc io (container_bytes crc ps) = Inr ps"
    and "scan_container crc io (container_bytes crc ps) = Inr qs \<Longrightarrow> qs = ps"
proof -
  show "all_ok io \<Longrightarrow> length (container_bytes crc ps) \<le> USIZE_MAX \<Longrightarrow>
      scan_container crc io (container_bytes crc ps) = Inr ps"
    using whole_container [OF assms] by (simp add: scan_container_def engine_read_ok) (simp add: all_ok_def)
  assume "scan_container crc io (container_bytes crc ps) = Inr qs"
  then obtain s where s: "read_container_frames crc (engine_read io (container_bytes crc ps)) = Inr s" "qs = cs_frames s"
    by (auto simp: scan_container_def result_simps split: if_splits)
  then have "length (container_bytes crc ps) \<le> USIZE_MAX"
    by (auto simp: read_container_frames_def engine_read_def result_simps split: if_splits)
  from whole_container [OF assms this] engine_read_faulty [OF s(1)] s(2) show "qs = ps" by auto
qed

lemma recover_frames_stored:
  assumes "engine_stores crc ps e"
  shows "recover_frames crc io e n cb s = (Inr k, s', e') \<Longrightarrow>
      deliver cb 0 ps s = (Inr (), s') \<and> engine_stores crc ps e' \<and>
      fe_uncertain_diagnostic e' = fe_uncertain_diagnostic e"
    and "all_ok io \<Longrightarrow> length (container_bytes crc ps) \<le> USIZE_MAX \<Longrightarrow> deliver cb 0 ps s = (Inr (), s') \<Longrightarrow>
      recover_frames crc io e n cb s = (Inr (of_nat (length ps)), s', e\<lparr>fe_frame_count := of_nat (length ps)\<rparr>)"
  using assms scan_container_stored(1) [of ps io crc] scan_container_stored(2) [of ps crc io]
  by (auto simp: recover_frames_def engine_stores_def Let_def split: sum.splits prod.splits)

text \<open>A landed frame is stored after everything stored before it.\<close>

lemma append_block_stores:
  assumes "engine_stores crc ps e" and "append_block crc m io e (frame_bytes crc p) = (Inr (Landed n), e')"
    and "length p \<le> U32_MAX"
  shows "engine_stores crc (ps @ [p]) e' \<and> fe_uncertain_diagnostic e' = fe_uncertain_diagnostic e"
  using append_block_outcome [OF assms(2)] assms
  by (auto simp: append_outcome_def engine_stores_def container_bytes_snoc)

section \<open>Properties\<close>

text \<open>An append that lands was authorised (certain session, exclusion held, current epoch, source not
  retired), wrote the whole block at the end of the file and advanced the frame count; one whose landing is
  undetermined leaves the previous content with at most a part of the block behind it and makes the session
  uncertain; one that is refused changes nothing. An uncertain session never appends or syncs again.\<close>

lemma file_append_exact:
  assumes "append_block crc m io e block = (res, e')"
  shows "case res of
      Inr (Landed n) \<Rightarrow> authorised crc m e \<and> n = fe_frame_count e + 1 \<and>
        (\<exists>content. fe_file e = Some content \<and> e' = e\<lparr>fe_file := Some (content @ block), fe_frame_count := n\<rparr>)
    | Inr (Undetermined epoch) \<Rightarrow> authorised crc m e \<and> epoch = fe_carried_epoch e \<and>
        (\<exists>k. fe_file e' = map_option (\<lambda>content. content @ take k block) (fe_file e)) \<and>
        append_block crc m2 io2 e' block2 = (Inl OwnershipRecordUnreadable, e') \<and>
        engine_sync crc m2 ok e' = (Inl OwnershipRecordUnreadable, e')
    | Inl f \<Rightarrow> e' = e"
  using append_block_outcome [OF assms]
  by (auto simp: append_outcome_def append_block_def engine_sync_def check_authority_uncertain
      split: sum.splits WriteLandingVerdict.splits)

text \<open>A writer engine on an empty container, and an ownership file that names its epoch.\<close>

definition sample_engine :: FileEngine where
  "sample_engine = \<lparr>fe_file = Some (container_bytes (\<lambda>b. 0) []), fe_carried_epoch = 4, fe_claim = None,
     fe_admission = Ready, fe_meta_records = MetaRecords_default, fe_exclusion_policy = Standard,
     fe_locked = True, fe_frame_count = 0, fe_read_all_count = 0, fe_uncertain = False,
     fe_uncertain_diagnostic = None, fe_simulate_indeterminate = False, fe_simulate_sync_error = False,
     fe_simulate_write_error = False, fe_fail_after_n_blocks = None, fe_undetermined_after_n_blocks = None,
     fe_recovered_tail_truncation = None\<rparr>"

definition good_io :: AppendIo where
  "good_io = \<lparr>ai_seek_end_ok = True, ai_written = None, ai_set_len_ok = True, ai_rollback_sync_ok = True,
     ai_seek_start_ok = True, ai_sync_ok = True\<rparr>"

definition torn_io :: AppendIo where
  "torn_io = good_io\<lparr>ai_written := Some 3, ai_set_len_ok := False\<rparr>"

definition sample_claim_record :: OwnershipClaimRecord where
  "sample_claim_record = \<lparr>claim_epoch = 4, claim_machine_id = replicate 16 0, claim_boot_id = replicate 16 0,
     claim_process_id = 0, claim_process_start_time_ns = 0, claim_time_ns = 0, claim_operator_label = []\<rparr>"

definition sample_meta :: bytes where
  "sample_meta = container_bytes (\<lambda>b. 0) [the (OwnershipRecord_encode (OwnershipClaim sample_claim_record))]"

lemma sample_meta_read:
  "read_meta_records (\<lambda>b. 0) (meta_read sample_meta) =
    Inr (MetaRecords_default\<lparr>mr_latest_claim := Some sample_claim_record\<rparr>)"
proof -
  obtain bs where bs: "OwnershipRecord_encode (OwnershipClaim sample_claim_record) = Some bs" "length bs = 69"
    by (simp add: sample_claim_record_def OwnershipRecord_encode_def u32_try_from_def U32_bound)
  have wf: "OwnershipRecord_wf (OwnershipClaim sample_claim_record)" by (simp add: sample_claim_record_def)
  have "read_meta_records (\<lambda>b. 0) (meta_read (container_bytes (\<lambda>b. 0) [bs])) = read_meta_frames MetaRecords_default [bs]"
    using bs(2) by (intro read_meta_whole) (simp_all add: U32_bound USIZE_bound container_bytes_def ContainerHeader_to_bytes_def)
  also have "\<dots> = apply_meta_record MetaRecords_default (OwnershipClaim sample_claim_record)"
    by (rule read_meta_frames_record [OF wf bs(1)])
  finally show ?thesis by (simp add: sample_meta_def bs(1))
qed

lemma sample_authorised: "authorised (\<lambda>b. 0) (meta_read sample_meta) sample_engine"
  using sample_meta_read
  by (auto simp: authorised_def sample_engine_def exclusion_lost_def sample_claim_record_def MetaRecords_default_def)

end
