(* ===== verification/Fiber_Handle.thy ===== *)
theory Fiber_Handle
  imports Fiber_State Event_Log
begin

text \<open>
  \<open>store/fiber_handle.rs\<close>: the handle of one fiber, its constructors, the reconstruction from recorded
  envelopes and the three operations that mint envelopes (\<open>append\<close>, \<open>detach\<close>, \<open>rescue\<close>). An
  operation returns the envelope with the updated handle; on an error the handle is the one given, since
  the code assigns its fields only after the last fallible step.
\<close>

definition MAX_EVENTS_PER_FIBER :: u64 where "MAX_EVENTS_PER_FIBER = 100000"

record FiberHandle =
  fh_fiber_id :: bytes
  fh_state :: FiberState
  fh_precursor :: bytes
  fh_precursor_hash :: bytes
  fh_event_count :: u64

definition FiberHandle_new :: "bytes \<Rightarrow> FiberHandle" where
  "FiberHandle_new fiber_id = \<lparr>fh_fiber_id = fiber_id, fh_state = Undefined, fh_precursor = zero_id,
     fh_precursor_hash = zero_hash, fh_event_count = 0\<rparr>"

definition with_state :: "bytes \<Rightarrow> FiberState \<Rightarrow> bytes \<Rightarrow> bytes \<Rightarrow> u64 \<Rightarrow> FiberHandle operation" where
  "with_state fiber_id st precursor precursor_hash event_count =
    (if (if st = Undefined \<or> st = Purged
         then precursor \<noteq> zero_id \<or> precursor_hash \<noteq> zero_hash \<or> event_count \<noteq> 0
         else precursor = zero_id \<or> precursor_hash = zero_hash \<or> event_count = 0 \<or>
           event_count > MAX_EVENTS_PER_FIBER)
     then Inl InvariantBreakingConfiguration
     else Inr \<lparr>fh_fiber_id = fiber_id, fh_state = st, fh_precursor = precursor,
               fh_precursor_hash = precursor_hash, fh_event_count = event_count\<rparr>)"

text \<open>The loop of \<open>from_envelopes\<close>: \<open>first\<close> is \<open>idx == 0\<close>; the result is state, last identifier and
  last commitment.\<close>

fun from_envelopes_loop :: "blake3 \<Rightarrow> bytes \<Rightarrow> EventEnvelope list \<Rightarrow> bool \<Rightarrow> FiberState \<Rightarrow> bytes \<Rightarrow> bytes \<Rightarrow>
    bytes list \<Rightarrow> (FiberState \<times> bytes \<times> bytes) operation" where
  "from_envelopes_loop H fiber_id [] first st prev_event_id prev_commitment seen_ids =
    Inr (st, prev_event_id, prev_commitment)"
| "from_envelopes_loop H fiber_id (env # rest) first st prev_event_id prev_commitment seen_ids =
    (if eid env = zero_id then Inl (ValueConstraintViolated_fc Empty)
     else if eid env \<in> set seen_ids then Inl (PrecursorChainBroken None)
     else if fid env \<noteq> fiber_id then Inl (PrecursorChainBroken (Some PrecursorWrongFiber))
     else if first \<and> (prec env \<noteq> zero_id \<or> prec_hash env \<noteq> zero_hash) then Inl (PrecursorChainBroken None)
     else if \<not> first \<and> (prec env \<noteq> prev_event_id \<or> prec_hash env \<noteq> prev_commitment)
     then Inl (PrecursorChainBroken None)
     else from_envelopes_loop H fiber_id rest False
       (if hdr_detached (env_header env) then Detached else Defined)
       (eid env) (commitment H env) (List.insert (eid env) seen_ids))"

definition from_envelopes :: "blake3 \<Rightarrow> bytes \<Rightarrow> EventEnvelope list \<Rightarrow> FiberHandle operation" where
  "from_envelopes H fiber_id envelopes =
    (if envelopes = [] then Inr (FiberHandle_new fiber_id)
     else if length envelopes > unat MAX_EVENTS_PER_FIBER then Inl (ValueConstraintViolated_fc TooLong)
     else result_bind (from_envelopes_loop H fiber_id envelopes True Undefined zero_id zero_hash [])
       (\<lambda>(st, prev_event_id, prev_commitment).
         Inr \<lparr>fh_fiber_id = fiber_id, fh_state = st, fh_precursor = prev_event_id,
              fh_precursor_hash = prev_commitment, fh_event_count = of_nat (length envelopes)\<rparr>))"

text \<open>The three checks every minting operation starts with.\<close>

definition check_new_event :: "FiberHandle \<Rightarrow> bytes \<Rightarrow> unit operation" where
  "check_new_event h event_id =
    (if event_id = zero_id then Inl (ValueConstraintViolated_fc Empty)
     else if event_id = fh_precursor h then Inl (PrecursorChainBroken None)
     else if fh_event_count h \<ge> MAX_EVENTS_PER_FIBER then Inl (ValueConstraintViolated_fc TooLong)
     else Inr ())"

text \<open>The envelope chained to the handle's tip, and the handle moved onto an envelope.\<close>

definition chained_envelope :: "FiberHandle \<Rightarrow> bytes \<Rightarrow> bool \<Rightarrow> bytes \<Rightarrow> EventEnvelope" where
  "chained_envelope h event_id detached payload_bytes =
    \<lparr>env_header = \<lparr>hdr_event_id = event_id, hdr_fiber_id = fh_fiber_id h, hdr_detached = detached,
       hdr_precursor = fh_precursor h, hdr_precursor_hash = fh_precursor_hash h\<rparr>,
     env_payload = payload_bytes\<rparr>"

definition advance_handle :: "blake3 \<Rightarrow> FiberHandle \<Rightarrow> FiberState \<Rightarrow> EventEnvelope \<Rightarrow> FiberHandle" where
  "advance_handle H h st env =
    h\<lparr>fh_precursor := eid env, fh_precursor_hash := commitment H env, fh_state := st,
      fh_event_count := fh_event_count h + 1\<rparr>"

definition FiberHandle_append :: "blake3 \<Rightarrow> FiberHandle \<Rightarrow> bytes \<Rightarrow> bytes \<Rightarrow> (EventEnvelope \<times> FiberHandle) operation" where
  "FiberHandle_append H h event_id payload_bytes =
    result_bind (check_new_event h event_id) (\<lambda>_.
      if fh_state h = Undefined \<or> fh_state h = Purged then
        result_bind (map_err (\<lambda>_. ValueConstraintViolated_fc Empty)
            (genesis event_id (fh_fiber_id h) payload_bytes))
          (\<lambda>env. Inr (env, advance_handle H h Defined env))
      else if fh_state h = Defined then
        (let env = chained_envelope h event_id False payload_bytes in
         Inr (env, advance_handle H h Defined env))
      else Inl InvariantBreakingConfiguration)"

definition FiberHandle_detach :: "blake3 \<Rightarrow> FiberHandle \<Rightarrow> bytes \<Rightarrow> bytes \<Rightarrow> (EventEnvelope \<times> FiberHandle) operation" where
  "FiberHandle_detach H h event_id payload_bytes =
    result_bind (check_new_event h event_id) (\<lambda>_.
      if fh_state h = Defined then
        (let env = chained_envelope h event_id True payload_bytes in
         Inr (env, advance_handle H h Detached env))
      else Inl InvariantBreakingConfiguration)"

definition FiberHandle_rescue :: "blake3 \<Rightarrow> FiberHandle \<Rightarrow> bytes \<Rightarrow> bytes \<Rightarrow> (EventEnvelope \<times> FiberHandle) operation" where
  "FiberHandle_rescue H h event_id payload_bytes =
    result_bind (check_new_event h event_id) (\<lambda>_.
      if fh_state h = Detached then
        (let env = chained_envelope h event_id False payload_bytes in
         Inr (env, advance_handle H h Defined env))
      else if fh_state h = Locked then
        result_bind (map_err (\<lambda>_. ValueConstraintViolated_fc Empty)
            (genesis event_id (fh_fiber_id h) payload_bytes))
          (\<lambda>env. Inr (env, advance_handle H h Defined env))
      else Inl InvariantBreakingConfiguration)"

section \<open>The handle and the lifecycle\<close>

datatype handle_op = Append | Detach_op | Rescue_op

fun handle_step :: "blake3 \<Rightarrow> handle_op \<Rightarrow> FiberHandle \<Rightarrow> bytes \<Rightarrow> bytes \<Rightarrow> (EventEnvelope \<times> FiberHandle) operation" where
  "handle_step H Append h event_id pl = FiberHandle_append H h event_id pl"
| "handle_step H Detach_op h event_id pl = FiberHandle_detach H h event_id pl"
| "handle_step H Rescue_op h event_id pl = FiberHandle_rescue H h event_id pl"

fun lifecycle_action :: "handle_op \<Rightarrow> FiberState \<Rightarrow> AttemptedTransition" where
  "lifecycle_action Append st = (if st = Undefined \<or> st = Purged then Create else Update)"
| "lifecycle_action Detach_op st = Detach"
| "lifecycle_action Rescue_op st = Rescue"

text \<open>The envelope an operation mints: a genesis where the fiber starts over, else chained to the tip.\<close>

definition starts_over :: "FiberState \<Rightarrow> bool" where
  "starts_over st \<longleftrightarrow> st = Undefined \<or> st = Purged \<or> st = Locked"

definition minted :: "handle_op \<Rightarrow> FiberHandle \<Rightarrow> bytes \<Rightarrow> bytes \<Rightarrow> EventEnvelope" where
  "minted oper h event_id pl = \<lparr>env_header = \<lparr>hdr_event_id = event_id, hdr_fiber_id = fh_fiber_id h,
     hdr_detached = (oper = Detach_op),
     hdr_precursor = (if starts_over (fh_state h) then zero_id else fh_precursor h),
     hdr_precursor_hash = (if starts_over (fh_state h) then zero_hash else fh_precursor_hash h)\<rparr>,
     env_payload = pl\<rparr>"

lemma not_zero_id: "length i \<noteq> 16 \<Longrightarrow> i \<noteq> zero_id"
  by auto

lemma check_new_event_eq [result_simps]:
  "check_new_event h i = Inr u \<longleftrightarrow> i \<noteq> zero_id \<and> i \<noteq> fh_precursor h \<and> fh_event_count h < MAX_EVENTS_PER_FIBER"
  by (auto simp: check_new_event_def)

lemma genesis_eq_Inr:
  "genesis i f pl = Inr e \<longleftrightarrow> i \<noteq> zero_id \<and> length pl + 85 \<le> U32_MAX \<and>
    e = \<lparr>env_header = \<lparr>hdr_event_id = i, hdr_fiber_id = f, hdr_detached = False, hdr_precursor = zero_id,
          hdr_precursor_hash = zero_hash\<rparr>, env_payload = pl\<rparr>"
  by (auto simp: genesis_def result_simps envelope_wire_len_eq_Inr)

lemma handle_step_eq_Inr:
  "handle_step H oper h i pl = Inr (env, h') \<longleftrightarrow>
    i \<noteq> zero_id \<and> i \<noteq> fh_precursor h \<and> fh_event_count h < MAX_EVENTS_PER_FIBER \<and>
    (starts_over (fh_state h) \<longrightarrow> length pl + 85 \<le> U32_MAX) \<and>
    env = minted oper h i pl \<and>
    (\<exists>st'. apply_action (fh_state h) (lifecycle_action oper (fh_state h)) = Inr st' \<and>
       h' = advance_handle H h st' env)"
  by (cases oper; cases "fh_state h")
    (auto simp: FiberHandle_append_def FiberHandle_detach_def FiberHandle_rescue_def result_simps Let_def
      genesis_eq_Inr minted_def starts_over_def chained_envelope_def apply_action_def)

section \<open>Reconstruction from recorded envelopes\<close>

lemma from_envelopes_loop_append:
  "from_envelopes_loop H f (xs @ ys) first st pid pc seen =
    result_bind (from_envelopes_loop H f xs first st pid pc seen)
      (\<lambda>(st, pid, pc). from_envelopes_loop H f ys (first \<and> xs = []) st pid pc
         (foldl (\<lambda>s e. List.insert (eid e) s) seen xs))"
  by (induction xs arbitrary: first st pid pc seen) auto

lemma set_seen: "set (foldl (\<lambda>s e. List.insert (eid e) s) seen xs) = set seen \<union> eid ` set xs"
  by (induction xs arbitrary: seen) auto

definition tip_of :: "blake3 \<Rightarrow> EventEnvelope list \<Rightarrow> FiberState \<times> bytes \<times> bytes" where
  "tip_of H es = (if es = [] then (Undefined, zero_id, zero_hash)
     else (if hdr_detached (env_header (last es)) then Detached else Defined, eid (last es), commitment H (last es)))"

definition fiber_sequence :: "bytes \<Rightarrow> EventEnvelope list \<Rightarrow> bool" where
  "fiber_sequence f es \<longleftrightarrow> distinct (map eid es) \<and> list_all (\<lambda>e. eid e \<noteq> zero_id \<and> fid e = f) es"

lemma from_envelopes_loop_eq_Inr:
  "from_envelopes_loop H f es True Undefined zero_id zero_hash [] = Inr r \<longleftrightarrow>
    fiber_sequence f es \<and> linked H es \<and> r = tip_of H es"
proof (induction es arbitrary: r rule: rev_induct)
  case Nil
  then show ?case by (auto simp: fiber_sequence_def tip_of_def)
next
  case (snoc e es)
  have linked: "linked H (es @ [e]) \<longleftrightarrow>
      linked H es \<and> (if es = [] then prec e = zero_id \<and> prec_hash e = zero_hash else links H (last es) e)"
    by (cases es rule: rev_cases) (auto simp: linked_snoc)
  have last_nonzero: "es \<noteq> [] \<Longrightarrow> fiber_sequence f es \<Longrightarrow> eid (last es) \<noteq> zero_id"
    by (auto simp: fiber_sequence_def list_all_iff)
  show ?case
  proof (cases "fiber_sequence f es \<and> linked H es")
    case True
    then have "from_envelopes_loop H f es True Undefined zero_id zero_hash [] = Inr (tip_of H es)"
      using snoc.IH by blast
    with True show ?thesis
      using last_nonzero by (auto simp: from_envelopes_loop_append set_seen linked tip_of_def fiber_sequence_def links_def)
  next
    case False
    then have "\<And>r. from_envelopes_loop H f es True Undefined zero_id zero_hash [] \<noteq> Inr r" using snoc.IH by blast
    with False show ?thesis
      by (auto simp: from_envelopes_loop_append linked fiber_sequence_def result_simps)
  qed
qed

definition handle_of :: "blake3 \<Rightarrow> bytes \<Rightarrow> EventEnvelope list \<Rightarrow> FiberHandle" where
  "handle_of H f es = (case tip_of H es of (st, i, c) \<Rightarrow>
     \<lparr>fh_fiber_id = f, fh_state = st, fh_precursor = i, fh_precursor_hash = c, fh_event_count = of_nat (length es)\<rparr>)"

lemma handle_of_simps [simp]:
  "fh_fiber_id (handle_of H f es) = f" "fh_state (handle_of H f es) = fst (tip_of H es)"
  "fh_precursor (handle_of H f es) = fst (snd (tip_of H es))"
  "fh_precursor_hash (handle_of H f es) = snd (snd (tip_of H es))"
  "fh_event_count (handle_of H f es) = of_nat (length es)"
  by (simp_all add: handle_of_def split: prod.splits)

lemma from_envelopes_eq_Inr:
  "from_envelopes H f es = Inr h \<longleftrightarrow>
    length es \<le> unat MAX_EVENTS_PER_FIBER \<and> fiber_sequence f es \<and> linked H es \<and> h = handle_of H f es"
  by (auto simp: from_envelopes_def result_bind_eq_Inr from_envelopes_loop_eq_Inr handle_of_def tip_of_def
      FiberHandle_new_def fiber_sequence_def)

lemma unat_MAX_EVENTS [simp]: "unat MAX_EVENTS_PER_FIBER = 100000"
  by (simp add: MAX_EVENTS_PER_FIBER_def)

lemma event_count_room:
  "n \<le> 100000 \<Longrightarrow> (of_nat n :: u64) < MAX_EVENTS_PER_FIBER \<longleftrightarrow> n < 100000"
  by (simp add: word_less_nat_alt unat_of_nat take_bit_nat_eq_self)

section \<open>Properties\<close>

text \<open>An operation on a handle succeeds exactly when the event identifier is new to the tip and not
  zero, the event count is below its limit, a payload that starts the fiber over fits the wire, and the
  lifecycle permits the transition (append creates an undefined or purged fiber and updates a defined one,
  detach detaches, rescue rescues); it then mints the genesis or chained envelope and moves the handle's
  tip, state and count onto it.\<close>

lemma handle_step_exact:
  "handle_step H oper h i pl = Inr (env, h') \<longleftrightarrow>
    i \<noteq> zero_id \<and> i \<noteq> fh_precursor h \<and> fh_event_count h < MAX_EVENTS_PER_FIBER \<and>
    (if starts_over (fh_state h) then length pl + 85 \<le> U32_MAX else True) \<and>
    env = minted oper h i pl \<and>
    (\<exists>st'. apply_action (fh_state h) (lifecycle_action oper (fh_state h)) = Inr st' \<and>
       h' = advance_handle H h st' env)"
  by (auto simp: handle_step_eq_Inr)

text \<open>A sequence of envelopes is reconstructed into a handle exactly when it has at most the permitted
  number of events, all of the fiber, with distinct non-zero identifiers, forming one unbroken chain of
  commitments from a genesis; the handle then is the one at the end of the chain.\<close>

lemma from_envelopes_exact:
  "from_envelopes H f es = Inr h \<longleftrightarrow>
    length es \<le> 100000 \<and> distinct (map eid es) \<and> list_all (\<lambda>e. eid e \<noteq> zero_id \<and> fid e = f) es \<and>
    linked H es \<and> h = handle_of H f es"
  by (auto simp: from_envelopes_eq_Inr fiber_sequence_def)

text \<open>C23: recording what a handle mints and replaying the recording agree exactly where identifiers are fresh. When a
  handle was reconstructed from the recorded envelopes and an operation succeeds on it, the recording extended by the
  minted envelope reconstructs the handle the operation returned if the identifier occurs nowhere in the recording;
  otherwise the extended recording is refused. The operation itself compares the identifier with the tip only, so it
  does succeed with the identifier of an older event.\<close>

theorem replay_agrees_with_operation:
  assumes "from_envelopes H f es = Inr h" and "handle_step H oper h i pl = Inr (env, h')"
  shows "if i \<in> eid ` set es then \<not> is_ok (from_envelopes H f (es @ [env])) else from_envelopes H f (es @ [env]) = Inr h'"
proof -
  have es: "length es \<le> 100000" "fiber_sequence f es" "linked H es" and h: "h = handle_of H f es"
    using assms(1) by (simp_all add: from_envelopes_eq_Inr)
  from assms(2) obtain st' where st: "apply_action (fh_state h) (lifecycle_action oper (fh_state h)) = Inr st'"
    and st': "i \<noteq> zero_id" "fh_event_count h < MAX_EVENTS_PER_FIBER" "env = minted oper h i pl"
    "h' = advance_handle H h st' env"
    by (auto simp: handle_step_eq_Inr)
  have room: "length es < 100000" using st'(2) event_count_room [OF es(1)] by (simp add: h)
  have seq: "fiber_sequence f (es @ [env]) \<longleftrightarrow> i \<notin> eid ` set es"
    using es(2) st' by (auto simp: fiber_sequence_def minted_def h)
  have link: "linked H (es @ [env])"
  proof (cases es rule: rev_cases)
    case Nil
    then show ?thesis by (simp add: st' minted_def h tip_of_def starts_over_def)
  next
    case (snoc xs e)
    moreover have "eid e \<noteq> zero_id" using es(2) snoc by (simp add: fiber_sequence_def)
    ultimately show ?thesis
      using es(3) by (auto simp: linked_snoc links_def st' minted_def h tip_of_def starts_over_def)
  qed
  have "h' = handle_of H f (es @ [env])"
    using st by (cases oper; cases "es = []"; cases "hdr_detached (env_header (last es))")
      (auto simp: st' h handle_of_def tip_of_def advance_handle_def minted_def apply_action_def)
  with room seq link show ?thesis by (auto simp: from_envelopes_eq_Inr is_ok_iff)
qed

text \<open>Two events of one fiber, and a third operation that takes the identifier of the first.\<close>

theorem replay_agrees_with_operation_witness:
  "\<exists>e1 e2 e3 h1 h2 h3. handle_step (\<lambda>x. x) Append (FiberHandle_new [7]) [1] [5] = Inr (e1, h1) \<and>
    from_envelopes (\<lambda>x. x) [7] [e1] = Inr h1 \<and> handle_step (\<lambda>x. x) Append h1 [2] [5] = Inr (e2, h2) \<and>
    from_envelopes (\<lambda>x. x) [7] [e1, e2] = Inr h2 \<and> handle_step (\<lambda>x. x) Append h2 [1] [5] = Inr (e3, h3) \<and>
    \<not> is_ok (from_envelopes (\<lambda>x. x) [7] [e1, e2, e3])"
proof -
  note replay = replay_agrees_with_operation [where H = "\<lambda>x. x" and f = "[7]"]
  note step = handle_step_eq_Inr FiberHandle_new_def not_zero_id MAX_EVENTS_PER_FIBER_def U32_bound apply_action_def
    starts_over_def minted_def advance_handle_def
  have start: "from_envelopes (\<lambda>x. x) [7] [] = Inr (FiberHandle_new [7])" by (simp add: from_envelopes_def)
  obtain e1 h1 where s1: "handle_step (\<lambda>x. x) Append (FiberHandle_new [7]) [1] [5] = Inr (e1, h1)" "eid e1 = [1]"
      "fh_state h1 = Defined" "fh_precursor h1 = [1]" "fh_event_count h1 = 1"
    by (simp add: step del: handle_step.simps)
  obtain e2 h2 where s2: "handle_step (\<lambda>x. x) Append h1 [2] [5] = Inr (e2, h2)" "eid e2 = [2]"
      "fh_state h2 = Defined" "fh_precursor h2 = [2]" "fh_event_count h2 = 2"
    using s1(3-5) by (simp add: step del: handle_step.simps)
  obtain e3 h3 where s3: "handle_step (\<lambda>x. x) Append h2 [1] [5] = Inr (e3, h3)"
    using s2(3-5) by (simp add: step del: handle_step.simps)
  have r1: "from_envelopes (\<lambda>x. x) [7] [e1] = Inr h1" using replay [OF start s1(1)] by simp
  have r2: "from_envelopes (\<lambda>x. x) [7] [e1, e2] = Inr h2" using replay [OF r1 s2(1)] s1(2) by simp
  have "\<not> is_ok (from_envelopes (\<lambda>x. x) [7] [e1, e2, e3])" using replay [OF r2 s3] s1(2) by simp
  with s1(1) r1 s2(1) r2 s3 show ?thesis by blast
qed

end
