(* ===== verification/Session_Index.thy ===== *)
theory Session_Index
  imports Fiber_Handle
begin

text \<open>
  \<open>store/session_index.rs\<close>: the index a session keeps over its fibers. Operations that take
  \<open>&mut self\<close> return their result with the index they leave behind, also when they fail half-way. The
  text of a broken slot is not modelled: no branch reads it. \<open>fibers\<close> and \<open>seen_event_ids\<close> are an
  association list and a duplicate-free list.
\<close>

definition INDEX_MAX_ACTIVE_FIBERS :: nat where "INDEX_MAX_ACTIVE_FIBERS = 100000"

record FiberTip =
  tip_envelope :: EventEnvelope
  tip_event_count :: u64

datatype FiberSlot = Active FiberTip | Broken u64

record SessionIndex =
  si_fibers :: "(bytes \<times> FiberSlot) list"
  si_seen_event_ids :: "bytes list"
  si_revision :: u64
  si_has_raw_frames :: bool

definition SessionIndex_new :: SessionIndex where
  "SessionIndex_new = \<lparr>si_fibers = [], si_seen_event_ids = [], si_revision = 0, si_has_raw_frames = False\<rparr>"

definition mark_has_raw_frames :: "SessionIndex \<Rightarrow> SessionIndex" where
  "mark_has_raw_frames idx = idx\<lparr>si_has_raw_frames := True, si_revision := si_revision idx + 1\<rparr>"

fun slot_event_count :: "FiberSlot \<Rightarrow> u64" where
  "slot_event_count (Active tip) = tip_event_count tip"
| "slot_event_count (Broken n) = n"

definition mark_fiber_broken :: "SessionIndex \<Rightarrow> bytes \<Rightarrow> unit operation \<times> SessionIndex" where
  "mark_fiber_broken idx fiber_id =
    (if map_of (si_fibers idx) fiber_id = None \<and> length (si_fibers idx) \<ge> INDEX_MAX_ACTIVE_FIBERS
     then (Inl (ValueConstraintViolated_fc TooLong), idx)
     else
       (let event_count = (case map_of (si_fibers idx) fiber_id of Some slot \<Rightarrow> slot_event_count slot | None \<Rightarrow> 0) in
        (Inr (), idx\<lparr>si_fibers := AList.update fiber_id (Broken event_count) (si_fibers idx),
                     si_revision := si_revision idx + 1\<rparr>)))"

definition invalidate_fiber :: "SessionIndex \<Rightarrow> bytes \<Rightarrow> unit operation \<times> SessionIndex" where
  "invalidate_fiber idx fiber_id = mark_fiber_broken idx fiber_id"

fun is_broken :: "FiberSlot \<Rightarrow> bool" where
  "is_broken (Broken _) = True"
| "is_broken (Active _) = False"

definition has_broken_fibers :: "SessionIndex \<Rightarrow> bool" where
  "has_broken_fibers idx \<longleftrightarrow> list_ex (\<lambda>(f, slot). is_broken slot) (si_fibers idx)"

definition SessionIndex_len :: "SessionIndex \<Rightarrow> nat" where
  "SessionIndex_len idx = length (filter (\<lambda>(f, slot). \<not> is_broken slot) (si_fibers idx))"

definition SessionIndex_is_empty :: "SessionIndex \<Rightarrow> bool" where
  "SessionIndex_is_empty idx \<longleftrightarrow> SessionIndex_len idx = 0"

definition get_latest :: "SessionIndex \<Rightarrow> bytes \<Rightarrow> EventEnvelope option operation" where
  "get_latest idx fiber_id =
    (if si_has_raw_frames idx then Inl EnvelopeMismatch
     else
       (case map_of (si_fibers idx) fiber_id of
          Some (Active tip) \<Rightarrow> Inr (Some (tip_envelope tip))
        | Some (Broken _) \<Rightarrow> Inl (PrecursorChainBroken None)
        | None \<Rightarrow> Inr None))"

definition index_event_count :: "SessionIndex \<Rightarrow> bytes \<Rightarrow> u64 operation" where
  "index_event_count idx fiber_id =
    (if si_has_raw_frames idx then Inl EnvelopeMismatch
     else
       (case map_of (si_fibers idx) fiber_id of
          Some (Active tip) \<Rightarrow> Inr (tip_event_count tip)
        | Some (Broken _) \<Rightarrow> Inl (PrecursorChainBroken None)
        | None \<Rightarrow> Inr 0))"

definition index_fiber :: "blake3 \<Rightarrow> SessionIndex \<Rightarrow> bytes \<Rightarrow> FiberHandle operation" where
  "index_fiber H idx fiber_id =
    (if si_has_raw_frames idx then Inl EnvelopeMismatch
     else
       (case map_of (si_fibers idx) fiber_id of
          Some (Active tip) \<Rightarrow>
            with_state fiber_id
              (if hdr_detached (env_header (tip_envelope tip)) then Detached else Defined)
              (eid (tip_envelope tip)) (commitment H (tip_envelope tip)) (tip_event_count tip)
        | Some (Broken _) \<Rightarrow> Inl (PrecursorChainBroken None)
        | None \<Rightarrow> Inr (FiberHandle_new fiber_id)))"

definition max_seen_events :: nat where
  "max_seen_events = saturating_mul INDEX_MAX_ACTIVE_FIBERS (unat MAX_EVENTS_PER_FIBER)"

definition validate_append :: "blake3 \<Rightarrow> SessionIndex \<Rightarrow> EventEnvelope \<Rightarrow> unit operation" where
  "validate_append H idx envelope =
    (if si_has_raw_frames idx then Inl EnvelopeMismatch
     else if eid envelope = zero_id then Inl (ValueConstraintViolated_fc Empty)
     else if eid envelope \<in> set (si_seen_event_ids idx) then Inl (PrecursorChainBroken None)
     else if length (si_seen_event_ids idx) \<ge> max_seen_events then Inl (ValueConstraintViolated_fc TooLong)
     else
       (case map_of (si_fibers idx) (fid envelope) of
          Some (Broken _) \<Rightarrow> Inl InvariantBreakingConfiguration
        | Some (Active tip) \<Rightarrow>
            if prec envelope = zero_id then Inl (PrecursorChainBroken None)
            else if prec envelope \<noteq> eid (tip_envelope tip) then Inl (PrecursorChainBroken None)
            else if prec_hash envelope \<noteq> commitment H (tip_envelope tip) then Inl (PrecursorChainBroken None)
            else if tip_event_count tip \<ge> MAX_EVENTS_PER_FIBER then Inl (ValueConstraintViolated_fc TooLong)
            else Inr ()
        | None \<Rightarrow>
            if length (si_fibers idx) \<ge> INDEX_MAX_ACTIVE_FIBERS then Inl (ValueConstraintViolated_fc TooLong)
            else if prec envelope \<noteq> zero_id \<or> prec_hash envelope \<noteq> zero_hash then Inl (PrecursorChainBroken None)
            else Inr ()))"

definition prepare_append :: "blake3 \<Rightarrow> SessionIndex \<Rightarrow> EventEnvelope \<Rightarrow> unit operation" where
  "prepare_append H idx envelope = validate_append H idx envelope"

definition commit_envelope_unchecked :: "SessionIndex \<Rightarrow> EventEnvelope \<Rightarrow> SessionIndex" where
  "commit_envelope_unchecked idx envelope =
    (let slot = (case map_of (si_fibers idx) (fid envelope) of
                   Some (Active tip) \<Rightarrow> Active \<lparr>tip_envelope = envelope, tip_event_count = tip_event_count tip + 1\<rparr>
                 | _ \<Rightarrow> Active \<lparr>tip_envelope = envelope, tip_event_count = 1\<rparr>) in
     idx\<lparr>si_seen_event_ids := List.insert (eid envelope) (si_seen_event_ids idx),
         si_fibers := AList.update (fid envelope) slot (si_fibers idx),
         si_revision := si_revision idx + 1\<rparr>)"

definition commit_envelope :: "blake3 \<Rightarrow> SessionIndex \<Rightarrow> EventEnvelope \<Rightarrow> unit operation \<times> SessionIndex" where
  "commit_envelope H idx envelope =
    (case validate_append H idx envelope of
       Inl e \<Rightarrow> (Inl e, idx)
     | Inr _ \<Rightarrow> (Inr (), commit_envelope_unchecked idx envelope))"

definition decode_and_validate_frame :: "bytes \<Rightarrow> EventEnvelope operation" where
  "decode_and_validate_frame frame =
    result_bind (map_err (\<lambda>_. EnvelopeMismatch) (EventEnvelope_decode frame)) (\<lambda>(env, consumed).
      if consumed \<noteq> length frame then Inl EnvelopeMismatch else Inr env)"

definition record_broken_event_id :: "SessionIndex \<Rightarrow> bytes \<Rightarrow> bytes \<Rightarrow> unit operation \<times> SessionIndex" where
  "record_broken_event_id idx fiber_id event_id =
    (let counted =
       (case map_of (si_fibers idx) fiber_id of
          Some (Broken event_count) \<Rightarrow>
            (case checked_add_u64 event_count 1 of
               None \<Rightarrow> Inl (ValueConstraintViolated_fc TooLong)
             | Some next_count \<Rightarrow>
                 if next_count > MAX_EVENTS_PER_FIBER then Inl (ValueConstraintViolated_fc TooLong)
                 else Inr (idx\<lparr>si_fibers := AList.update fiber_id (Broken next_count) (si_fibers idx)\<rparr>))
        | _ \<Rightarrow> Inr idx) in
     case counted of
       Inl e \<Rightarrow> (Inl e, idx)
     | Inr idx1 \<Rightarrow>
         if event_id \<in> set (si_seen_event_ids idx1) then (Inr (), idx1)
         else if length (si_seen_event_ids idx1) \<ge> max_seen_events
         then (Inl (ValueConstraintViolated_fc TooLong), idx1)
         else (Inr (), idx1\<lparr>si_seen_event_ids := List.insert event_id (si_seen_event_ids idx1)\<rparr>))"

text \<open>The rest of \<open>process_frame\<close> once the envelope is decoded.\<close>

definition admit_frame :: "blake3 \<Rightarrow> SessionIndex \<Rightarrow> EventEnvelope \<Rightarrow> unit operation \<times> SessionIndex" where
  "admit_frame H idx env =
    (case map_of (si_fibers idx) (fid env) of
       Some (Broken _) \<Rightarrow> record_broken_event_id idx (fid env) (eid env)
     | _ \<Rightarrow>
         (case validate_append H idx env of
            Inr _ \<Rightarrow> (Inr (), commit_envelope_unchecked idx env)
          | Inl (PrecursorChainBroken c) \<Rightarrow>
              (case mark_fiber_broken idx (fid env) of
                 (Inl e, idx1) \<Rightarrow> (Inl e, idx1)
               | (Inr _, idx1) \<Rightarrow> record_broken_event_id idx1 (fid env) (eid env))
          | Inl e \<Rightarrow> (Inl e, idx)))"

definition process_frame :: "blake3 \<Rightarrow> SessionIndex \<Rightarrow> bytes \<Rightarrow> unit operation \<times> SessionIndex" where
  "process_frame H idx frame =
    (if length frame < 85 then (Inl EnvelopeMismatch, idx)
     else
       (case decode_and_validate_frame frame of
          Inl _ \<Rightarrow> (Inl EnvelopeMismatch, idx)
        | Inr env \<Rightarrow> admit_frame H idx env))"

fun process_frames :: "blake3 \<Rightarrow> SessionIndex \<Rightarrow> bytes list \<Rightarrow> SessionIndex operation" where
  "process_frames H idx [] = Inr idx"
| "process_frames H idx (frame # rest) =
    (case process_frame H idx frame of
       (Inl e, _) \<Rightarrow> Inl e
     | (Inr _, idx1) \<Rightarrow> process_frames H idx1 rest)"

definition build_from_frames :: "blake3 \<Rightarrow> bytes list \<Rightarrow> SessionIndex operation" where
  "build_from_frames H frames = process_frames H SessionIndex_new frames"

section \<open>The index invariant\<close>

fun slot_inv :: "bytes list \<Rightarrow> bytes \<Rightarrow> FiberSlot \<Rightarrow> bool" where
  "slot_inv seen f (Active tip) \<longleftrightarrow> fid (tip_envelope tip) = f \<and> eid (tip_envelope tip) \<in> set seen \<and>
     eid (tip_envelope tip) \<noteq> zero_id \<and> 1 \<le> tip_event_count tip \<and> tip_event_count tip \<le> MAX_EVENTS_PER_FIBER"
| "slot_inv seen f (Broken n) \<longleftrightarrow> n \<le> MAX_EVENTS_PER_FIBER"

definition index_inv :: "SessionIndex \<Rightarrow> bool" where
  "index_inv idx \<longleftrightarrow> distinct_keys (si_fibers idx) \<and> distinct (si_seen_event_ids idx) \<and>
     length (si_fibers idx) \<le> INDEX_MAX_ACTIVE_FIBERS \<and> length (si_seen_event_ids idx) \<le> max_seen_events \<and>
     (\<forall>f slot. map_of (si_fibers idx) f = Some slot \<longrightarrow> slot_inv (si_seen_event_ids idx) f slot)"

lemma index_inv_slot:
  "index_inv idx \<Longrightarrow> map_of (si_fibers idx) f = Some slot \<Longrightarrow> slot_inv (si_seen_event_ids idx) f slot"
  by (simp add: index_inv_def)

lemma slot_inv_more: "slot_inv seen f slot \<Longrightarrow> set seen \<subseteq> set seen' \<Longrightarrow> slot_inv seen' f slot"
  by (cases slot) auto

lemma slot_event_count_bound: "slot_inv seen f slot \<Longrightarrow> slot_event_count slot \<le> MAX_EVENTS_PER_FIBER"
  by (cases slot) auto

text \<open>Replacing one slot, with more identifiers seen, keeps the invariant.\<close>

lemma index_inv_put:
  assumes "index_inv idx" and "slot_inv seen f slot" and "set (si_seen_event_ids idx) \<subseteq> set seen"
    and "distinct seen" and "length seen \<le> max_seen_events"
    and "map_of (si_fibers idx) f = None \<Longrightarrow> length (si_fibers idx) < INDEX_MAX_ACTIVE_FIBERS"
  shows "index_inv (idx\<lparr>si_seen_event_ids := seen, si_fibers := AList.update f slot (si_fibers idx),
    si_revision := rv\<rparr>)"
  using assms by (auto simp: index_inv_def length_update intro: slot_inv_more [of "si_seen_event_ids idx"] split: if_splits)

lemma index_inv_put_slot:
  assumes "index_inv idx" and "slot_inv (si_seen_event_ids idx) f slot"
    and "map_of (si_fibers idx) f = None \<Longrightarrow> length (si_fibers idx) < INDEX_MAX_ACTIVE_FIBERS"
  shows "index_inv (idx\<lparr>si_fibers := AList.update f slot (si_fibers idx)\<rparr>)"
    and "index_inv (idx\<lparr>si_fibers := AList.update f slot (si_fibers idx), si_revision := rv\<rparr>)"
  using assms by (auto simp: index_inv_def length_update split: if_splits)

lemma mark_fiber_broken_inv:
  assumes "index_inv idx" and "mark_fiber_broken idx f = (r, idx')"
  shows "index_inv idx'"
proof (cases "map_of (si_fibers idx) f = None \<and> length (si_fibers idx) \<ge> INDEX_MAX_ACTIVE_FIBERS")
  case True
  then show ?thesis using assms by (auto simp: mark_fiber_broken_def)
next
  case False
  let ?n = "case map_of (si_fibers idx) f of Some slot \<Rightarrow> slot_event_count slot | None \<Rightarrow> 0"
  have "?n \<le> MAX_EVENTS_PER_FIBER"
    using slot_event_count_bound [OF index_inv_slot [OF assms(1), of f]]
    by (cases "map_of (si_fibers idx) f") simp_all
  then have "slot_inv (si_seen_event_ids idx) f (Broken ?n)" by simp
  from index_inv_put_slot(2) [OF assms(1) this, of "si_revision idx + 1"] False assms(2) show ?thesis
    by (auto simp: mark_fiber_broken_def Let_def)
qed

lemma record_broken_event_id_inv:
  assumes "index_inv idx" and "record_broken_event_id idx f i = (r, idx')"
  shows "index_inv idx'"
proof -
  have see: "index_inv (j\<lparr>si_seen_event_ids := List.insert i (si_seen_event_ids j)\<rparr>)"
    if "index_inv j" "i \<notin> set (si_seen_event_ids j)" "length (si_seen_event_ids j) < max_seen_events" for j
    using that by (auto simp: index_inv_def length_insert_set intro: slot_inv_more [of "si_seen_event_ids j"])
  have count: "index_inv (idx\<lparr>si_fibers := AList.update f (Broken n) (si_fibers idx)\<rparr>)"
    if "n \<le> MAX_EVENTS_PER_FIBER" "map_of (si_fibers idx) f = Some (Broken m)" for n m
    using index_inv_put_slot(1) [OF assms(1), of f "Broken n"] that by simp
  have then_see: "index_inv idx'"
    if "(if i \<in> set (si_seen_event_ids j) then (Inr (), j)
         else if length (si_seen_event_ids j) \<ge> max_seen_events then (Inl (ValueConstraintViolated_fc TooLong), j)
         else (Inr (), j\<lparr>si_seen_event_ids := List.insert i (si_seen_event_ids j)\<rparr>)) = (r, idx')"
      and "index_inv j" for j
    using that see [of j] by (auto split: if_splits)
  show ?thesis
  proof (cases "\<exists>m. map_of (si_fibers idx) f = Some (Broken m)")
    case False
    then show ?thesis using then_see [of idx] assms
      by (auto simp: record_broken_event_id_def Let_def split: option.splits FiberSlot.splits)
  next
    case True
    then obtain m where m: "map_of (si_fibers idx) f = Some (Broken m)" by blast
    show ?thesis
    proof (cases "\<exists>n. checked_add_u64 m 1 = Some n \<and> n \<le> MAX_EVENTS_PER_FIBER")
      case False
      then show ?thesis using m assms by (auto simp: record_broken_event_id_def Let_def not_le split: option.splits)
    next
      case True
      then obtain n where n: "checked_add_u64 m 1 = Some n" "n \<le> MAX_EVENTS_PER_FIBER" by blast
      show ?thesis
        by (rule then_see [OF _ count [OF n(2) m]]) (use m n assms(2) in \<open>simp add: record_broken_event_id_def Let_def not_less [symmetric]\<close>)
    qed
  qed
qed

lemma commit_unchecked_inv:
  assumes "index_inv idx" and "validate_append H idx e = Inr u"
  shows "index_inv (commit_envelope_unchecked idx e)"
proof -
  let ?seen = "List.insert (eid e) (si_seen_event_ids idx)"
  have v: "eid e \<noteq> zero_id" "eid e \<notin> set (si_seen_event_ids idx)" "length (si_seen_event_ids idx) < max_seen_events"
    using assms(2) by (auto simp: validate_append_def not_le split: if_splits)
  then have seen: "set (si_seen_event_ids idx) \<subseteq> set ?seen" "distinct ?seen" "length ?seen \<le> max_seen_events"
    using assms(1) by (auto simp: index_inv_def length_insert_set)
  show ?thesis
  proof (cases "map_of (si_fibers idx) (fid e)")
    case None
    then have "length (si_fibers idx) < INDEX_MAX_ACTIVE_FIBERS"
      using assms(2) by (auto simp: validate_append_def not_le split: if_splits)
    moreover have "slot_inv ?seen (fid e) (Active \<lparr>tip_envelope = e, tip_event_count = 1\<rparr>)"
      using v by (simp add: MAX_EVENTS_PER_FIBER_def)
    ultimately show ?thesis
      using index_inv_put [OF assms(1) _ seen] None by (simp add: commit_envelope_unchecked_def Let_def)
  next
    case (Some slot)
    then obtain tip where tip: "slot = Active tip" "tip_event_count tip < MAX_EVENTS_PER_FIBER"
      using assms(2) by (cases slot) (auto simp: validate_append_def not_le split: if_splits)
    have "1 \<le> tip_event_count tip + 1 \<and> tip_event_count tip + 1 \<le> MAX_EVENTS_PER_FIBER"
      using tip(2) by (simp add: MAX_EVENTS_PER_FIBER_def word_le_nat_alt word_less_nat_alt unat_word_ariths(1))
    then have "slot_inv ?seen (fid e) (Active \<lparr>tip_envelope = e, tip_event_count = tip_event_count tip + 1\<rparr>)"
      using v by simp
    from index_inv_put [OF assms(1) this seen] Some tip(1) show ?thesis
      by (simp add: commit_envelope_unchecked_def Let_def)
  qed
qed

lemma admit_frame_cases:
  obtains (broken) n where "map_of (si_fibers idx) (fid env) = Some (Broken n)"
      "admit_frame H idx env = record_broken_event_id idx (fid env) (eid env)"
    | (commit) "validate_append H idx env = Inr ()" "\<not> (\<exists>n. map_of (si_fibers idx) (fid env) = Some (Broken n))"
      "admit_frame H idx env = (Inr (), commit_envelope_unchecked idx env)"
    | (full) e idx1 where "mark_fiber_broken idx (fid env) = (Inl e, idx1)" "admit_frame H idx env = (Inl e, idx1)"
    | (mark) idx1 where "mark_fiber_broken idx (fid env) = (Inr (), idx1)"
      "admit_frame H idx env = record_broken_event_id idx1 (fid env) (eid env)"
    | (refuse) e where "admit_frame H idx env = (Inl e, idx)"
proof (cases "\<exists>n. map_of (si_fibers idx) (fid env) = Some (Broken n)")
  case True
  then show ?thesis using broken by (auto simp: admit_frame_def)
next
  case False
  then have *: "admit_frame H idx env =
      (case validate_append H idx env of
         Inr _ \<Rightarrow> (Inr (), commit_envelope_unchecked idx env)
       | Inl (PrecursorChainBroken c) \<Rightarrow>
           (case mark_fiber_broken idx (fid env) of
              (Inl e, idx1) \<Rightarrow> (Inl e, idx1)
            | (Inr _, idx1) \<Rightarrow> record_broken_event_id idx1 (fid env) (eid env))
       | Inl e \<Rightarrow> (Inl e, idx))"
    by (auto simp: admit_frame_def split: option.splits FiberSlot.splits)
  show ?thesis
  proof (cases "validate_append H idx env")
    case (Inr u)
    then show ?thesis using commit False * by simp
  next
    case (Inl e)
    obtain r idx1 where m: "mark_fiber_broken idx (fid env) = (r, idx1)" by (cases "mark_fiber_broken idx (fid env)")
    show ?thesis using * Inl m full mark refuse by (cases e; cases r) auto
  qed
qed

lemma process_frame_inv:
  assumes "index_inv idx" and "process_frame H idx frame = (r, idx')"
  shows "index_inv idx'"
proof (cases "length frame < 85 \<or> (\<exists>e. decode_and_validate_frame frame = Inl e)")
  case True
  then show ?thesis using assms by (auto simp: process_frame_def split: if_splits)
next
  case False
  then obtain env where adm: "admit_frame H idx env = (r, idx')"
    using assms(2) by (cases "decode_and_validate_frame frame") (auto simp: process_frame_def)
  then show ?thesis
  proof (cases rule: admit_frame_cases [of idx env H])
    case broken
    then show ?thesis using record_broken_event_id_inv [OF assms(1)] adm by metis
  next
    case commit
    then show ?thesis using commit_unchecked_inv [OF assms(1)] adm by simp
  next
    case full
    then show ?thesis using mark_fiber_broken_inv [OF assms(1)] adm by simp
  next
    case (mark idx1)
    then show ?thesis
      using record_broken_event_id_inv [OF mark_fiber_broken_inv [OF assms(1) mark(1)]] adm
      by metis
  next
    case refuse
    then show ?thesis using assms(1) adm by simp
  qed
qed

text \<open>Every index a session can have: the constructor and all public operations, in any order.\<close>

inductive index_reachable :: "blake3 \<Rightarrow> SessionIndex \<Rightarrow> bool" for H where
  fresh: "index_reachable H SessionIndex_new"
| raw: "index_reachable H idx \<Longrightarrow> index_reachable H (mark_has_raw_frames idx)"
| broken: "index_reachable H idx \<Longrightarrow> mark_fiber_broken idx f = (r, idx') \<Longrightarrow> index_reachable H idx'"
| commit: "index_reachable H idx \<Longrightarrow> commit_envelope H idx e = (r, idx') \<Longrightarrow> index_reachable H idx'"
| frame: "index_reachable H idx \<Longrightarrow> process_frame H idx bs = (r, idx') \<Longrightarrow> index_reachable H idx'"

lemma commit_envelope_inv:
  "index_inv idx \<Longrightarrow> commit_envelope H idx e = (r, idx') \<Longrightarrow> index_inv idx'"
  by (auto simp: commit_envelope_def split: sum.splits intro: commit_unchecked_inv)

lemma index_reachable_inv: "index_reachable H idx \<Longrightarrow> index_inv idx"
proof (induction rule: index_reachable.induct)
  case fresh
  then show ?case by (simp add: index_inv_def SessionIndex_new_def)
next
  case (raw idx)
  then show ?case by (simp add: index_inv_def mark_has_raw_frames_def)
qed (auto intro: mark_fiber_broken_inv commit_envelope_inv process_frame_inv)

section \<open>Isolation of fibers\<close>

lemma record_broken_event_id_other:
  "record_broken_event_id idx f i = (r, idx') \<Longrightarrow> g \<noteq> f \<Longrightarrow> map_of (si_fibers idx') g = map_of (si_fibers idx) g"
  by (auto simp: record_broken_event_id_def Let_def split: option.splits FiberSlot.splits if_splits sum.splits)

lemma record_broken_event_id_broken:
  "record_broken_event_id idx f i = (r, idx') \<Longrightarrow> map_of (si_fibers idx) f = Some (Broken n) \<Longrightarrow>
    \<exists>m. map_of (si_fibers idx') f = Some (Broken m)"
  by (auto simp: record_broken_event_id_def Let_def split: option.splits FiberSlot.splits if_splits sum.splits)

lemma mark_fiber_broken_slots:
  "mark_fiber_broken idx f = (r, idx') \<Longrightarrow> g \<noteq> f \<Longrightarrow> map_of (si_fibers idx') g = map_of (si_fibers idx) g"
  "mark_fiber_broken idx f = (Inr u, idx') \<Longrightarrow> \<exists>m. map_of (si_fibers idx') f = Some (Broken m)"
  "mark_fiber_broken idx f = (Inl e, idx') \<Longrightarrow> idx' = idx"
  by (auto simp: mark_fiber_broken_def Let_def split: if_splits)

lemma commit_unchecked_other:
  "g \<noteq> fid e \<Longrightarrow> map_of (si_fibers (commit_envelope_unchecked idx e)) g = map_of (si_fibers idx) g"
  by (simp add: commit_envelope_unchecked_def Let_def)

lemma admit_frame_other:
  assumes "admit_frame H idx env = (r, idx')" and "g \<noteq> fid env"
  shows "map_of (si_fibers idx') g = map_of (si_fibers idx) g"
proof (cases rule: admit_frame_cases [of idx env H])
  case broken
  then show ?thesis using record_broken_event_id_other assms by metis
next
  case commit
  then show ?thesis using commit_unchecked_other assms by auto
next
  case full
  then show ?thesis using mark_fiber_broken_slots(3) assms by auto
next
  case (mark idx1)
  then show ?thesis
    using record_broken_event_id_other [OF _ assms(2)] mark_fiber_broken_slots(1) [OF mark(1) assms(2)] assms(1) by metis
next
  case refuse
  then show ?thesis using assms(1) by simp
qed

text \<open>A frame that breaks its chain does not get in: the fiber ends up broken, whatever it was.\<close>

lemma admit_frame_chain_broken:
  assumes "admit_frame H idx env = (Inr u, idx')"
    and "\<not> is_ok (validate_append H idx env) \<or> (\<exists>n. map_of (si_fibers idx) (fid env) = Some (Broken n))"
  shows "\<exists>n. map_of (si_fibers idx') (fid env) = Some (Broken n)"
proof (cases rule: admit_frame_cases [of idx env H])
  case (mark idx1)
  then show ?thesis
    using record_broken_event_id_broken mark_fiber_broken_slots(2) [OF mark(1)] assms(1) by metis
next
  case broken
  then show ?thesis using record_broken_event_id_broken assms(1) by metis
qed (use assms in auto)

section \<open>Refinement of the abstract log\<close>

definition log_slot :: "EventEnvelope list \<Rightarrow> bytes \<Rightarrow> FiberSlot option" where
  "log_slot log f = (let es = fiber_events log f in
     if es = [] then None
     else Some (Active \<lparr>tip_envelope = last es, tip_event_count = of_nat (length es)\<rparr>))"

text \<open>The index holds exactly \<open>log\<close>: no raw frames, one active slot per fiber with its last event and
  its number of events, and the identifiers of all events.\<close>

definition indexes :: "blake3 \<Rightarrow> EventEnvelope list \<Rightarrow> SessionIndex \<Rightarrow> bool" where
  "indexes H log idx \<longleftrightarrow> valid_log H log \<and> list_all (\<lambda>e. eid e \<noteq> zero_id) log \<and>
     (\<forall>f. length (fiber_events log f) \<le> 100000) \<and>
     \<not> si_has_raw_frames idx \<and> index_inv idx \<and> map_of (si_fibers idx) = log_slot log \<and>
     set (si_seen_event_ids idx) = eid ` set log"

definition log_room :: "EventEnvelope list \<Rightarrow> EventEnvelope \<Rightarrow> bool" where
  "log_room log e \<longleftrightarrow> eid e \<noteq> zero_id \<and> length log < max_seen_events \<and>
     length (fiber_events log (fid e)) < 100000 \<and>
     (last_on_fiber log (fid e) = None \<longrightarrow> card (fid ` set log) < INDEX_MAX_ACTIVE_FIBERS)"

lemma log_slot_None: "log_slot log f = None \<longleftrightarrow> last_on_fiber log f = None"
  by (simp add: log_slot_def last_on_fiber_def Let_def)

lemma log_slot_Some:
  "last_on_fiber log f = Some p \<Longrightarrow>
    log_slot log f = Some (Active \<lparr>tip_envelope = p, tip_event_count = of_nat (length (fiber_events log f))\<rparr>)"
  by (auto simp: log_slot_def last_on_fiber_def Let_def split: if_splits)

lemma log_slot_snoc:
  "log_slot (log @ [e]) = (log_slot log)(fid e \<mapsto>
     Active \<lparr>tip_envelope = e, tip_event_count = of_nat (length (fiber_events log (fid e))) + 1\<rparr>)"
  by (auto simp: log_slot_def fiber_events_def Let_def fun_eq_iff)

lemma indexes_lengths:
  assumes "indexes H log idx"
  shows "length (si_seen_event_ids idx) = length log" and "length (si_fibers idx) = card (fid ` set log)"
proof -
  have "length (si_seen_event_ids idx) = card (set (si_seen_event_ids idx))"
    using assms distinct_card [of "si_seen_event_ids idx"] by (simp add: indexes_def index_inv_def)
  also have "\<dots> = card (set (map eid log))" using assms by (simp add: indexes_def)
  also have "\<dots> = length log" using distinct_card [of "map eid log"] valid_log_distinct [of H log] assms by (simp add: indexes_def)
  finally show "length (si_seen_event_ids idx) = length log" .
  have "length (si_fibers idx) = card (fst ` set (si_fibers idx))"
    using assms by (metis indexes_def index_inv_def distinct_card length_map set_map)
  also have "fst ` set (si_fibers idx) = {f. log_slot log f \<noteq> None}"
    using assms by (auto simp: indexes_def dom_map_of_conv_image_fst [symmetric] dom_def)
  also have "\<dots> = fid ` set log" by (auto simp: log_slot_None last_on_fiber_None)
  finally show "length (si_fibers idx) = card (fid ` set log)" .
qed

lemma validate_append_iff:
  assumes "indexes H log idx"
  shows "validate_append H idx e = Inr () \<longleftrightarrow> admissible H log e \<and> log_room log e"
proof -
  note i = assms [unfolded indexes_def]
  have seen: "eid e \<in> set (si_seen_event_ids idx) \<longleftrightarrow> event_fiber log (eid e) \<noteq> None"
    using i by (auto simp: event_fiber_None)
  have count: "(of_nat (length (fiber_events log (fid e))) :: u64) < MAX_EVENTS_PER_FIBER \<longleftrightarrow>
      length (fiber_events log (fid e)) < 100000"
    using i event_count_room by blast
  show ?thesis
  proof (cases "last_on_fiber log (fid e)")
    case None
    then have "fiber_events log (fid e) = []" by (simp add: last_on_fiber_def Let_def split: if_splits)
    with None i seen indexes_lengths [OF assms] show ?thesis
      by (auto simp: validate_append_def log_slot_None [THEN iffD2] admissible_def log_room_def)
  next
    case (Some p)
    then have "eid p \<noteq> zero_id" using i last_on_fiber_member [OF Some] by (auto simp: list_all_iff)
    with Some i seen count indexes_lengths [OF assms] show ?thesis
      by (auto simp: validate_append_def log_slot_Some admissible_def log_room_def not_less)
  qed
qed

lemma commit_unchecked_indexes:
  assumes "indexes H log idx" and "validate_append H idx e = Inr ()"
  shows "indexes H (log @ [e]) (commit_envelope_unchecked idx e)"
proof -
  note i = assms(1) [unfolded indexes_def]
  have adm: "admissible H log e" "log_room log e" using validate_append_iff [OF assms(1)] assms(2) by simp_all
  have slots: "map_of (si_fibers (commit_envelope_unchecked idx e)) = log_slot (log @ [e])"
  proof (cases "last_on_fiber log (fid e)")
    case None
    then have "fiber_events log (fid e) = []" by (simp add: last_on_fiber_def Let_def split: if_splits)
    with None i show ?thesis
      by (simp add: commit_envelope_unchecked_def Let_def log_slot_snoc log_slot_None [THEN iffD2])
  next
    case (Some p)
    with i show ?thesis by (simp add: commit_envelope_unchecked_def Let_def log_slot_snoc log_slot_Some)
  qed
  have "length (fiber_events (log @ [e]) f) \<le> 100000" for f
    using i adm(2) by (auto simp: fiber_events_def log_room_def Suc_le_eq)
  then show ?thesis
    using i adm slots commit_unchecked_inv [of idx H e "()"] assms(2)
    by (auto simp: indexes_def log_room_def commit_envelope_unchecked_def Let_def intro: valid_log.extend)
qed

text \<open>The index as a keeper of the log: a commit is accepted when it returns \<open>Ok\<close>.\<close>

definition index_accept :: "blake3 \<Rightarrow> SessionIndex \<Rightarrow> EventEnvelope \<Rightarrow> SessionIndex option" where
  "index_accept H idx e = (case commit_envelope H idx e of (Inr _, idx') \<Rightarrow> Some idx' | (Inl _, _) \<Rightarrow> None)"

lemma index_accept_eq_Some:
  "index_accept H idx e = Some idx' \<longleftrightarrow>
    validate_append H idx e = Inr () \<and> idx' = commit_envelope_unchecked idx e"
  by (auto simp: index_accept_def commit_envelope_def split: sum.splits)

interpretation session: complete_log_keeper H "index_accept H" SessionIndex_new "indexes H" log_room for H
proof unfold_locales
  show "indexes H [] SessionIndex_new"
    by (auto simp: indexes_def valid_log.empty SessionIndex_new_def index_inv_def fiber_events_def log_slot_def)
next
  fix log s e s'
  assume "indexes H log s" "index_accept H s e = Some s'"
  then show "admissible H log e" "indexes H (log @ [e]) s'"
    using validate_append_iff commit_unchecked_indexes by (auto simp: index_accept_eq_Some)
next
  fix log s e
  assume "indexes H log s" "admissible H log e" "log_room log e"
  then show "index_accept H s e \<noteq> None"
    using validate_append_iff by (metis index_accept_eq_Some option.distinct(1))
qed

text \<open>Within the limits a whole log fits, one envelope after the other.\<close>

definition log_fits :: "EventEnvelope list \<Rightarrow> bool" where
  "log_fits log \<longleftrightarrow> list_all (\<lambda>e. eid e \<noteq> zero_id) log \<and> length log \<le> max_seen_events \<and>
     (\<forall>f. length (fiber_events log f) \<le> 100000) \<and> card (fid ` set log) \<le> INDEX_MAX_ACTIVE_FIBERS"

lemma log_fits_room: "log_fits (log @ es) \<Longrightarrow> session.room_for log es"
proof (induction es arbitrary: log)
  case Nil
  then show ?case by simp
next
  case (Cons e es)
  have "length (fiber_events (log @ e # es) (fid e)) \<le> 100000" using Cons.prems by (simp add: log_fits_def)
  then have count: "length (fiber_events log (fid e)) < 100000" by (simp add: fiber_events_def)
  have fresh: "card (fid ` set log) < card (fid ` set (log @ e # es))" if "last_on_fiber log (fid e) = None"
  proof (rule psubset_card_mono)
    have "fid e \<notin> fid ` set log" using that by (force simp: last_on_fiber_None)
    then show "fid ` set log \<subset> fid ` set (log @ e # es)" by auto
  qed simp
  have "log_room log e"
    using Cons.prems count fresh by (auto simp: log_room_def log_fits_def)
  then show ?case using Cons.IH [of "log @ [e]"] Cons.prems by simp
qed

lemma decode_encoded_frame:
  assumes "EnvelopeHeader_wf (env_header e)" and "EventEnvelope_encode e = Inr bs"
  shows "decode_and_validate_frame bs = Inr e" and "\<not> length bs < 85"
proof -
  have fits: "EventEnvelope_fits e" and bs: "bs = envelope_bytes e"
    using assms(2) by (auto simp: EventEnvelope_encode_eq split: if_splits)
  then have "EventEnvelope_wf e" using assms(1) by (simp add: EventEnvelope_wf_def EventEnvelope_fits_def)
  from envelope.dec_enc [OF this, of "[]"] bs show "decode_and_validate_frame bs = Inr e"
    by (simp add: decode_and_validate_frame_def)
  show "\<not> length bs < 85" using assms(1) by (simp add: bs envelope_bytes_def EventBytes_encode_def)
qed

lemma process_frames_accept_all:
  assumes "list_all2 (\<lambda>e bs. EnvelopeHeader_wf (env_header e) \<and> EventEnvelope_encode e = Inr bs) log frames"
    and "session.accept_all H idx log = Some idx'" and "indexes H old idx"
  shows "process_frames H idx frames = Inr idx'"
  using assms
proof (induction arbitrary: idx old rule: list_all2_induct)
  case Nil
  then show ?case by simp
next
  case (Cons e log bs frames)
  from Cons.prems(1) obtain idx1 where c: "index_accept H idx e = Some idx1" "session.accept_all H idx1 log = Some idx'"
    by (auto simp: bind_eq_Some_conv)
  then have v: "validate_append H idx e = Inr ()" "idx1 = commit_envelope_unchecked idx e"
    by (simp_all add: index_accept_eq_Some)
  have "\<not> (\<exists>n. map_of (si_fibers idx) (fid e) = Some (Broken n))"
    using Cons.prems(2) by (auto simp: indexes_def log_slot_def Let_def)
  then have "admit_frame H idx e = (Inr (), idx1)"
    using v by (auto simp: admit_frame_def split: option.splits FiberSlot.splits)
  then have "process_frame H idx bs = (Inr (), idx1)"
    using decode_encoded_frame [of e bs] Cons.hyps(1) by (simp add: process_frame_def)
  with Cons.IH [OF c(2) session.accept_keeps [OF Cons.prems(2) c(1)]] show ?case by simp
qed

section \<open>Properties\<close>

text \<open>A genesis envelope the witnesses use.\<close>

definition sample_event :: EventEnvelope where
  "sample_event = \<lparr>env_header = \<lparr>hdr_event_id = replicate 16 1, hdr_fiber_id = zero_id, hdr_detached = False,
     hdr_precursor = zero_id, hdr_precursor_hash = zero_hash\<rparr>, env_payload = []\<rparr>"

lemma sample_event_nonzero [simp]: "replicate 16 1 \<noteq> zero_id"
  by (simp add: zero_id_def)

lemma sample_event_valid: "valid_log H [sample_event]" "log_fits [sample_event]" "log_room [] sample_event"
  "admissible H [] sample_event" "EnvelopeHeader_wf (env_header sample_event)"
  "EventEnvelope_encode sample_event = Inr (envelope_bytes sample_event)"
proof -
  have big: "1 \<le> max_seen_events" "1 \<le> INDEX_MAX_ACTIVE_FIBERS"
    by (simp_all add: max_seen_events_def INDEX_MAX_ACTIVE_FIBERS_def saturating_mul_def USIZE_bound)
  show adm: "admissible H [] sample_event"
    by (simp add: admissible_def sample_event_def event_fiber_def last_on_fiber_def fiber_events_def)
  show "valid_log H [sample_event]" using valid_log.extend [OF valid_log.empty adm] by simp
  show "log_fits [sample_event]" "log_room [] sample_event"
    using big by (simp_all add: log_fits_def log_room_def sample_event_def fiber_events_def)
  show "EnvelopeHeader_wf (env_header sample_event)" by (simp add: sample_event_def EnvelopeHeader_wf_def)
  show "EventEnvelope_encode sample_event = Inr (envelope_bytes sample_event)"
    by (simp add: EventEnvelope_encode_eq EventEnvelope_fits_def sample_event_def U32_bound)
qed

text \<open>C28: whatever a session does to its index, in any order and whether an operation succeeds or fails,
  the index keeps at most one slot per fiber and at most 100000 of them, an active slot holds an event of
  its own fiber whose identifier was recorded and counts between 1 and 100000 events, a broken slot counts
  no more than 100000, and recorded identifiers are distinct and within the aggregate bound.\<close>

theorem session_index_invariant:
  assumes "index_reachable H idx"
  shows "index_inv idx"
  using assms by (rule index_reachable_inv)

theorem session_index_invariant_witness:
  "index_inv (snd (mark_fiber_broken (mark_has_raw_frames SessionIndex_new) [7]))"
proof -
  have "index_reachable (\<lambda>x. x) (snd (mark_fiber_broken (mark_has_raw_frames SessionIndex_new) [7]))"
    by (rule index_reachable.broken [OF index_reachable.raw [OF index_reachable.fresh], where f = "[7]"]) (rule prod.collapse [symmetric])
  then show ?thesis by (rule session_index_invariant)
qed

text \<open>Recovery isolates fibers: a frame changes no slot but that of its own fiber, whatever its
  outcome; and when it is taken in although its fiber was broken or its chain does not check, the fiber is
  broken afterwards, so no later envelope revives it.\<close>

lemma frame_isolates_fibers:
  assumes "process_frame H idx frame = (r, idx')" and "decode_and_validate_frame frame = Inr env"
  shows "(g = fid env \<or> map_of (si_fibers idx') g = map_of (si_fibers idx) g) \<and>
    (is_ok r \<and> (\<not> is_ok (validate_append H idx env) \<or> (\<exists>n. map_of (si_fibers idx) (fid env) = Some (Broken n)))
     \<longrightarrow> (\<exists>n. map_of (si_fibers idx') (fid env) = Some (Broken n)))"
proof (cases "length frame < 85")
  case True
  then show ?thesis using assms by (auto simp: process_frame_def)
next
  case False
  then have adm: "admit_frame H idx env = (r, idx')" using assms by (simp add: process_frame_def)
  show ?thesis
  proof (intro conjI impI)
    show "g = fid env \<or> map_of (si_fibers idx') g = map_of (si_fibers idx) g"
      using admit_frame_other [OF adm] by blast
  next
    assume *: "is_ok r \<and> (\<not> is_ok (validate_append H idx env) \<or> (\<exists>n. map_of (si_fibers idx) (fid env) = Some (Broken n)))"
    then obtain u where "r = Inr u" by (auto simp: is_ok_iff)
    with admit_frame_chain_broken [of H idx env u idx'] adm * show "\<exists>n. map_of (si_fibers idx') (fid env) = Some (Broken n)"
      by blast
  qed
qed

text \<open>C19: on an index that holds a log, a commit succeeds exactly when the envelope extends the log (a new
  identifier, a genesis on a fresh fiber or the exact identifier and commitment of the fiber's last event)
  and the limits leave room; the index then holds the extended log. Otherwise the commit reports an error
  and leaves the index as it was.\<close>

theorem commit_envelope_refines_log:
  assumes "indexes H log idx"
  shows "if admissible H log e \<and> log_room log e
    then commit_envelope H idx e = (Inr (), commit_envelope_unchecked idx e) \<and>
      indexes H (log @ [e]) (commit_envelope_unchecked idx e)
    else (\<exists>err. commit_envelope H idx e = (Inl err, idx))"
proof (cases "validate_append H idx e")
  case (Inl err)
  then show ?thesis using validate_append_iff [OF assms, of e] by (auto simp: commit_envelope_def)
next
  case (Inr u)
  then show ?thesis
    using validate_append_iff [OF assms, of e] commit_unchecked_indexes [OF assms, of e]
    by (simp add: commit_envelope_def)
qed

theorem commit_envelope_refines_log_witness:
  "indexes (\<lambda>x. x) [sample_event] (commit_envelope_unchecked SessionIndex_new sample_event)"
  using commit_envelope_refines_log [OF session.keeps_start [of "\<lambda>x. x"], of sample_event] sample_event_valid by simp

text \<open>C25: the frames of every valid log within the limits rebuild an index, and it holds exactly that log:
  the tip and event count of each fiber, and all identifiers.\<close>

theorem build_from_frames_recovers_log:
  assumes "valid_log H log" and "log_fits log"
    and "list_all2 (\<lambda>e bs. EnvelopeHeader_wf (env_header e) \<and> EventEnvelope_encode e = Inr bs) log frames"
  shows "\<exists>idx. build_from_frames H frames = Inr idx \<and> indexes H log idx"
proof -
  from session.accepts_valid_log [OF assms(1)] log_fits_room [of "[]" log] assms(2)
  obtain idx where idx: "session.accept_all H SessionIndex_new log = Some idx" "indexes H log idx" by auto
  with process_frames_accept_all [OF assms(3) idx(1) session.keeps_start] show ?thesis
    by (simp add: build_from_frames_def)
qed

theorem build_from_frames_recovers_log_witness:
  "\<exists>idx. build_from_frames (\<lambda>x. x) [envelope_bytes sample_event] = Inr idx \<and> indexes (\<lambda>x. x) [sample_event] idx"
  by (rule build_from_frames_recovers_log) (simp_all add: sample_event_valid)

text \<open>The handle the index hands out for a fiber is the handle that replaying the fiber's recorded
  envelopes gives, so a session continues a fiber from its tip (the commitments being non-zero, as the
  handle's constructor demands).\<close>

lemma index_fiber_agrees_with_replay:
  assumes "indexes H log idx" and "\<forall>e\<in>set log. commitment H e \<noteq> zero_hash"
  shows "index_fiber H idx f = from_envelopes H f (fiber_events log f)"
proof -
  note i = assms(1) [unfolded indexes_def]
  let ?es = "fiber_events log f"
  have "distinct (map eid ?es)"
    using i valid_log_distinct [of H log] by (simp add: fiber_events_def distinct_map_filter)
  then have seq: "fiber_sequence f ?es" "linked H ?es" "length ?es \<le> 100000"
    using i valid_log_linked [of H log f] by (auto simp: fiber_sequence_def fiber_events_def list_all_iff)
  then have replay: "from_envelopes H f ?es = Inr (handle_of H f ?es)" by (simp add: from_envelopes_eq_Inr)
  show ?thesis
  proof (cases "?es = []")
    case True
    then show ?thesis using i by (simp add: index_fiber_def log_slot_def from_envelopes_def)
  next
    case False
    then have last: "last ?es \<in> set log" "eid (last ?es) \<noteq> zero_id"
      using i last_in_set [OF False] by (auto simp: fiber_events_def list_all_iff)
    have count: "(of_nat (length ?es) :: u64) \<noteq> 0" "\<not> (of_nat (length ?es) :: u64) > MAX_EVENTS_PER_FIBER"
      using seq(3) False
      by (simp_all add: unat_eq_zero [symmetric] word_less_nat_alt unat_of_nat take_bit_nat_eq_self del: unat_eq_zero)
    show ?thesis
      using False i last count assms(2) unfolding replay
      by (simp add: index_fiber_def log_slot_def Let_def with_state_def handle_of_def tip_of_def)
  qed
qed

end
