(* ===== verification/Store_Pipeline.thy ===== *)
theory Store_Pipeline
  imports File_Engine Session_Index
begin

text \<open>
  \<open>Store\<close> of \<open>store/pipeline.rs\<close>, generic in its engine as the code is generic in \<open>StorageEngine\<close>: an
  operation takes the engine methods it calls as arguments (\<open>check\<close> for \<open>check_authority\<close>, \<open>app\<close> for
  \<open>append_block\<close>, \<open>recover\<close> for \<open>recover_frames\<close>, \<open>reads_all\<close> for \<open>read_all\<close>, \<open>unsure\<close> for
  \<open>uncertain_diagnostic().is_some()\<close>). The contract an engine promises is the locale \<open>storage_engine\<close>,
  interpreted on the file engine and on the JetStream engine. Diagnostic texts are not modelled, only that one is set.
\<close>

type_synonym ('e, 's) recover_method =
  "'e \<Rightarrow> nat \<Rightarrow> (u64 \<Rightarrow> bytes \<Rightarrow> 's \<Rightarrow> unit operation \<times> 's) \<Rightarrow> 's \<Rightarrow> u64 operation \<times> 's \<times> 'e"

type_synonym 'e append_method = "'e \<Rightarrow> bytes \<Rightarrow> u64 WriteLandingVerdict operation \<times> 'e"

record 'e Store =
  st_engine :: 'e
  st_rolling_commitment :: RollingCommitment
  st_fiber_index :: SessionIndex
  st_broken_reader_cause :: "failure_condition option"
  st_uncertain :: bool
  st_has_diagnostic :: bool

section \<open>Opening\<close>

definition writer_on_frame :: "blake3 \<Rightarrow> crc32c \<Rightarrow> u64 \<Rightarrow> bytes \<Rightarrow> RollingCommitment \<times> SessionIndex \<Rightarrow>
    unit operation \<times> (RollingCommitment \<times> SessionIndex)" where
  "writer_on_frame H crc sequence frame s =
    (case s of (rolling_commitment, fiber_index) \<Rightarrow>
       (case try_encode_payload crc frame of
          Inl _ \<Rightarrow> (Inl (PrecursorChainBroken None), s)
        | Inr frame_buf \<Rightarrow>
            (case process_frame H fiber_index frame of
               (r, fiber_index') \<Rightarrow> (r, (update_frame rolling_commitment frame_buf, fiber_index')))))"

definition open_writer :: "blake3 \<Rightarrow> crc32c \<Rightarrow> ('e, RollingCommitment \<times> SessionIndex) recover_method \<Rightarrow> 'e \<Rightarrow>
    'e Store operation" where
  "open_writer H crc recover engine =
    (case recover engine 64 (writer_on_frame H crc) (RollingCommitment_new, SessionIndex_new) of
       (Inl f, _, _) \<Rightarrow> Inl f
     | (Inr _, (rolling_commitment, fiber_index), engine') \<Rightarrow>
         Inr \<lparr>st_engine = engine', st_rolling_commitment = rolling_commitment, st_fiber_index = fiber_index,
              st_broken_reader_cause = None, st_uncertain = False, st_has_diagnostic = False\<rparr>)"

definition reader_on_frame :: "blake3 \<Rightarrow> crc32c \<Rightarrow> u64 \<Rightarrow> bytes \<Rightarrow>
    RollingCommitment \<times> SessionIndex \<times> failure_condition option \<Rightarrow>
    unit operation \<times> (RollingCommitment \<times> SessionIndex \<times> failure_condition option)" where
  "reader_on_frame H crc sequence frame s =
    (case s of (rolling, fiber_index, broken_cause) \<Rightarrow>
       (case try_encode_payload crc frame of
          Inl _ \<Rightarrow> (Inl (PrecursorChainBroken None), s)
        | Inr frame_buf \<Rightarrow>
            let rolling' = update_frame rolling frame_buf in
            if broken_cause = None then
              (case process_frame H fiber_index frame of
                 (Inl err, fiber_index') \<Rightarrow> (Inl err, (rolling', fiber_index', Some err))
               | (Inr _, fiber_index') \<Rightarrow> (Inr (), (rolling', fiber_index', None)))
            else (Inr (), (rolling', fiber_index, broken_cause))))"

definition open_reader :: "blake3 \<Rightarrow> crc32c \<Rightarrow>
    ('e, RollingCommitment \<times> SessionIndex \<times> failure_condition option) recover_method \<Rightarrow> 'e \<Rightarrow> 'e Store" where
  "open_reader H crc recover engine =
    (case recover engine 64 (reader_on_frame H crc) (RollingCommitment_new, SessionIndex_new, None) of
       (res, (rolling, fiber_index, broken_cause), engine') \<Rightarrow>
         let opened = (\<lambda>rl idx cause. \<lparr>st_engine = engine', st_rolling_commitment = rl, st_fiber_index = idx,
               st_broken_reader_cause = cause, st_uncertain = False, st_has_diagnostic = False\<rparr>) in
         (case broken_cause of
            Some cause \<Rightarrow> opened rolling SessionIndex_new (Some cause)
          | None \<Rightarrow>
              if has_broken_fibers fiber_index
              then opened rolling SessionIndex_new (Some (PrecursorChainBroken None))
              else
                (case res of
                   Inr _ \<Rightarrow> opened rolling fiber_index None
                 | Inl err \<Rightarrow> opened RollingCommitment_new SessionIndex_new (Some err))))"

section \<open>Lookups\<close>

definition session_unsure :: "('e \<Rightarrow> bool) \<Rightarrow> 'e Store \<Rightarrow> bool" where
  "session_unsure unsure st \<longleftrightarrow> st_uncertain st \<or> unsure (st_engine st)"

definition check_session_authority :: "('e \<Rightarrow> bool) \<Rightarrow> ('e \<Rightarrow> unit operation) \<Rightarrow> 'e Store \<Rightarrow> unit operation" where
  "check_session_authority unsure check st =
    (if session_unsure unsure st then Inl OwnershipRecordUnreadable else check (st_engine st))"

definition session_index :: "'e Store \<Rightarrow> SessionIndex operation" where
  "session_index st =
    (case st_broken_reader_cause st of Some cause \<Rightarrow> Inl cause | None \<Rightarrow> Inr (st_fiber_index st))"

definition validate_schema_completeness :: "('e \<Rightarrow> SchemaDescriptor option) \<Rightarrow> 'e Store \<Rightarrow> unit operation" where
  "validate_schema_completeness schema_descriptor st =
    (case schema_descriptor (st_engine st) of
       Some descriptor \<Rightarrow> validate_structural_completeness descriptor
     | None \<Rightarrow> Inl MissingSchemaDescriptor)"

definition store_fiber :: "blake3 \<Rightarrow> ('e \<Rightarrow> bool) \<Rightarrow> 'e Store \<Rightarrow> bytes \<Rightarrow> FiberHandle operation" where
  "store_fiber H unsure st fiber_id =
    (if session_unsure unsure st then Inl OwnershipRecordUnreadable
     else
       (case st_broken_reader_cause st of
          Some cause \<Rightarrow> Inl cause
        | None \<Rightarrow> index_fiber H (st_fiber_index st) fiber_id))"

definition fiber_with_key :: "(bytes \<Rightarrow> bytes \<Rightarrow> bytes) \<Rightarrow> blake3 \<Rightarrow> ('e \<Rightarrow> bool) \<Rightarrow> 'e Store \<Rightarrow> bytes \<Rightarrow>
    FiberHandle operation" where
  "fiber_with_key derive_key H unsure st domain_key = store_fiber H unsure st (derive_fiber_id derive_key domain_key)"

definition store_get_latest :: "('e \<Rightarrow> bool) \<Rightarrow> 'e Store \<Rightarrow> bytes \<Rightarrow> EventEnvelope option operation" where
  "store_get_latest unsure st fiber_id =
    (if session_unsure unsure st then Inl OwnershipRecordUnreadable
     else
       (case st_broken_reader_cause st of
          Some cause \<Rightarrow> Inl cause
        | None \<Rightarrow> get_latest (st_fiber_index st) fiber_id))"

definition get_latest_with_key :: "(bytes \<Rightarrow> bytes \<Rightarrow> bytes) \<Rightarrow> ('e \<Rightarrow> bool) \<Rightarrow> 'e Store \<Rightarrow> bytes \<Rightarrow>
    EventEnvelope option operation" where
  "get_latest_with_key derive_key unsure st domain_key = store_get_latest unsure st (derive_fiber_id derive_key domain_key)"

section \<open>Appending\<close>

definition append_frame_verdict :: "blake3 \<Rightarrow> crc32c \<Rightarrow> ('e \<Rightarrow> bool) \<Rightarrow> ('e \<Rightarrow> unit operation) \<Rightarrow> 'e append_method \<Rightarrow>
    'e Store \<Rightarrow> bytes \<Rightarrow> u64 WriteLandingVerdict operation \<times> 'e Store" where
  "append_frame_verdict H crc unsure check app st pl =
    (if length pl > U32_MAX then (Inl (ValueConstraintViolated_fc TooLong), st)
     else
       (case check_session_authority unsure check st of
          Inl f \<Rightarrow> (Inl f, st)
        | Inr _ \<Rightarrow>
            if length pl < 85 then (Inl EnvelopeMismatch, st)
            else
              (case EventEnvelope_decode pl of
                 Inl _ \<Rightarrow> (Inl EnvelopeMismatch, st)
               | Inr (env, consumed) \<Rightarrow>
                   if consumed \<noteq> length pl then (Inl EnvelopeMismatch, st)
                   else
                     (case validate_append H (st_fiber_index st) env of
                        Inl f \<Rightarrow> (Inl f, st)
                      | Inr _ \<Rightarrow>
                          (case try_encode_payload crc pl of
                             Inl _ \<Rightarrow> (Inl (ValueConstraintViolated_fc TooLong), st)
                           | Inr frame_buf \<Rightarrow>
                               (case app (st_engine st) frame_buf of
                                  (Inl f, engine') \<Rightarrow> (Inl f, st\<lparr>st_engine := engine'\<rparr>)
                                | (Inr (Landed _), engine') \<Rightarrow>
                                    let rolling = update_frame (st_rolling_commitment st) frame_buf in
                                    (Inr (Landed (rc_frame_count rolling)),
                                     st\<lparr>st_engine := engine', st_rolling_commitment := rolling,
                                        st_fiber_index := commit_envelope_unchecked (st_fiber_index st) env\<rparr>)
                                | (Inr (Undetermined carried_epoch), engine') \<Rightarrow>
                                    (Inr (Undetermined carried_epoch),
                                     st\<lparr>st_engine := engine', st_uncertain := True, st_has_diagnostic := True\<rparr>)))))))"

definition append_envelope_verdict :: "blake3 \<Rightarrow> crc32c \<Rightarrow> ('e \<Rightarrow> bool) \<Rightarrow> ('e \<Rightarrow> unit operation) \<Rightarrow> 'e append_method \<Rightarrow>
    'e Store \<Rightarrow> EventEnvelope \<Rightarrow> u64 WriteLandingVerdict operation \<times> 'e Store" where
  "append_envelope_verdict H crc unsure check app st envelope =
    (case WireEnvelope_try_from envelope of
       Inl _ \<Rightarrow> (Inl (ValueConstraintViolated_fc TooLong), st)
     | Inr wire \<Rightarrow> append_frame_verdict H crc unsure check app st (WireEnvelope_encode wire))"

text \<open>\<open>append_to_fiber\<close>, \<open>detach_fiber\<close> and \<open>rescue_fiber\<close> differ in the handle operation alone. They
  check the authority before minting (\<open>check\<close>) and again when the frame is appended (\<open>check'\<close>).\<close>

definition fiber_operation :: "handle_op \<Rightarrow> blake3 \<Rightarrow> crc32c \<Rightarrow> ('e \<Rightarrow> bool) \<Rightarrow> ('e \<Rightarrow> unit operation) \<Rightarrow>
    ('e \<Rightarrow> unit operation) \<Rightarrow> 'e append_method \<Rightarrow> 'e Store \<Rightarrow> bytes \<Rightarrow> bytes \<Rightarrow> bytes \<Rightarrow>
    EventEnvelope WriteLandingVerdict operation \<times> 'e Store" where
  "fiber_operation oper H crc unsure check check' app st fiber_id event_id pl =
    (case result_bind (check_session_authority unsure check st) (\<lambda>_.
            result_bind (store_fiber H unsure st fiber_id) (\<lambda>handle.
              handle_step H oper handle event_id pl)) of
       Inl f \<Rightarrow> (Inl f, st)
     | Inr (envelope, _) \<Rightarrow>
         (case append_envelope_verdict H crc unsure check' app st envelope of
            (Inl f, st') \<Rightarrow> (Inl f, st')
          | (Inr (Landed _), st') \<Rightarrow> (Inr (Landed envelope), st')
          | (Inr (Undetermined carried_epoch), st') \<Rightarrow> (Inr (Undetermined carried_epoch), st')))"

definition append_to_fiber where "append_to_fiber = fiber_operation Append"
definition detach_fiber where "detach_fiber = fiber_operation Detach_op"
definition rescue_fiber where "rescue_fiber = fiber_operation Rescue_op"

section \<open>Reading\<close>

fun roll_frames :: "crc32c \<Rightarrow> RollingCommitment \<Rightarrow> bytes list \<Rightarrow> RollingCommitment operation" where
  "roll_frames crc rolling [] = Inr rolling"
| "roll_frames crc rolling (frame # rest) =
    (case try_encode_payload crc frame of
       Inl _ \<Rightarrow> Inl (PrecursorChainBroken None)
     | Inr frame_buf \<Rightarrow> roll_frames crc (update_frame rolling frame_buf) rest)"

fun is_chain_broken :: "failure_condition \<Rightarrow> bool" where
  "is_chain_broken (PrecursorChainBroken _) = True"
| "is_chain_broken _ = False"

definition read_all_frames :: "crc32c \<Rightarrow> ('e \<Rightarrow> bytes list operation \<times> 'e) \<Rightarrow> 'e Store \<Rightarrow>
    bytes list operation \<times> 'e Store" where
  "read_all_frames crc reads_all st =
    (case reads_all (st_engine st) of
       (Inl err, engine') \<Rightarrow>
         (Inl err, st\<lparr>st_engine := engine',
            st_broken_reader_cause := (if is_chain_broken err then Some err else st_broken_reader_cause st)\<rparr>)
     | (Inr frames, engine') \<Rightarrow>
         (case roll_frames crc RollingCommitment_new frames of
            Inl f \<Rightarrow> (Inl f, st\<lparr>st_engine := engine'\<rparr>)
          | Inr rolling \<Rightarrow> (Inr frames, st\<lparr>st_engine := engine', st_rolling_commitment := rolling\<rparr>)))"

fun decode_all :: "bytes list \<Rightarrow> EventEnvelope list operation" where
  "decode_all [] = Inr []"
| "decode_all (frame # rest) =
    result_bind (decode_and_validate_frame frame) (\<lambda>e. result_bind (decode_all rest) (\<lambda>es. Inr (e # es)))"

text \<open>The inner closure: the result with the store as the closure leaves it.\<close>

definition envelopes_of_store :: "blake3 \<Rightarrow> crc32c \<Rightarrow> ('e \<Rightarrow> bytes list operation \<times> 'e) \<Rightarrow> 'e Store \<Rightarrow> bool \<Rightarrow>
    EventEnvelope list operation \<times> 'e Store" where
  "envelopes_of_store H crc reads_all st for_migration =
    (case read_all_frames crc reads_all st of
       (Inl f, st1) \<Rightarrow> (Inl f, st1)
     | (Inr frames, st1) \<Rightarrow>
         if list_ex (\<lambda>frame. length frame < 85) frames then (Inl EnvelopeMismatch, st1)
         else
           (case build_from_frames H frames of
              Inl f \<Rightarrow> (Inl f, st1)
            | Inr idx \<Rightarrow>
                if \<not> for_migration \<and> has_broken_fibers idx
                then (Inl (PrecursorChainBroken None), st1\<lparr>st_fiber_index := idx\<rparr>)
                else
                  (case decode_all frames of
                     Inl f \<Rightarrow> (Inl f, st1)
                   | Inr envelopes \<Rightarrow> (Inr envelopes, st1\<lparr>st_fiber_index := idx\<rparr>))))"

definition read_all_envelopes_inner :: "blake3 \<Rightarrow> crc32c \<Rightarrow> ('e \<Rightarrow> bytes list operation \<times> 'e) \<Rightarrow> 'e Store \<Rightarrow> bool \<Rightarrow>
    EventEnvelope list operation \<times> 'e Store" where
  "read_all_envelopes_inner H crc reads_all st for_migration =
    (case (if for_migration then None else st_broken_reader_cause st) of
       Some cause \<Rightarrow> (Inl cause, st)
     | None \<Rightarrow>
         (case envelopes_of_store H crc reads_all st for_migration of
            (Inl err, st1) \<Rightarrow>
              (Inl err, if is_chain_broken err then st1\<lparr>st_broken_reader_cause := Some err\<rparr> else st1)
          | (Inr envelopes, st1) \<Rightarrow> (Inr envelopes, st1)))"

definition read_all_envelopes where
  "read_all_envelopes H crc reads_all st = read_all_envelopes_inner H crc reads_all st False"

definition read_all_envelopes_for_migration where
  "read_all_envelopes_for_migration H crc reads_all st = read_all_envelopes_inner H crc reads_all st True"

section \<open>Streaming\<close>

text \<open>What the recovery callback of \<open>for_each_envelope\<close> accumulates, the visitor's own state included.\<close>

record 'v Visit =
  vi_index :: SessionIndex
  vi_rolling :: RollingCommitment
  vi_broken_error :: "failure_condition option"
  vi_callback_error :: "failure_condition option"
  vi_visitor :: 'v

definition refuse_frame :: "failure_condition \<Rightarrow> 'v Visit \<Rightarrow> unit operation \<times> 'v Visit" where
  "refuse_frame err v = (Inl err, v\<lparr>vi_broken_error := Some err\<rparr>)"

definition visit_on_frame :: "blake3 \<Rightarrow> crc32c \<Rightarrow> (EventEnvelope \<Rightarrow> 'v \<Rightarrow> unit operation \<times> 'v) \<Rightarrow> u64 \<Rightarrow> bytes \<Rightarrow>
    'v Visit \<Rightarrow> unit operation \<times> 'v Visit" where
  "visit_on_frame H crc f sequence frame v =
    (if length frame < 85 then refuse_frame EnvelopeMismatch v
     else
       (case EventEnvelopeRef_decode frame of
          Inl _ \<Rightarrow> refuse_frame EnvelopeMismatch v
        | Inr (env, consumed) \<Rightarrow>
            if consumed \<noteq> length frame then refuse_frame EnvelopeMismatch v
            else
              (case validate_append H (vi_index v) env of
                 Inl val_err \<Rightarrow> refuse_frame val_err v
               | Inr _ \<Rightarrow>
                   let v1 = v\<lparr>vi_index := commit_envelope_unchecked (vi_index v) env\<rparr> in
                   (case try_encode_payload crc frame of
                      Inl _ \<Rightarrow> (Inl (PrecursorChainBroken None), v1)
                    | Inr frame_buf \<Rightarrow>
                        let v2 = v1\<lparr>vi_rolling := update_frame (vi_rolling v1) frame_buf\<rparr> in
                        (case f env (vi_visitor v2) of
                           (Inr _, w) \<Rightarrow> (Inr (), v2\<lparr>vi_visitor := w\<rparr>)
                         | (Inl cb_err, w) \<Rightarrow>
                             (Inl cb_err, v2\<lparr>vi_visitor := w, vi_callback_error := Some cb_err\<rparr>))))))"

definition visit_frames :: "blake3 \<Rightarrow> crc32c \<Rightarrow> ('e, 'v Visit) recover_method \<Rightarrow> 'e Store \<Rightarrow>
    (EventEnvelope \<Rightarrow> 'v \<Rightarrow> unit operation \<times> 'v) \<Rightarrow> 'v \<Rightarrow> unit operation \<times> 'v \<times> 'e Store" where
  "visit_frames H crc recover st f w =
    (case recover (st_engine st) 64 (visit_on_frame H crc f)
        \<lparr>vi_index = SessionIndex_new, vi_rolling = RollingCommitment_new, vi_broken_error = None,
         vi_callback_error = None, vi_visitor = w\<rparr> of
       (res, v, engine') \<Rightarrow>
         let st1 = st\<lparr>st_engine := engine'\<rparr> in
         (case vi_callback_error v of
            Some cb_err \<Rightarrow> (Inl cb_err, vi_visitor v, st1)
          | None \<Rightarrow>
              (case vi_broken_error v of
                 Some err \<Rightarrow> (Inl err, vi_visitor v, st1\<lparr>st_broken_reader_cause := Some err\<rparr>)
               | None \<Rightarrow>
                   (case res of
                      Inr _ \<Rightarrow>
                        (Inr (), vi_visitor v,
                         st1\<lparr>st_fiber_index := vi_index v, st_rolling_commitment := vi_rolling v,
                             st_broken_reader_cause := None\<rparr>)
                    | Inl engine_err \<Rightarrow>
                        (Inl engine_err, vi_visitor v,
                         if engine_err \<noteq> TransportUnavailable
                         then st1\<lparr>st_broken_reader_cause := Some engine_err\<rparr> else st1)))))"

definition for_each_envelope :: "blake3 \<Rightarrow> crc32c \<Rightarrow> ('e, 'v Visit) recover_method \<Rightarrow> 'e Store \<Rightarrow>
    (EventEnvelope \<Rightarrow> 'v \<Rightarrow> unit operation \<times> 'v) \<Rightarrow> 'v \<Rightarrow> unit operation \<times> 'v \<times> 'e Store" where
  "for_each_envelope H crc recover st f w =
    (case st_broken_reader_cause st of
       Some cause \<Rightarrow>
         if cause \<noteq> TransportUnavailable then (Inl cause, w, st)
         else if has_broken_fibers (st_fiber_index st) then (Inl (PrecursorChainBroken None), w, st)
         else visit_frames H crc recover st f w
     | None \<Rightarrow>
         if has_broken_fibers (st_fiber_index st) then (Inl (PrecursorChainBroken None), w, st)
         else visit_frames H crc recover st f w)"

text \<open>The accumulator is taken out before \<open>f\<close> runs and put back after; \<open>None\<close> as result is the panic of
  \<open>expect\<close>, which the flag records when the visitor finds no accumulator.\<close>

definition fold_visitor :: "('b \<Rightarrow> EventEnvelope \<Rightarrow> 'b operation) \<Rightarrow> EventEnvelope \<Rightarrow> 'b option \<times> bool \<Rightarrow>
    unit operation \<times> ('b option \<times> bool)" where
  "fold_visitor f env s =
    (case s of
       (None, panicked) \<Rightarrow> (Inl InvariantBreakingConfiguration, (None, True))
     | (Some current, panicked) \<Rightarrow>
         (case f current env of Inl e \<Rightarrow> (Inl e, (None, panicked)) | Inr acc \<Rightarrow> (Inr (), (Some acc, panicked))))"

definition fold_envelopes :: "blake3 \<Rightarrow> crc32c \<Rightarrow> ('e, ('b option \<times> bool) Visit) recover_method \<Rightarrow> 'e Store \<Rightarrow>
    'b \<Rightarrow> ('b \<Rightarrow> EventEnvelope \<Rightarrow> 'b operation) \<Rightarrow> 'b operation option \<times> 'e Store" where
  "fold_envelopes H crc recover st init f =
    (case for_each_envelope H crc recover st (fold_visitor f) (Some init, False) of
       (res, (acc, panicked), st1) \<Rightarrow>
         if panicked then (None, st1)
         else
           (case res of
              Inl e \<Rightarrow> (Some (Inl e), st1)
            | Inr _ \<Rightarrow> (map_option Inr acc, st1)))"

end
