(* ===== verification/Store_Session.thy ===== *)
theory Store_Session
  imports Store_Pipeline
begin

text \<open>
  What a writer session guarantees over any engine that keeps the contract \<open>storage_engine\<close>: the events
  that land extend a valid log which the engine stores, the index holds and the rolling commitment covers;
  a refused operation changes nothing; after an undetermined write nothing lands. The file engine keeps the
  contract, so a session on a file, a crash during a write and reopening the file compose.
\<close>

definition store_holds :: "(bytes list \<Rightarrow> 'e \<Rightarrow> bool) \<Rightarrow> ('e \<Rightarrow> bool) \<Rightarrow> blake3 \<Rightarrow> crc32c \<Rightarrow> EventEnvelope list \<Rightarrow>
    'e Store \<Rightarrow> bool" where
  "store_holds stores unsure H crc log st \<longleftrightarrow> stores (map envelope_bytes log) (st_engine st) \<and>
     list_all EventEnvelope_wf log \<and> indexes H log (st_fiber_index st) \<and>
     st_rolling_commitment st = rolled crc (map envelope_bytes log) \<and> \<not> session_unsure unsure st \<and>
     st_broken_reader_cause st = None"

text \<open>BLAKE3 digests have 32 bytes; identifiers handed to the store have 16.\<close>

definition digest :: "blake3 \<Rightarrow> bool" where
  "digest H \<longleftrightarrow> (\<forall>x. length (H x) = 32)"

lemma index_fiber_handle:
  assumes "indexes H log idx" and "index_fiber H idx f = Inr h"
  shows "h = handle_of H f (fiber_events log f)"
  using assms by (auto simp: indexes_def index_fiber_def log_slot_def Let_def with_state_def handle_of_def tip_of_def
      FiberHandle_new_def split: if_splits)

lemma handle_of_wf:
  assumes "digest H" and "list_all EventEnvelope_wf log"
  shows "length (fh_precursor (handle_of H f (fiber_events log f))) = 16"
    and "length (fh_precursor_hash (handle_of H f (fiber_events log f))) = 32"
proof -
  have "es \<noteq> [] \<Longrightarrow> length (eid (last es)) = 16" if "es = fiber_events log f" for es
    using last_in_set [of es] assms(2) that
    by (auto simp: fiber_events_def list_all_iff EventEnvelope_wf_def EnvelopeHeader_wf_def)
  then show "length (fh_precursor (handle_of H f (fiber_events log f))) = 16"
    by (simp add: tip_of_def)
  show "length (fh_precursor_hash (handle_of H f (fiber_events log f))) = 32"
    using assms(1) by (simp add: tip_of_def digest_def commitment_def compute_envelope_commitment_def)
qed

lemma minted_header_wf:
  assumes "digest H" and "list_all EventEnvelope_wf log" and "length f = 16" and "length i = 16"
  shows "EnvelopeHeader_wf (env_header (minted oper (handle_of H f (fiber_events log f)) i pl))"
  using handle_of_wf [OF assms(1,2), of f] assms(3,4) by (simp add: minted_def EnvelopeHeader_wf_def)

lemma WireEnvelope_try_from_eq:
  "WireEnvelope_try_from e = Inr w \<Longrightarrow> EventEnvelope_fits e \<and> WireEnvelope_encode w = envelope_bytes e"
  using EventEnvelope_encode_eq [of e]
  by (auto simp: EventEnvelope_encode_def EventEnvelope_encode_bounded_def WireEnvelope_try_from_def split: if_splits)

text \<open>What a writer session appends, in sequence, by fiber operations and by frames handed to \<open>append_frame_verdict\<close>
  directly: the answers of the engine's environment are chosen anew for every call. The landed envelopes are listed
  in order. \<open>append_envelope_verdict\<close> appends the frame it encodes, see \<open>envelope_appended\<close>. Reads are not part of a run.\<close>

inductive session_run :: "blake3 \<Rightarrow> crc32c \<Rightarrow> ('e \<Rightarrow> bool) \<Rightarrow> ('c \<Rightarrow> 'e \<Rightarrow> unit operation) \<Rightarrow> ('a \<Rightarrow> 'e append_method) \<Rightarrow>
    'e Store \<Rightarrow> EventEnvelope list \<Rightarrow> 'e Store \<Rightarrow> bool"
  for H crc unsure check app where
  finished: "session_run H crc unsure check app st [] st"
| landed: "session_run H crc unsure check app st es st1 \<Longrightarrow> length f = 16 \<Longrightarrow> length i = 16 \<Longrightarrow>
    fiber_operation oper H crc unsure (check c1) (check c2) (app a) st1 f i pl = (Inr (Landed env), st2) \<Longrightarrow>
    session_run H crc unsure check app st (es @ [env]) st2"
| undetermined: "session_run H crc unsure check app st es st1 \<Longrightarrow>
    fiber_operation oper H crc unsure (check c1) (check c2) (app a) st1 f i pl = (Inr (Undetermined n), st2) \<Longrightarrow>
    session_run H crc unsure check app st es st2"
| refused: "session_run H crc unsure check app st es st1 \<Longrightarrow>
    fiber_operation oper H crc unsure (check c1) (check c2) (app a) st1 f i pl = (Inl err, st2) \<Longrightarrow>
    session_run H crc unsure check app st es st2"
| frame_landed: "session_run H crc unsure check app st es st1 \<Longrightarrow>
    append_frame_verdict H crc unsure (check c) (app a) st1 frame = (Inr (Landed n), st2) \<Longrightarrow>
    EventEnvelope_decode frame = Inr (env, length frame) \<Longrightarrow> session_run H crc unsure check app st (es @ [env]) st2"
| frame_undetermined: "session_run H crc unsure check app st es st1 \<Longrightarrow>
    append_frame_verdict H crc unsure (check c) (app a) st1 frame = (Inr (Undetermined n), st2) \<Longrightarrow>
    session_run H crc unsure check app st es st2"
| frame_refused: "session_run H crc unsure check app st es st1 \<Longrightarrow>
    append_frame_verdict H crc unsure (check c) (app a) st1 frame = (Inl err, st2) \<Longrightarrow>
    session_run H crc unsure check app st es st2"

lemma envelope_appended:
  assumes "session_run H crc unsure check app st es st1" and "EnvelopeHeader_wf (env_header env)"
    and "append_envelope_verdict H crc unsure (check c) (app a) st1 env = (verdict, st2)"
  shows "session_run H crc unsure check app st (case verdict of Inr (Landed n) \<Rightarrow> es @ [env] | _ \<Rightarrow> es) st2"
proof (cases "WireEnvelope_try_from env")
  case (Inl e)
  then show ?thesis using assms(1,3) by (auto simp: append_envelope_verdict_def)
next
  case (Inr w)
  then have w: "EventEnvelope_fits env" "append_frame_verdict H crc unsure (check c) (app a) st1 (envelope_bytes env) = (verdict, st2)"
    using WireEnvelope_try_from_eq [OF Inr] assms(3) by (simp_all add: append_envelope_verdict_def)
  then have "EventEnvelope_decode (envelope_bytes env) = Inr (env, length (envelope_bytes env))"
    using envelope.dec_enc_exact [of env] assms(2) by (simp add: EventEnvelope_wf_def EventEnvelope_fits_def)
  then show ?thesis
    using assms(1) w(2) by (auto intro: session_run.intros split: sum.splits WriteLandingVerdict.splits)
qed

lemma append_frame_unsure:
  "session_unsure unsure st \<Longrightarrow> append_frame_verdict H crc unsure chk app st frame =
    (Inl (if length frame > U32_MAX then ValueConstraintViolated_fc TooLong else OwnershipRecordUnreadable), st)"
  by (simp add: append_frame_verdict_def check_session_authority_def)

lemma append_envelope_unsure:
  "session_unsure unsure st \<Longrightarrow> \<exists>err. append_envelope_verdict H crc unsure chk app st env = (Inl err, st)"
  by (auto simp: append_envelope_verdict_def append_frame_unsure split: sum.splits)

lemma minted_admissible:
  assumes "indexes H log idx" and "event_fiber log i = None"
  shows "admissible H log (minted oper (handle_of H f (fiber_events log f)) i pl)"
proof (cases "fiber_events log f = []")
  case True
  then show ?thesis using assms(2)
    by (simp add: admissible_def minted_def tip_of_def starts_over_def last_on_fiber_def)
next
  case False
  then have "last (fiber_events log f) \<in> set log" using last_in_set [OF False] by (simp add: fiber_events_def)
  then have "eid (last (fiber_events log f)) \<noteq> zero_id" using assms(1) by (auto simp: indexes_def list_all_iff)
  then show ?thesis using assms(2) False
    by (simp add: admissible_def minted_def tip_of_def starts_over_def last_on_fiber_def)
qed

locale storage_engine =
  fixes crc :: crc32c
    and check :: "'c \<Rightarrow> 'e \<Rightarrow> unit operation"
    and app :: "'a \<Rightarrow> 'e append_method"
    and unsure :: "'e \<Rightarrow> bool"
    and stores :: "bytes list \<Rightarrow> 'e \<Rightarrow> bool"
  assumes app_landed: "stores ps e \<Longrightarrow> app a e (frame_bytes crc p) = (Inr (Landed n), e') \<Longrightarrow>
      length p \<le> U32_MAX \<Longrightarrow> stores (ps @ [p]) e' \<and> unsure e' = unsure e"
    and app_refused: "stores ps e \<Longrightarrow> app a e block = (Inl f, e') \<Longrightarrow>
      unsure e' \<or> stores ps e' \<and> unsure e' = unsure e"
begin

abbreviation holds :: "blake3 \<Rightarrow> EventEnvelope list \<Rightarrow> 'e Store \<Rightarrow> bool" where
  "holds H log st \<equiv> store_holds stores unsure H crc log st"

text \<open>A refusal may leave the session unsure; otherwise it still holds the same log.\<close>

lemma append_frame_refused:
  assumes "append_frame_verdict H crc unsure chk (app a) st pl = (Inl f, st')" and "holds H log st"
  shows "session_unsure unsure st' \<or> holds H log st'"
proof -
  have "st' = st \<or> (\<exists>block engine'. app a (st_engine st) block = (Inl f, engine') \<and> st' = st\<lparr>st_engine := engine'\<rparr>)"
    using assms(1) by (auto simp: append_frame_verdict_def Let_def
        split: if_splits sum.splits prod.splits WriteLandingVerdict.splits)
  then show ?thesis
    using app_refused [of "map envelope_bytes log" "st_engine st"] assms(2)
    by (fastforce simp: store_holds_def session_unsure_def)
qed

lemma append_frame_undetermined:
  "append_frame_verdict H crc unsure chk (app a) st pl = (Inr (Undetermined n), st') \<Longrightarrow> st_uncertain st'"
  by (auto simp: append_frame_verdict_def Let_def
      split: if_splits sum.splits prod.splits WriteLandingVerdict.splits)

lemma append_frame_landed:
  assumes "append_frame_verdict H crc unsure chk (app a) st pl = (Inr (Landed n), st')" and "holds H log st"
  shows "\<exists>e. pl = envelope_bytes e \<and> admissible H log e \<and> log_room log e \<and> holds H (log @ [e]) st' \<and>
    EventEnvelope_decode pl = Inr (e, length pl)"
proof -
  note h = assms(2) [unfolded store_holds_def]
  from assms(1) obtain env k engine' where a: "length pl \<le> U32_MAX"
    "EventEnvelope_decode pl = Inr (env, length pl)" "validate_append H (st_fiber_index st) env = Inr ()"
    "app a (st_engine st) (frame_bytes crc pl) = (Inr (Landed k), engine')"
    "st' = st\<lparr>st_engine := engine', st_rolling_commitment := update_frame (st_rolling_commitment st) (frame_bytes crc pl),
       st_fiber_index := commit_envelope_unchecked (st_fiber_index st) env\<rparr>"
    by (auto simp: append_frame_verdict_def Let_def try_encode_payload_eq_Inr not_less
        split: if_splits sum.splits prod.splits WriteLandingVerdict.splits)
  have pl: "pl = envelope_bytes env" "EventEnvelope_wf env"
    using envelope.dec_canonical [OF a(2)] envelope.dec_valid [OF a(2)] by simp_all
  have "stores (map envelope_bytes log @ [pl]) engine'" "unsure engine' = unsure (st_engine st)"
    using app_landed [OF _ a(4,1)] h by auto
  moreover have "indexes H (log @ [env]) (commit_envelope_unchecked (st_fiber_index st) env)"
    using commit_unchecked_indexes a(3) h by blast
  moreover have "admissible H log env" "log_room log env" using validate_append_iff a(3) h by blast+
  ultimately show ?thesis using h pl a(2,5)
    by (intro exI [of _ env]) (simp add: store_holds_def session_unsure_def rolled_snoc)
qed

lemma append_envelope_refused:
  "append_envelope_verdict H crc unsure chk (app a) st e = (Inl f, st') \<Longrightarrow> holds H log st \<Longrightarrow>
    session_unsure unsure st' \<or> holds H log st'"
  by (auto simp: append_envelope_verdict_def split: sum.splits dest: append_frame_refused)

lemma append_envelope_landed:
  assumes "append_envelope_verdict H crc unsure chk (app a) st e = (Inr (Landed n), st')" and "holds H log st"
    and "EnvelopeHeader_wf (env_header e)"
  shows "admissible H log e \<and> log_room log e \<and> holds H (log @ [e]) st'"
proof -
  from assms(1) obtain w where w: "WireEnvelope_try_from e = Inr w"
    "append_frame_verdict H crc unsure chk (app a) st (WireEnvelope_encode w) = (Inr (Landed n), st')"
    by (auto simp: append_envelope_verdict_def split: sum.splits)
  from WireEnvelope_try_from_eq [OF w(1)] have fits: "EventEnvelope_fits e" "WireEnvelope_encode w = envelope_bytes e"
    by simp_all
  then have "EventEnvelope_wf e" using assms(3) by (simp add: EventEnvelope_wf_def EventEnvelope_fits_def)
  from envelope.dec_enc_exact [OF this] append_frame_landed [OF w(2) assms(2)] fits(2) show ?thesis by auto
qed

lemma fiber_operation_cases:
  assumes "fiber_operation oper H crc unsure chk chk' (app a) st f i pl = (res, st')"
  obtains (before) err where "res = Inl err" "st' = st"
    | (reached) h env h' verdict where "store_fiber H unsure st f = Inr h" "handle_step H oper h i pl = Inr (env, h')"
        "append_envelope_verdict H crc unsure chk' (app a) st env = (verdict, st')"
        "res = (case verdict of Inl e \<Rightarrow> Inl e | Inr (Landed n) \<Rightarrow> Inr (Landed env)
          | Inr (Undetermined n) \<Rightarrow> Inr (Undetermined n))"
proof (cases "result_bind (check_session_authority unsure chk st) (\<lambda>_. result_bind (store_fiber H unsure st f)
    (\<lambda>handle. handle_step H oper handle i pl))")
  case (Inl err)
  then show thesis using before assms by (auto simp: fiber_operation_def)
next
  case (Inr r)
  then obtain h env h' where "store_fiber H unsure st f = Inr h" "handle_step H oper h i pl = Inr (env, h')" "r = (env, h')"
    by (cases r) (auto simp: result_simps)
  moreover obtain verdict st1 where "append_envelope_verdict H crc unsure chk' (app a) st env = (verdict, st1)" by fastforce
  ultimately show thesis
    using reached [of h env h' verdict] assms Inr
    by (auto simp: fiber_operation_def split: sum.splits WriteLandingVerdict.splits)
qed

lemma fiber_operation_refused:
  "fiber_operation oper H crc unsure chk chk' (app a) st f i pl = (Inl err, st') \<Longrightarrow> holds H log st \<Longrightarrow>
    session_unsure unsure st' \<or> holds H log st'"
  by (erule fiber_operation_cases)
    (auto split: sum.splits WriteLandingVerdict.splits dest: append_envelope_refused)

lemma fiber_operation_undetermined:
  "fiber_operation oper H crc unsure chk chk' (app a) st f i pl = (Inr (Undetermined n), st') \<Longrightarrow>
    session_unsure unsure st'"
  by (erule fiber_operation_cases)
    (auto simp: append_envelope_verdict_def session_unsure_def split: sum.splits WriteLandingVerdict.splits
      dest: append_frame_undetermined)

lemma fiber_operation_unsure:
  "session_unsure unsure st \<Longrightarrow> fiber_operation oper H crc unsure chk chk' (app a) st f i pl = (Inl OwnershipRecordUnreadable, st)"
  by (simp add: fiber_operation_def check_session_authority_def)

lemma fiber_operation_landed:
  assumes "fiber_operation oper H crc unsure chk chk' (app a) st f i pl = (Inr (Landed env), st')"
    and "holds H log st" and "digest H" and "length f = 16" and "length i = 16"
  shows "env = minted oper (handle_of H f (fiber_events log f)) i pl \<and>
    (\<exists>h'. handle_step H oper (handle_of H f (fiber_events log f)) i pl = Inr (env, h')) \<and>
    admissible H log env \<and> holds H (log @ [env]) st'"
  using assms(1)
proof (cases rule: fiber_operation_cases)
  case before
  then show ?thesis by simp
next
  case (reached h env1 h' verdict)
  then obtain n where v: "verdict = Inr (Landed n)" "env1 = env"
    by (auto split: sum.splits WriteLandingVerdict.splits)
  have "index_fiber H (st_fiber_index st) f = Inr h"
    using reached(1) assms(2) by (simp add: store_fiber_def store_holds_def)
  then have h: "h = handle_of H f (fiber_events log f)"
    using index_fiber_handle assms(2) by (auto simp: store_holds_def)
  have env: "env = minted oper h i pl" using reached(2) v(2) by (simp add: handle_step_eq_Inr del: handle_step.simps)
  have "EnvelopeHeader_wf (env_header env)"
    using minted_header_wf [OF assms(3) _ assms(4,5)] assms(2) by (simp add: env h store_holds_def)
  from append_envelope_landed [OF _ assms(2) this] reached(2,3) v env h show ?thesis by auto
qed

text \<open>An operation that passes every check before the engine has the outcome of the engine's append.\<close>

lemma fiber_operation_reaches:
  assumes h: "holds H log st" and "digest H" and "length f = 16" and "length i = 16"
    and chk: "chk (st_engine st) = Inr ()" "chk' (st_engine st) = Inr ()"
    and fiber: "store_fiber H unsure st f = Inr hdl" and step: "handle_step H oper hdl i pl = Inr (env, hdl')"
    and new: "event_fiber log i = None" and room: "log_room log env" and fits: "EventEnvelope_fits env"
    and app: "app a (st_engine st) (frame_bytes crc (envelope_bytes env)) = (verdict, e')"
  shows "fiber_operation oper H crc unsure chk chk' (app a) st f i pl =
    (case verdict of
       Inl err \<Rightarrow> (Inl err, st\<lparr>st_engine := e'\<rparr>)
     | Inr (Landed n) \<Rightarrow> (Inr (Landed env), st\<lparr>st_engine := e',
         st_rolling_commitment := update_frame (st_rolling_commitment st) (frame_bytes crc (envelope_bytes env)),
         st_fiber_index := commit_envelope_unchecked (st_fiber_index st) env\<rparr>)
     | Inr (Undetermined n) \<Rightarrow> (Inr (Undetermined n), st\<lparr>st_engine := e', st_uncertain := True, st_has_diagnostic := True\<rparr>))"
proof -
  note hh = h [unfolded store_holds_def]
  have "index_fiber H (st_fiber_index st) f = Inr hdl" using fiber hh by (simp add: store_fiber_def)
  then have hdl: "hdl = handle_of H f (fiber_events log f)" using index_fiber_handle hh by blast
  have env: "env = minted oper hdl i pl" using step by (simp add: handle_step_eq_Inr del: handle_step.simps)
  have hw: "EnvelopeHeader_wf (env_header env)"
    using minted_header_wf [OF assms(2) _ assms(3,4)] hh by (simp add: env hdl)
  then have wf: "EventEnvelope_wf env" using fits by (simp add: EventEnvelope_wf_def EventEnvelope_fits_def)
  have len: "85 \<le> length (envelope_bytes env)" "length (envelope_bytes env) \<le> U32_MAX"
    using fits hw by (simp_all add: envelope_bytes_def EventBytes_encode_def EventEnvelope_fits_def)
  obtain w where w: "WireEnvelope_try_from env = Inr w" "WireEnvelope_encode w = envelope_bytes env"
    using fits EventEnvelope_encode_eq [of env]
    by (auto simp: EventEnvelope_encode_def EventEnvelope_encode_bounded_def WireEnvelope_try_from_def result_simps split: if_splits)
  have val: "validate_append H (st_fiber_index st) env = Inr ()"
    using validate_append_iff minted_admissible [OF _ new] room hh by (auto simp: env hdl)
  have enc: "try_encode_payload crc (envelope_bytes env) = Inr (frame_bytes crc (envelope_bytes env))"
    by (simp add: try_encode_payload_eq_Inr len(2))
  have "check_session_authority unsure chk st = Inr ()" "check_session_authority unsure chk' st = Inr ()"
    using chk hh by (simp_all add: check_session_authority_def)
  then show ?thesis
    using fiber step w val enc len app envelope.dec_enc_exact [OF wf]
    by (cases verdict)
      (auto simp: fiber_operation_def append_envelope_verdict_def append_frame_verdict_def Let_def
        simp del: handle_step.simps split: WriteLandingVerdict.splits)
qed

lemma fiber_operation_lands_on:
  assumes "holds H log st" and "digest H" and "length f = 16" and "length i = 16"
    and "chk (st_engine st) = Inr ()" and "chk' (st_engine st) = Inr ()"
    and "store_fiber H unsure st f = Inr hdl" and "handle_step H oper hdl i pl = Inr (env, hdl')"
    and "event_fiber log i = None" and "log_room log env" and "EventEnvelope_fits env"
    and "app a (st_engine st) (frame_bytes crc (envelope_bytes env)) = (Inr (Landed n), e')"
  shows "\<exists>st'. fiber_operation oper H crc unsure chk chk' (app a) st f i pl = (Inr (Landed env), st') \<and>
    holds H (log @ [env]) st'"
  using fiber_operation_reaches [where chk = chk and chk' = chk', OF assms]
    fiber_operation_landed [OF _ assms(1-4), where chk = chk and chk' = chk'] by simp

lemma frame_appended:
  assumes "append_frame_verdict H crc unsure chk (app a) st frame = (Inr (Landed n), st')" and "holds H log st"
    and "EventEnvelope_decode frame = Inr (env, length frame)"
  shows "holds H (log @ [env]) st'"
  using append_frame_landed [OF assms(1,2)] assms(3) by auto

lemma session_run_holds:
  assumes "session_run H crc unsure check app st es st'" and "holds H log st" and "digest H"
  shows "holds H (log @ es) st' \<or> session_unsure unsure st' \<and> valid_log H (log @ es)"
  using assms
proof (induction rule: session_run.induct)
  case finished
  then show ?case by simp
next
  case (landed st es st1 f i oper c1 c2 a pl env st2)
  have "\<not> session_unsure unsure st1" using fiber_operation_unsure landed.hyps(4) by fastforce
  with landed.IH landed.prems have "holds H (log @ es) st1" by blast
  from fiber_operation_landed [OF landed.hyps(4) this landed.prems(2) landed.hyps(2,3)] show ?case
    by (metis append_assoc)
next
  case (undetermined st es st1 oper c1 c2 a f i pl n st2)
  then have "valid_log H (log @ es)" by (auto simp: store_holds_def indexes_def)
  then show ?case using fiber_operation_undetermined undetermined.hyps(2) by blast
next
  case (refused st es st1 oper c1 c2 a f i pl err st2)
  then consider "holds H (log @ es) st1" | "session_unsure unsure st1" "valid_log H (log @ es)" by blast
  then show ?case
  proof cases
    case 1
    then have "valid_log H (log @ es)" by (simp add: store_holds_def indexes_def)
    then show ?thesis using fiber_operation_refused [OF refused.hyps(2) 1] by blast
  next
    case 2
    then show ?thesis using fiber_operation_unsure [OF 2(1)] refused.hyps(2) by simp
  qed
next
  case (frame_landed st es st1 c a frame n st2 env)
  have "\<not> session_unsure unsure st1" using append_frame_unsure frame_landed.hyps(2) by fastforce
  with frame_landed.IH frame_landed.prems have "holds H (log @ es) st1" by blast
  from frame_appended [OF frame_landed.hyps(2) this frame_landed.hyps(3)] show ?case by simp
next
  case (frame_undetermined st es st1 c a frame n st2)
  then have "valid_log H (log @ es)" by (auto simp: store_holds_def indexes_def)
  then show ?case using append_frame_undetermined [OF frame_undetermined.hyps(2)] by (simp add: session_unsure_def)
next
  case (frame_refused st es st1 c a frame err st2)
  then consider "holds H (log @ es) st1" | "session_unsure unsure st1" "valid_log H (log @ es)" by blast
  then show ?case
  proof cases
    case 1
    then have "valid_log H (log @ es)" by (simp add: store_holds_def indexes_def)
    then show ?thesis using append_frame_refused [OF frame_refused.hyps(2) 1] by blast
  next
    case 2
    then show ?thesis using append_frame_unsure [OF 2(1)] frame_refused.hyps(2) by simp
  qed
qed

text \<open>Also a session that has become uncertain once held all that has landed.\<close>

lemma session_run_held:
  assumes "session_run H crc unsure check app st es st'" and "holds H log st" and "digest H"
  shows "\<exists>st1. holds H (log @ es) st1"
  using assms
proof (induction rule: session_run.induct)
  case (landed st es st1 f i oper c1 c2 a pl env st2)
  have "\<not> session_unsure unsure st1" using fiber_operation_unsure landed.hyps(4) by fastforce
  with session_run_holds [OF landed.hyps(1) landed.prems] have "holds H (log @ es) st1" by blast
  from fiber_operation_landed [OF landed.hyps(4) this landed.prems(2) landed.hyps(2,3)] show ?case by auto
next
  case (frame_landed st es st1 c a frame n st2 env)
  have "\<not> session_unsure unsure st1" using append_frame_unsure frame_landed.hyps(2) by fastforce
  with session_run_holds [OF frame_landed.hyps(1) frame_landed.prems] have "holds H (log @ es) st1" by blast
  from frame_appended [OF frame_landed.hyps(2) this frame_landed.hyps(3)] show ?case by auto
qed auto

lemma fiber_operation_written:
  assumes "fiber_operation oper H crc unsure chk chk' (app a) st f i pl = (Inr (Undetermined n), st')"
    and "holds H log st" and "digest H" and "length f = 16" and "length i = 16"
  shows "\<exists>env m. env = minted oper (handle_of H f (fiber_events log f)) i pl \<and> EventEnvelope_wf env \<and>
    length (envelope_bytes env) \<le> U32_MAX \<and> admissible H log env \<and> log_room log env \<and>
    app a (st_engine st) (frame_bytes crc (envelope_bytes env)) = (Inr (Undetermined m), st_engine st')"
  using assms(1)
proof (cases rule: fiber_operation_cases)
  case before
  then show ?thesis by simp
next
  case (reached h env h' verdict)
  then have v: "verdict = Inr (Undetermined n)" by (auto split: sum.splits WriteLandingVerdict.splits)
  have "index_fiber H (st_fiber_index st) f = Inr h"
    using reached(1) assms(2) by (simp add: store_fiber_def store_holds_def)
  then have h: "h = handle_of H f (fiber_events log f)"
    using index_fiber_handle assms(2) by (auto simp: store_holds_def)
  have env: "env = minted oper h i pl" using reached(2) by (simp add: handle_step_eq_Inr del: handle_step.simps)
  have hw: "EnvelopeHeader_wf (env_header env)"
    using minted_header_wf [OF assms(3) _ assms(4,5)] assms(2) by (simp add: env h store_holds_def)
  from reached(3) v obtain w where w: "WireEnvelope_try_from env = Inr w"
    "append_frame_verdict H crc unsure chk' (app a) st (WireEnvelope_encode w) = (Inr (Undetermined n), st')"
    by (auto simp: append_envelope_verdict_def split: sum.splits)
  from WireEnvelope_try_from_eq [OF w(1)] have fits: "EventEnvelope_fits env" "WireEnvelope_encode w = envelope_bytes env"
    by simp_all
  then have wf: "EventEnvelope_wf env" using hw by (simp add: EventEnvelope_wf_def EventEnvelope_fits_def)
  from w(2) fits(2) envelope.dec_enc_exact [OF wf]
  have "length (envelope_bytes env) \<le> U32_MAX \<and> validate_append H (st_fiber_index st) env = Inr () \<and>
      (\<exists>m. app a (st_engine st) (frame_bytes crc (envelope_bytes env)) = (Inr (Undetermined m), st_engine st'))"
    by (auto simp: append_frame_verdict_def Let_def try_encode_payload_eq_Inr not_less
        split: if_splits sum.splits prod.splits WriteLandingVerdict.splits)
  then show ?thesis
    using validate_append_iff [of H log "st_fiber_index st" env] assms(2) wf env h by (auto simp: store_holds_def)
qed

end

section \<open>Sessions on files\<close>

abbreviation file_unsure :: "FileEngine \<Rightarrow> bool" where
  "file_unsure e \<equiv> fe_uncertain_diagnostic e \<noteq> None"

abbreviation file_app :: "crc32c \<Rightarrow> MetaRead \<times> AppendIo \<Rightarrow> FileEngine append_method" where
  "file_app crc io \<equiv> append_block crc (fst io) (snd io)"

interpretation file_engine: storage_engine crc "check_authority crc" "file_app crc" file_unsure "engine_stores crc" for crc
proof unfold_locales
  fix ps e a p n e'
  assume "engine_stores crc ps e" "file_app crc a e (frame_bytes crc p) = (Inr (Landed n), e')" "length p \<le> U32_MAX"
  then show "engine_stores crc (ps @ [p]) e' \<and> file_unsure e' = file_unsure e"
    using append_block_stores by metis
next
  fix ps e a block f e'
  assume "engine_stores crc ps e" "file_app crc a e block = (Inl f, e')"
  then show "file_unsure e' \<or> engine_stores crc ps e' \<and> file_unsure e' = file_unsure e"
    using append_block_outcome [of crc "fst a" "snd a" e block "Inl f" e'] by (simp add: append_outcome_def)
qed

abbreviation file_holds :: "blake3 \<Rightarrow> crc32c \<Rightarrow> EventEnvelope list \<Rightarrow> FileEngine Store \<Rightarrow> bool" where
  "file_holds H crc log st \<equiv> store_holds (engine_stores crc) file_unsure H crc log st"

lemma indexes_fits: "indexes H log idx \<Longrightarrow> log_fits log"
proof -
  assume i: "indexes H log idx"
  then have "length (si_seen_event_ids idx) \<le> max_seen_events" "length (si_fibers idx) \<le> INDEX_MAX_ACTIVE_FIBERS"
    by (simp_all add: indexes_def index_inv_def)
  with indexes_lengths [OF i] i show ?thesis by (simp add: indexes_def log_fits_def)
qed

lemma deliver_writer:
  assumes "list_all (\<lambda>p. length p \<le> U32_MAX) ps" and "process_frames H idx ps = Inr idx'"
  shows "deliver (writer_on_frame H crc) n ps (r, idx) =
    (Inr (), (foldl update_frame r (map (frame_bytes crc) ps), idx'))"
  using assms
proof (induction ps arbitrary: n r idx)
  case Nil
  then show ?case by simp
next
  case (Cons p ps)
  then obtain idx1 where "process_frame H idx p = (Inr (), idx1)" "process_frames H idx1 ps = Inr idx'"
    by (auto split: prod.splits sum.splits)
  moreover have "try_encode_payload crc p = Inr (frame_bytes crc p)" using Cons.prems(1) by (simp add: try_encode_payload_eq_Inr)
  ultimately show ?case using Cons by (simp add: writer_on_frame_def)
qed

lemma encoded_small:
  "EventEnvelope_wf e \<Longrightarrow> length (envelope_bytes e) \<le> U32_MAX \<Longrightarrow>
    EnvelopeHeader_wf (env_header e) \<and> EventEnvelope_encode e = Inr (envelope_bytes e)"
  by (simp add: EventEnvelope_wf_def EventEnvelope_encode_eq EventEnvelope_fits_def envelope_bytes_def
      EventBytes_encode_def)

lemma holds_frames:
  assumes "list_all EventEnvelope_wf log" and "list_all (\<lambda>p. length p \<le> U32_MAX) (map envelope_bytes log)"
  shows "list_all2 (\<lambda>e bs. EnvelopeHeader_wf (env_header e) \<and> EventEnvelope_encode e = Inr bs) log (map envelope_bytes log)"
  using assms by (induction log) (auto simp: encoded_small)

lemma log_processed:
  assumes "valid_log H log" and "log_fits log" and "list_all EventEnvelope_wf log"
    and "list_all (\<lambda>p. length p \<le> U32_MAX) (map envelope_bytes log)"
  obtains idx where "process_frames H SessionIndex_new (map envelope_bytes log) = Inr idx" and "indexes H log idx"
proof -
  obtain idx where "session.accept_all H SessionIndex_new log = Some idx" "indexes H log idx"
    using session.accepts_valid_log [OF assms(1)] log_fits_room [of "[]" log] assms(2) by auto
  then show thesis using that process_frames_accept_all [OF holds_frames [OF assms(3,4)]] session.keeps_start by blast
qed

lemma writer_opens:
  assumes "valid_log H log" and "log_fits log" and "list_all EventEnvelope_wf log"
    and "engine_stores crc (map envelope_bytes log) e" and "\<not> file_unsure e" and "all_ok io"
    and "length (container_bytes crc (map envelope_bytes log)) \<le> USIZE_MAX"
  shows "\<exists>st. open_writer H crc (recover_frames crc io) e = Inr st \<and> file_holds H crc log st"
proof -
  have small: "list_all (\<lambda>p. length p \<le> U32_MAX) (map envelope_bytes log)"
    using assms(4) by (simp add: engine_stores_def)
  obtain idx where idx: "process_frames H SessionIndex_new (map envelope_bytes log) = Inr idx" "indexes H log idx"
    using log_processed [OF assms(1-3) small] .
  have "recover_frames crc io e 64 (writer_on_frame H crc) (RollingCommitment_new, SessionIndex_new) =
      (Inr (of_nat (length log)), (rolled crc (map envelope_bytes log), idx), e\<lparr>fe_frame_count := of_nat (length log)\<rparr>)"
    using recover_frames_stored(2) [OF assms(4,6,7) deliver_writer [OF small idx(1)]] by (simp add: rolled_def)
  then show ?thesis
    using idx(2) assms(3-5) by (simp add: open_writer_def store_holds_def session_unsure_def engine_stores_def)
qed

text \<open>A file whose last frame is torn is cut back and opened on the log before it.\<close>

lemma torn_file_opens:
  assumes "valid_log H log" and "log_fits log" and "list_all EventEnvelope_wf log"
    and "list_all (\<lambda>p. length p \<le> U32_MAX) (pl # map envelope_bytes log)" and "k < length (frame_bytes crc pl)"
    and "content = container_bytes crc (map envelope_bytes log) @ take k (frame_bytes crc pl)"
    and "length content \<le> USIZE_MAX" and "all_ok io" and "\<not> file_unsure e"
    and "read_container_frames crc (file_read content) = Inr s"
    and "reconcile_tail_state tio content s = (Inr outcome, content')"
  shows "\<exists>st. open_writer H crc (recover_frames crc io) (e\<lparr>fe_file := Some content'\<rparr>) = Inr st \<and> file_holds H crc log st"
proof -
  let ?c = "container_bytes crc (map envelope_bytes log)"
  have "length ?c + k \<le> USIZE_MAX" using assms(5-7) by simp
  from torn_container [OF assms(4,5) this] assms(6,10)
  have s: "s = \<lparr>cs_header = ContainerHeader_new, cs_frames = map envelope_bytes log,
      cs_rolling = rolled crc (map envelope_bytes log),
      cs_tail_state = (if k = 0 then Clean else TornTail \<lparr>tt_valid_len = length ?c, tt_truncated_bytes = k\<rparr>),
      cs_valid_len = length ?c\<rparr>" by simp
  have "content' = ?c"
    using assms(11) by (auto simp: s assms(6) reconcile_tail_state_def Let_def split: if_splits)
  moreover have "engine_stores crc (map envelope_bytes log) (e\<lparr>fe_file := Some ?c\<rparr>)"
    using assms(4) by (simp add: engine_stores_def)
  ultimately show ?thesis
    using writer_opens [OF assms(1-3) _ _ assms(8)] assms(6,7,9) by simp
qed

section \<open>Operations that land\<close>

text \<open>An engine on which nothing is simulated, and answers of the operating system that let a write through.\<close>

definition unsimulated :: "FileEngine \<Rightarrow> bool" where
  "unsimulated e \<longleftrightarrow> \<not> fe_simulate_indeterminate e \<and> \<not> fe_simulate_sync_error e \<and> \<not> fe_simulate_write_error e \<and>
     fe_fail_after_n_blocks e = None \<and> fe_undetermined_after_n_blocks e = None"

definition write_obliges :: "AppendIo \<Rightarrow> bool" where
  "write_obliges io \<longleftrightarrow> ai_seek_end_ok io \<and> ai_written io = None \<and> ai_sync_ok io"

lemma append_block_lands:
  assumes "authorised crc m e" and "unsimulated e" and "write_obliges io" and "fe_file e = Some content"
  shows "append_block crc m io e block = (Inr (Landed (fe_frame_count e + 1)),
    e\<lparr>fe_file := Some (content @ block), fe_frame_count := fe_frame_count e + 1\<rparr>)"
proof -
  have "check_authority crc m e = Inr ()" "\<not> exclusion_lost e"
    using assms(1) by (simp_all add: check_authority_iff authorised_def)
  then show ?thesis using assms(2-4)
    by (simp add: append_block_def check_append_simulation_def at_limit_def unsimulated_def write_block_def write_obliges_def)
qed

lemma operation_lands:
  assumes h: "file_holds H crc log st" and "digest H" and "length f = 16" and "length i = 16"
    and auth: "authorised crc m (st_engine st)" and un: "unsimulated (st_engine st)" and io: "write_obliges io"
    and fiber: "store_fiber H file_unsure st f = Inr hdl" and step: "handle_step H oper hdl i pl = Inr (env, hdl')"
    and new: "event_fiber log i = None" and room: "log_room log env" and fits: "EventEnvelope_fits env"
  shows "\<exists>st'. fiber_operation oper H crc file_unsure (check_authority crc m) (check_authority crc m)
      (file_app crc (m, io)) st f i pl = (Inr (Landed env), st') \<and> file_holds H crc (log @ [env]) st'"
proof -
  obtain n e' where "file_app crc (m, io) (st_engine st) (frame_bytes crc (envelope_bytes env)) = (Inr (Landed n), e')"
    using append_block_lands [OF auth un io] h by (auto simp: store_holds_def engine_stores_def)
  moreover have "check_authority crc m (st_engine st) = Inr ()" using auth by (simp add: check_authority_iff)
  ultimately show ?thesis by (intro file_engine.fiber_operation_lands_on [OF h assms(2-4) _ _ fiber step new room fits]) auto
qed

section \<open>Operations that are undetermined\<close>

text \<open>What an undetermined operation leaves in the file: the log as it was or extended by the minted envelope, and
  behind it less than one frame.\<close>

lemma undetermined_leaves:
  assumes "file_holds H crc log st" and "digest H" and "length f = 16" and "length i = 16"
    and "fiber_operation oper H crc file_unsure chk chk' (file_app crc a) st f i pl = (Inr (Undetermined n), st')"
    and "fe_file (st_engine st') = Some content"
  obtains log' p j where "log' = log \<or> log' = log @ [minted oper (handle_of H f (fiber_events log f)) i pl]"
    and "valid_log H log'" and "log_fits log'" and "list_all EventEnvelope_wf log'"
    and "list_all (\<lambda>p. length p \<le> U32_MAX) (p # map envelope_bytes log')" and "j < length (frame_bytes crc p)"
    and "content = container_bytes crc (map envelope_bytes log') @ take j (frame_bytes crc p)"
proof -
  note h = assms(1) [unfolded store_holds_def]
  from file_engine.fiber_operation_written [OF assms(5,1-4)] obtain env m where
    env: "env = minted oper (handle_of H f (fiber_events log f)) i pl" "EventEnvelope_wf env"
      "length (envelope_bytes env) \<le> U32_MAX" "admissible H log env" "log_room log env" and
    app: "file_app crc a (st_engine st) (frame_bytes crc (envelope_bytes env)) = (Inr (Undetermined m), st_engine st')"
    by blast
  let ?c = "container_bytes crc (map envelope_bytes log)" and ?fb = "frame_bytes crc (envelope_bytes env)"
  have small: "list_all (\<lambda>p. length p \<le> U32_MAX) (envelope_bytes env # map envelope_bytes log)"
    using h env(3) by (simp add: engine_stores_def)
  obtain k where k: "content = ?c @ take k ?fb"
    using append_block_outcome [OF app] assms(6) h by (auto simp: append_outcome_def engine_stores_def)
  show thesis
  proof (cases "k < length ?fb")
    case True
    have "valid_log H log" "log_fits log" using h indexes_fits by (auto simp: indexes_def)
    then show thesis using that [of log "envelope_bytes env" k] h small True k by simp
  next
    case False
    let ?log' = "log @ [env]"
    have "indexes H ?log' (commit_envelope_unchecked (st_fiber_index st) env)"
      using commit_unchecked_indexes validate_append_iff h env(4,5) by blast
    then have "valid_log H ?log'" "log_fits ?log'" using indexes_fits by (auto simp: indexes_def)
    then show thesis using that [of ?log' "[]" 0] h small False k env(1,2) by (simp add: container_bytes_snoc)
  qed
qed

section \<open>A sample session\<close>

text \<open>The witnesses run on the empty file of \<open>sample_engine\<close>: a genesis event is appended, once with an
  operating system that obliges and once with one that fails after three bytes.\<close>

definition sample_hash :: blake3 where "sample_hash x = replicate 32 1"

definition sample_crc :: crc32c where "sample_crc = (\<lambda>b. 0)"

definition sample_store :: "FileEngine Store" where
  "sample_store = \<lparr>st_engine = sample_engine, st_rolling_commitment = RollingCommitment_new,
     st_fiber_index = SessionIndex_new, st_broken_reader_cause = None, st_uncertain = False, st_has_diagnostic = False\<rparr>"

abbreviation sample_check :: "FileEngine \<Rightarrow> unit operation" where
  "sample_check \<equiv> check_authority sample_crc (meta_read sample_meta)"

lemma sample_digest: "digest sample_hash"
  by (simp add: digest_def sample_hash_def)

lemma sample_holds: "file_holds sample_hash sample_crc [] sample_store"
  using session.keeps_start [of sample_hash]
  by (simp add: store_holds_def sample_store_def engine_stores_def sample_engine_def sample_crc_def rolled_Nil session_unsure_def)

lemma length_sample_event: "length (envelope_bytes sample_event) = 85"
  using sample_event_valid(5) by (simp add: envelope_bytes_def EventBytes_encode_def) (simp add: sample_event_def)

lemma sample_event_new: "event_fiber [] (replicate 16 1) = None"
  by (simp add: event_fiber_def)

lemma sample_event_fits: "EventEnvelope_fits sample_event"
  by (simp add: EventEnvelope_fits_def sample_event_def U32_bound)

lemma sample_handle:
  "store_fiber sample_hash file_unsure sample_store zero_id = Inr (FiberHandle_new zero_id)"
  "\<exists>h'. handle_step sample_hash Append (FiberHandle_new zero_id) (replicate 16 1) [] = Inr (sample_event, h')"
proof -
  show "store_fiber sample_hash file_unsure sample_store zero_id = Inr (FiberHandle_new zero_id)"
    by (simp add: store_fiber_def session_unsure_def sample_store_def sample_engine_def index_fiber_def SessionIndex_new_def)
  have "minted Append (FiberHandle_new zero_id) (replicate 16 1) [] = sample_event"
    by (simp add: minted_def FiberHandle_new_def sample_event_def starts_over_def)
  then show "\<exists>h'. handle_step sample_hash Append (FiberHandle_new zero_id) (replicate 16 1) [] = Inr (sample_event, h')"
    unfolding handle_step_eq_Inr
    by (simp add: FiberHandle_new_def apply_action_def U32_bound MAX_EVENTS_PER_FIBER_def)
qed

lemma sample_operation:
  assumes "file_app sample_crc (meta_read sample_meta, io) sample_engine
      (frame_bytes sample_crc (envelope_bytes sample_event)) = (v, e')"
  shows "fiber_operation Append sample_hash sample_crc file_unsure sample_check sample_check
      (file_app sample_crc (meta_read sample_meta, io)) sample_store zero_id (replicate 16 1) [] =
    (case v of
       Inl f \<Rightarrow> (Inl f, sample_store\<lparr>st_engine := e'\<rparr>)
     | Inr (Landed n) \<Rightarrow> (Inr (Landed sample_event), sample_store\<lparr>st_engine := e',
         st_rolling_commitment := update_frame RollingCommitment_new (frame_bytes sample_crc (envelope_bytes sample_event)),
         st_fiber_index := commit_envelope_unchecked SessionIndex_new sample_event\<rparr>)
     | Inr (Undetermined n) \<Rightarrow> (Inr (Undetermined n), sample_store\<lparr>st_engine := e', st_uncertain := True,
         st_has_diagnostic := True\<rparr>))"
proof -
  obtain h' where step: "handle_step sample_hash Append (FiberHandle_new zero_id) (replicate 16 1) [] = Inr (sample_event, h')"
    using sample_handle(2) by blast
  have chk: "sample_check (st_engine sample_store) = Inr ()"
    using sample_authorised by (simp add: sample_store_def sample_crc_def check_authority_iff)
  have app: "file_app sample_crc (meta_read sample_meta, io) (st_engine sample_store)
      (frame_bytes sample_crc (envelope_bytes sample_event)) = (v, e')" using assms by (simp add: sample_store_def)
  have kept: "st_rolling_commitment sample_store = RollingCommitment_new" "st_fiber_index sample_store = SessionIndex_new"
    by (simp_all add: sample_store_def)
  show ?thesis unfolding kept [symmetric]
    by (rule file_engine.fiber_operation_reaches [where chk = sample_check and chk' = sample_check,
          OF sample_holds sample_digest _ _ chk chk sample_handle(1) step sample_event_new sample_event_valid(3) sample_event_fits app]) simp_all
qed

lemma sample_appends:
  "\<exists>e'. file_app sample_crc (meta_read sample_meta, good_io) sample_engine block = (Inr (Landed 1), e')"
  "file_app sample_crc (meta_read sample_meta, torn_io) sample_engine block = (Inr (Undetermined 4),
     become_uncertain (Write_failed TruncateFailed)
       (sample_engine\<lparr>fe_file := Some (container_bytes sample_crc [] @ take 3 block)\<rparr>))"
proof -
  have "check_authority sample_crc (meta_read sample_meta) sample_engine = Inr ()"
    using sample_authorised by (simp add: check_authority_iff sample_crc_def)
  then show "\<exists>e'. file_app sample_crc (meta_read sample_meta, good_io) sample_engine block = (Inr (Landed 1), e')"
    "file_app sample_crc (meta_read sample_meta, torn_io) sample_engine block = (Inr (Undetermined 4),
     become_uncertain (Write_failed TruncateFailed)
       (sample_engine\<lparr>fe_file := Some (container_bytes sample_crc [] @ take 3 block)\<rparr>))"
    by (simp_all add: append_block_def sample_engine_def exclusion_lost_def check_append_simulation_def at_limit_def
        write_block_def torn_io_def good_io_def rollback_def sample_crc_def)
qed

section \<open>Properties\<close>

text \<open>C3: whatever a writer session on a file appends, by fiber operations or by frames handed to it directly, and
  whatever the operating system answers, the envelopes that land extend the log the session started with to a valid
  log. While the session is certain, the file holds exactly the frames of that log, the index holds it and the rolling
  commitment covers it; once a write is undetermined, every further append (a fiber operation, an envelope or a frame)
  is refused and changes nothing. Reading is neither part of such a run nor refused after it.\<close>

theorem session_lands_valid_log:
  assumes "session_run H crc file_unsure (check_authority crc) (file_app crc) st es st'"
    and "file_holds H crc log st" and "digest H"
  shows "valid_log H (log @ es) \<and>
    (if session_unsure file_unsure st'
     then fiber_operation oper H crc file_unsure chk chk' (file_app crc a) st' f i pl = (Inl OwnershipRecordUnreadable, st') \<and>
       (\<exists>err. append_envelope_verdict H crc file_unsure chk' (file_app crc a) st' env = (Inl err, st')) \<and>
       append_frame_verdict H crc file_unsure chk' (file_app crc a) st' frame =
         (Inl (if length frame > U32_MAX then ValueConstraintViolated_fc TooLong else OwnershipRecordUnreadable), st')
     else file_holds H crc (log @ es) st')"
  using file_engine.session_run_holds [OF assms] file_engine.fiber_operation_unsure
  by (auto simp: store_holds_def indexes_def append_envelope_unsure append_frame_unsure)

theorem session_lands_valid_log_witness:
  "\<exists>st'. session_run sample_hash sample_crc file_unsure (check_authority sample_crc) (file_app sample_crc)
      sample_store [sample_event] st' \<and> valid_log sample_hash ([] @ [sample_event])"
proof -
  obtain e' where "file_app sample_crc (meta_read sample_meta, good_io) sample_engine
      (frame_bytes sample_crc (envelope_bytes sample_event)) = (Inr (Landed 1), e')" using sample_appends(1) by blast
  from sample_operation [OF this] obtain st' where
    "fiber_operation Append sample_hash sample_crc file_unsure sample_check sample_check
      (file_app sample_crc (meta_read sample_meta, good_io)) sample_store zero_id (replicate 16 1) [] =
      (Inr (Landed sample_event), st')" by simp
  from session_run.landed [where check = "check_authority sample_crc" and app = "file_app sample_crc" and
      a = "(meta_read sample_meta, good_io)" and ?c1.0 = "meta_read sample_meta" and ?c2.0 = "meta_read sample_meta",
      OF session_run.finished _ _ this]
  have run: "session_run sample_hash sample_crc file_unsure (check_authority sample_crc) (file_app sample_crc)
      sample_store [sample_event] st'" by simp
  from session_lands_valid_log [OF run sample_holds sample_digest] run show ?thesis by blast
qed

text \<open>C12: a fiber operation that should succeed does: on a session that holds a log, with authority over the
  file and an operating system that lets the write through, an operation that the fiber's handle admits lands
  if its event identifier is new, the limits leave room and the envelope fits the wire; the session then holds
  the log extended by the minted envelope.\<close>

theorem fiber_operation_lands:
  assumes "file_holds H crc log st" and "digest H" and "length f = 16" and "length i = 16"
    and "authorised crc m (st_engine st)" and "unsimulated (st_engine st)" and "write_obliges io"
    and "store_fiber H file_unsure st f = Inr h" and "handle_step H oper h i pl = Inr (env, h')"
    and "event_fiber log i = None" and "log_room log env" and "EventEnvelope_fits env"
  shows "\<exists>st'. fiber_operation oper H crc file_unsure (check_authority crc m) (check_authority crc m)
      (file_app crc (m, io)) st f i pl = (Inr (Landed env), st') \<and> file_holds H crc (log @ [env]) st'"
  by (rule operation_lands [OF assms])

theorem fiber_operation_lands_witness:
  "\<exists>st'. fiber_operation Append sample_hash sample_crc file_unsure sample_check sample_check
      (file_app sample_crc (meta_read sample_meta, good_io)) sample_store zero_id (replicate 16 1) [] =
      (Inr (Landed sample_event), st') \<and> file_holds sample_hash sample_crc ([] @ [sample_event]) st'"
proof -
  obtain h' where "store_fiber sample_hash file_unsure sample_store zero_id = Inr (FiberHandle_new zero_id)"
    "handle_step sample_hash Append (FiberHandle_new zero_id) (replicate 16 1) [] = Inr (sample_event, h')"
    using sample_handle by blast
  moreover have "authorised sample_crc (meta_read sample_meta) (st_engine sample_store)"
    using sample_authorised by (simp add: sample_store_def sample_crc_def)
  ultimately show ?thesis
    using sample_event_valid sample_event_new sample_event_fits
    by (intro fiber_operation_lands [OF sample_holds sample_digest])
      (simp_all add: sample_store_def sample_engine_def unsimulated_def write_obliges_def good_io_def del: handle_step.simps)
qed

end
