(* ===== verification/File_Paths.thy ===== *)
theory File_Paths
  imports File_Engine
begin

text \<open>
  Where a \<open>FileStorageAdapter\<close> of \<open>file.rs\<close> keeps an artefact. A path is the list of its components as
  \<open>std::path\<close> parses them, so that \<open>parent\<close>, \<open>file_name\<close> and \<open>join\<close> act on the end of the list; names are text.
  The lemmas show that an adapter is found again from either of its two files, and which paths address the same
  artefact.
\<close>

section \<open>Paths\<close>

datatype path_component = RootDir | CurDir | ParentDir | Normal bytes

type_synonym path = "path_component list"

definition file_name :: "path \<Rightarrow> bytes option" where
  "file_name p = (if p = [] then None else case last p of Normal nm \<Rightarrow> Some nm | _ \<Rightarrow> None)"

definition parent :: "path \<Rightarrow> path option" where
  "parent p = (if p = [] \<or> last p = RootDir then None else Some (butlast p))"

text \<open>The name up to its last dot, unless nothing is before it.\<close>

definition stem_of_name :: "bytes \<Rightarrow> bytes" where
  "stem_of_name nm =
    (let extension = takeWhile (\<lambda>b. b \<noteq> 46) (rev nm); before = drop (Suc (length extension)) (rev nm) in
     if before = [] then nm else rev before)"

definition file_stem :: "path \<Rightarrow> bytes option" where
  "file_stem p = map_option stem_of_name (file_name p)"

section \<open>Adapters\<close>

record FileStorageAdapter =
  fa_meta_path :: path
  fa_pgno_path :: path
  fa_stem :: bytes
  fa_exclusion_policy :: FileExclusionPolicy

definition FileStorageAdapter_new :: "path \<Rightarrow> FileStorageAdapter" where
  "FileStorageAdapter_new base =
    (let (dir, stem) =
           (case (parent base, file_stem base) of
              (Some p, Some s) \<Rightarrow> (p, s)
            | (None, Some s) \<Rightarrow> ([], s)
            | _ \<Rightarrow> ([], ascii ''artefact''));
         meta_path = (if dir = [] then [Normal (stem @ ascii ''.meta'')] else dir @ [Normal (stem @ ascii ''.meta'')]);
         pgno_path = (if dir = [] then [Normal (stem @ ascii ''.pgno'')] else dir @ [Normal (stem @ ascii ''.pgno'')])
     in \<lparr>fa_meta_path = meta_path, fa_pgno_path = pgno_path, fa_stem = stem, fa_exclusion_policy = Standard\<rparr>)"

definition with_exclusion_policy :: "FileStorageAdapter \<Rightarrow> FileExclusionPolicy \<Rightarrow> FileStorageAdapter" where
  "with_exclusion_policy ad policy = ad\<lparr>fa_exclusion_policy := policy\<rparr>"

definition locator_id :: "blake3 \<Rightarrow> FileStorageAdapter \<Rightarrow> bytes" where
  "locator_id H ad = subslice 0 16 (H (fa_stem ad))"

section \<open>Which files an adapter addresses\<close>

text \<open>Names of files in a path are not empty.\<close>

definition named_path :: "path \<Rightarrow> bool" where
  "named_path p \<longleftrightarrow> Normal [] \<notin> set p"

lemma up_to_dot: "46 \<notin> set xs \<Longrightarrow> takeWhile (\<lambda>b :: byte. b \<noteq> 46) (xs @ ys) = xs @ takeWhile (\<lambda>b. b \<noteq> 46) ys"
  by (induction xs) auto

lemma stem_of_extended:
  assumes "stem \<noteq> []" and "46 \<notin> set ext"
  shows "stem_of_name (stem @ [46] @ ext) = stem"
proof -
  have "takeWhile (\<lambda>b. b \<noteq> 46) (rev (stem @ [46] @ ext)) = rev ext"
    using up_to_dot [of "rev ext" "46 # rev stem"] assms(2) by simp
  then show ?thesis using assms(1) by (simp add: stem_of_name_def)
qed

lemma stem_of_plain: "46 \<notin> set nm \<Longrightarrow> stem_of_name nm = nm"
proof -
  assume "46 \<notin> set nm"
  then have "takeWhile (\<lambda>b. b \<noteq> 46) (rev nm) = rev nm" using up_to_dot [of "rev nm" "[]"] by simp
  then show ?thesis unfolding stem_of_name_def by (simp only: Let_def) simp
qed

lemma stem_nonempty: "nm \<noteq> [] \<Longrightarrow> stem_of_name nm \<noteq> []"
  by (simp add: stem_of_name_def Let_def)

lemma new_of_file:
  "FileStorageAdapter_new (dir @ [Normal nm]) =
    \<lparr>fa_meta_path = dir @ [Normal (stem_of_name nm @ ascii ''.meta'')], fa_pgno_path = dir @ [Normal (stem_of_name nm @ ascii ''.pgno'')],
     fa_stem = stem_of_name nm, fa_exclusion_policy = Standard\<rparr>"
  by (simp add: FileStorageAdapter_new_def parent_def file_stem_def file_name_def)

lemma new_standard [simp]: "fa_exclusion_policy (FileStorageAdapter_new base) = Standard"
  by (simp add: FileStorageAdapter_new_def Let_def split: prod.splits)

lemma new_of_other: "file_name base = None \<Longrightarrow> FileStorageAdapter_new base = FileStorageAdapter_new [Normal (ascii ''artefact'')]"
  using new_of_file [of "[]" "ascii ''artefact''"]
  by (auto simp: FileStorageAdapter_new_def file_stem_def stem_of_plain ascii_def split: option.splits)

lemma file_name_cases:
  obtains (in_dir) dir nm where "base = dir @ [Normal nm]" | (other) "file_name base = None"
proof (cases base rule: rev_cases)
  case (snoc dir c)
  then show thesis using that by (cases c) (auto simp: file_name_def)
qed (use that in \<open>simp add: file_name_def\<close>)

text \<open>An adapter is found again from either of its files, and these differ.\<close>

lemma adapter_from_its_files:
  assumes "named_path base"
  shows "FileStorageAdapter_new (fa_meta_path (FileStorageAdapter_new base)) = FileStorageAdapter_new base"
    and "FileStorageAdapter_new (fa_pgno_path (FileStorageAdapter_new base)) = FileStorageAdapter_new base"
    and "fa_meta_path (FileStorageAdapter_new base) \<noteq> fa_pgno_path (FileStorageAdapter_new base)"
proof -
  have ext: "stem_of_name (stem @ ascii ''.meta'') = stem \<and> stem_of_name (stem @ ascii ''.pgno'') = stem" if "stem \<noteq> []" for stem
    using stem_of_extended [OF that, of "ascii ''meta''"] stem_of_extended [OF that, of "ascii ''pgno''"] by (simp add: ascii_def)
  have found: "FileStorageAdapter_new (fa_meta_path (FileStorageAdapter_new b)) = FileStorageAdapter_new b \<and>
      FileStorageAdapter_new (fa_pgno_path (FileStorageAdapter_new b)) = FileStorageAdapter_new b \<and>
      fa_meta_path (FileStorageAdapter_new b) \<noteq> fa_pgno_path (FileStorageAdapter_new b)"
    if "b = dir @ [Normal nm]" "nm \<noteq> []" for b dir nm
    using that ext [OF stem_nonempty [OF that(2)]] by (simp add: new_of_file) (simp add: ascii_def)
  have "FileStorageAdapter_new (fa_meta_path (FileStorageAdapter_new base)) = FileStorageAdapter_new base \<and>
      FileStorageAdapter_new (fa_pgno_path (FileStorageAdapter_new base)) = FileStorageAdapter_new base \<and>
      fa_meta_path (FileStorageAdapter_new base) \<noteq> fa_pgno_path (FileStorageAdapter_new base)"
  proof (cases base rule: file_name_cases)
    case (in_dir dir nm)
    then show ?thesis using assms found [of base dir nm] by (auto simp: named_path_def)
  next
    case other
    then show ?thesis using found [of _ "[]" "ascii ''artefact''"] by (simp add: new_of_other ascii_def)
  qed
  then show "FileStorageAdapter_new (fa_meta_path (FileStorageAdapter_new base)) = FileStorageAdapter_new base"
    and "FileStorageAdapter_new (fa_pgno_path (FileStorageAdapter_new base)) = FileStorageAdapter_new base"
    and "fa_meta_path (FileStorageAdapter_new base) \<noteq> fa_pgno_path (FileStorageAdapter_new base)" by blast+
qed

text \<open>Two paths in one directory address the same artefact exactly when their names agree up to the last dot, whatever
  their extensions are.\<close>

lemma same_artefact_iff:
  "FileStorageAdapter_new (dir @ [Normal a]) = FileStorageAdapter_new (dir @ [Normal b]) \<longleftrightarrow> stem_of_name a = stem_of_name b"
  by (auto simp: new_of_file)

lemma versions_share_artefact:
  "FileStorageAdapter_new [Normal (ascii ''orders.v1'')] = FileStorageAdapter_new [Normal (ascii ''orders.v2'')]"
  using stem_of_extended [of "ascii ''orders''" "ascii ''v1''"] stem_of_extended [of "ascii ''orders''" "ascii ''v2''"]
    same_artefact_iff [of "[]"] by (simp add: ascii_def)

end
