(* ===== verification/File_Adapter.thy ===== *)
theory File_Adapter
  imports Store_Session File_Paths
begin

text \<open>
  \<open>FileStorageAdapter\<close> of \<open>file.rs\<close>: creating an artefact (an ownership file and a container file),
  completing a creation that stopped early, opening it for writing with a carried epoch, opening it for
  reading, and recording migration facts in the ownership file. \<open>ArtefactFiles\<close> is what the two files at the
  adapter's paths hold. Every answer of the operating system is an input, so a creation may stop at any
  call and any byte; files another process puts in place meanwhile are seen as such an answer and not tracked.
\<close>

section \<open>State\<close>

record ArtefactFiles =
  af_meta :: "bytes option"
  af_pgno :: "bytes option"

record PresenceIo =
  pi_meta_ok :: bool
  pi_pgno_ok :: bool

definition try_presence :: "PresenceIo \<Rightarrow> ArtefactFiles \<Rightarrow> ArtefactPresence operation" where
  "try_presence io files =
    (if \<not> pi_meta_ok io then Inl OwnershipRecordUnreadable
     else if \<not> pi_pgno_ok io then Inl OwnershipRecordUnreadable
     else Inr (case (af_meta files \<noteq> None, af_pgno files \<noteq> None) of
       (False, False) \<Rightarrow> Presence_None
     | (True, False) \<Rightarrow> OwnershipRecordOnly
     | (False, True) \<Rightarrow> EventDataOnly
     | (True, True) \<Rightarrow> Both))"

text \<open>\<open>mo_stat_ok\<close> is \<open>Path::exists\<close>, which answers \<open>false\<close> when the check itself fails.\<close>

record MetaIo =
  mo_stat_ok :: bool
  mo_open_ok :: bool
  mo_scan :: ReadIo

definition meta_view :: "MetaIo \<Rightarrow> ArtefactFiles \<Rightarrow> MetaRead" where
  "meta_view io files = \<lparr>mi_exists = (mo_stat_ok io \<and> af_meta files \<noteq> None), mi_open_ok = mo_open_ok io,
     mi_read = engine_read (mo_scan io) (case af_meta files of Some content \<Rightarrow> content | None \<Rightarrow> [])\<rparr>"

definition current_epoch :: "crc32c \<Rightarrow> MetaIo \<Rightarrow> ArtefactFiles \<Rightarrow> u64 operation" where
  "current_epoch crc io files =
    result_bind (read_meta_records crc (meta_view io files)) (\<lambda>meta.
      Inr (case mr_latest_claim meta of None \<Rightarrow> 0 | Some c \<Rightarrow> claim_epoch c))"

section \<open>Creation\<close>

datatype CreateNew = Create_Ok | Create_AlreadyExists | Create_Error

text \<open>\<open>write_all\<close>: whether it succeeds, and what the file then holds.\<close>

definition write_all :: "nat option \<Rightarrow> bytes \<Rightarrow> bytes \<Rightarrow> bool \<times> bytes" where
  "write_all fails_after content bs =
    (case fails_after of None \<Rightarrow> (True, content @ bs) | Some k \<Rightarrow> (False, content @ take k bs))"

record CreateMetaIo =
  cm_create :: CreateNew
  cm_header_write :: "nat option"
  cm_claim_write :: "nat option"
  cm_descriptor_write :: "nat option"
  cm_sync_ok :: bool

text \<open>The writes to the new ownership file. \<open>OwnershipRecord::encode\<close> panics for a label of more than
  \<open>u32::MAX\<close> bytes, which the length check before it excludes; the model gives that branch the failure of an
  over-long value.\<close>

definition write_meta_file :: "crc32c \<Rightarrow> CreateMetaIo \<Rightarrow> OwnershipClaimRecord \<Rightarrow> AdmittedDescriptor \<Rightarrow>
    unit operation \<times> bytes" where
  "write_meta_file crc io initial_claim descr =
    (case write_all (cm_header_write io) [] (ContainerHeader_to_bytes ContainerHeader_new) of
       (False, content) \<Rightarrow> (Inl OwnershipRecordUnreadable, content)
     | (True, content1) \<Rightarrow>
         (case OwnershipRecord_encode (OwnershipClaim initial_claim) of
            None \<Rightarrow> (Inl (ValueConstraintViolated_fc TooLong), content1)
          | Some claim_bytes \<Rightarrow>
              (case try_encode_payload crc claim_bytes of
                 Inl _ \<Rightarrow> (Inl (ValueConstraintViolated_fc TooLong), content1)
               | Inr frame_buf \<Rightarrow>
                   (case write_all (cm_claim_write io) content1 frame_buf of
                      (False, content) \<Rightarrow> (Inl OwnershipRecordUnreadable, content)
                    | (True, content2) \<Rightarrow>
                        (case try_encode_payload crc (ad_encoded_record descr) of
                           Inl _ \<Rightarrow> (Inl (ValueConstraintViolated_fc TooLong), content2)
                         | Inr desc_frame \<Rightarrow>
                             (case write_all (cm_descriptor_write io) content2 desc_frame of
                                (False, content) \<Rightarrow> (Inl OwnershipRecordUnreadable, content)
                              | (True, content3) \<Rightarrow>
                                  (if cm_sync_ok io then Inr () else Inl OwnershipRecordUnreadable, content3)))))))"

record CreateDataIo =
  cd_create :: CreateNew
  cd_header_write :: "nat option"
  cd_sync_ok :: bool
  cd_lock :: TryLock

text \<open>The steps on the new container file that \<open>create\<close> and \<open>complete_creation\<close> share; they differ in the
  failure of a refused creation.\<close>

definition create_event_data :: "(CreateNew \<Rightarrow> failure_condition) \<Rightarrow> CreateDataIo \<Rightarrow> FileExclusionPolicy \<Rightarrow>
    bytes operation \<times> bytes option" where
  "create_event_data create_error io policy =
    (if cd_create io \<noteq> Create_Ok then (Inl (create_error (cd_create io)), None)
     else
       (case write_all (cd_header_write io) [] (ContainerHeader_to_bytes ContainerHeader_new) of
          (False, content) \<Rightarrow> (Inl (PrecursorChainBroken None), Some content)
        | (True, content) \<Rightarrow>
            if \<not> cd_sync_ok io then (Inl (PrecursorChainBroken None), Some content)
            else
              (case acquire_file_exclusion (cd_lock io) policy of
                 Inl f \<Rightarrow> (Inl f, Some content)
               | Inr _ \<Rightarrow> (Inr content, Some content))))"

text \<open>The engine of a writer session; every simulation switch is off.\<close>

definition writer_engine :: "FileStorageAdapter \<Rightarrow> bytes \<Rightarrow> u64 \<Rightarrow> OwnershipClaimRecord \<Rightarrow> MetaRecords \<Rightarrow> u64 \<Rightarrow>
    TornTailInfo option \<Rightarrow> FileEngine" where
  "writer_engine ad content carried_epoch claim meta frame_count truncation =
    \<lparr>fe_file = Some content, fe_carried_epoch = carried_epoch, fe_claim = Some claim, fe_admission = Ready,
     fe_meta_records = meta, fe_exclusion_policy = fa_exclusion_policy ad, fe_locked = True,
     fe_frame_count = frame_count, fe_read_all_count = 0, fe_uncertain = False, fe_uncertain_diagnostic = None,
     fe_simulate_indeterminate = False, fe_simulate_sync_error = False, fe_simulate_write_error = False,
     fe_fail_after_n_blocks = None, fe_undetermined_after_n_blocks = None,
     fe_recovered_tail_truncation = truncation\<rparr>"

record CreateIo =
  cr_presence :: PresenceIo
  cr_meta :: CreateMetaIo
  cr_data :: CreateDataIo
  cr_recover :: ReadIo

fun create_meta_error :: "CreateNew \<Rightarrow> failure_condition" where
  "create_meta_error Create_AlreadyExists = StoreAlreadyExists"
| "create_meta_error _ = OwnershipRecordUnreadable"

fun create_pgno_error :: "CreateNew \<Rightarrow> failure_condition" where
  "create_pgno_error Create_AlreadyExists = StoreAlreadyExists"
| "create_pgno_error _ = NoArtefactExists"

definition create_with_limit :: "blake3 \<Rightarrow> crc32c \<Rightarrow> CreateIo \<Rightarrow> FileStorageAdapter \<Rightarrow> ArtefactFiles \<Rightarrow>
    OwnershipClaimRecord \<Rightarrow> AdmittedDescriptor \<Rightarrow> nat \<Rightarrow> FileEngine Store operation \<times> ArtefactFiles" where
  "create_with_limit H crc io ad files initial_claim descr max_wire_len =
    (case result_bind (try_presence (cr_presence io) files) (\<lambda>p.
            result_bind (admit_create p) (\<lambda>_.
              compute_claim_wire_len_bounded (length (claim_operator_label initial_claim)) max_wire_len)) of
       Inl f \<Rightarrow> (Inl f, files)
     | Inr _ \<Rightarrow>
         if cm_create (cr_meta io) \<noteq> Create_Ok then (Inl (create_meta_error (cm_create (cr_meta io))), files)
         else
           (case write_meta_file crc (cr_meta io) initial_claim descr of
              (Inl f, meta_content) \<Rightarrow> (Inl f, files\<lparr>af_meta := Some meta_content\<rparr>)
            | (Inr _, meta_content) \<Rightarrow>
                (case create_event_data create_pgno_error (cr_data io) (fa_exclusion_policy ad) of
                   (Inl f, pgno) \<Rightarrow> (Inl f, \<lparr>af_meta = Some meta_content, af_pgno = pgno\<rparr>)
                 | (Inr content, pgno) \<Rightarrow>
                     (open_writer H crc (recover_frames crc (cr_recover io))
                        (writer_engine ad content (claim_epoch initial_claim) initial_claim
                          (MetaRecords_default\<lparr>mr_latest_claim := Some initial_claim,
                             mr_schema_descriptor := Some (ad_descriptor descr)\<rparr>) 0 None),
                      \<lparr>af_meta = Some meta_content, af_pgno = pgno\<rparr>))))"

definition create :: "blake3 \<Rightarrow> crc32c \<Rightarrow> CreateIo \<Rightarrow> FileStorageAdapter \<Rightarrow> ArtefactFiles \<Rightarrow>
    OwnershipClaimRecord \<Rightarrow> AdmittedDescriptor \<Rightarrow> FileEngine Store operation \<times> ArtefactFiles" where
  "create H crc io ad files initial_claim descr =
    create_with_limit H crc io ad files initial_claim descr U32_MAX"

fun map_completion_create_error :: "CreateNew \<Rightarrow> failure_condition" where
  "map_completion_create_error Create_AlreadyExists = StoreAlreadyExists"
| "map_completion_create_error _ = TransportUnavailable"

record CompleteIo =
  co_presence :: PresenceIo
  co_meta :: MetaIo
  co_data :: CreateDataIo
  co_recover :: ReadIo

fun admit_completion :: "ArtefactPresence \<Rightarrow> unit operation" where
  "admit_completion OwnershipRecordOnly = Inr ()"
| "admit_completion Presence_None = Inl NoArtefactExists"
| "admit_completion EventDataOnly = Inl StoreAlreadyExists"
| "admit_completion Both = Inl StoreAlreadyExists"

text \<open>The descriptor and the claim an ownership file must hold before a session is opened on it.\<close>

definition require_descriptor :: "blake3 \<Rightarrow> MetaRecords \<Rightarrow> unit operation" where
  "require_descriptor H meta =
    result_bind (ok_or MissingSchemaDescriptor (mr_schema_descriptor meta)) (\<lambda>descr.
      result_bind (map_err (\<lambda>_. MissingSchemaDescriptor) (try_from_descriptor H descr)) (\<lambda>_. Inr ()))"

definition complete_creation :: "blake3 \<Rightarrow> crc32c \<Rightarrow> CompleteIo \<Rightarrow> FileStorageAdapter \<Rightarrow> ArtefactFiles \<Rightarrow>
    OwnershipClaimRecord \<Rightarrow> FileEngine Store operation \<times> ArtefactFiles" where
  "complete_creation H crc io ad files claim =
    (case result_bind (try_presence (co_presence io) files) (\<lambda>p.
            result_bind (admit_completion p) (\<lambda>_.
            result_bind (read_meta_records crc (meta_view (co_meta io) files)) (\<lambda>meta.
            result_bind (require_descriptor H meta) (\<lambda>_.
            result_bind (ok_or OwnershipRecordUnreadable (mr_latest_claim meta)) (\<lambda>durable_claim.
              if durable_claim \<noteq> claim then Inl OwnershipUnestablished else Inr meta))))) of
       Inl f \<Rightarrow> (Inl f, files)
     | Inr meta \<Rightarrow>
         (case create_event_data map_completion_create_error (co_data io) (fa_exclusion_policy ad) of
            (Inl f, pgno) \<Rightarrow> (Inl f, files\<lparr>af_pgno := pgno\<rparr>)
          | (Inr content, pgno) \<Rightarrow>
              (open_writer H crc (recover_frames crc (co_recover io))
                 (writer_engine ad content (claim_epoch claim) claim meta 0 None),
               files\<lparr>af_pgno := pgno\<rparr>)))"

section \<open>Opening\<close>

record OpenIo =
  oi_presence :: PresenceIo
  oi_incomplete_meta :: MetaIo
  oi_complete :: CompleteIo
  oi_open_ok :: bool
  oi_lock :: TryLock
  oi_meta :: MetaIo
  oi_scan :: ReadIo
  oi_tail :: TailIo
  oi_recover :: ReadIo

text \<open>\<open>Inr None\<close>: both files are there and \<open>open_write\<close> goes on; \<open>Inr (Some _)\<close>: the creation was completed.\<close>

definition check_open_write_presence :: "blake3 \<Rightarrow> crc32c \<Rightarrow> OpenIo \<Rightarrow> FileStorageAdapter \<Rightarrow> ArtefactFiles \<Rightarrow> u64 \<Rightarrow>
    FileEngine Store option operation \<times> ArtefactFiles" where
  "check_open_write_presence H crc io ad files carried_epoch =
    (case try_presence (oi_presence io) files of
       Inl f \<Rightarrow> (Inl f, files)
     | Inr Presence_None \<Rightarrow> (Inl NoArtefactExists, files)
     | Inr EventDataOnly \<Rightarrow> (Inl OwnershipUnestablished, files)
     | Inr OwnershipRecordOnly \<Rightarrow>
         (case result_bind (read_meta_records crc (meta_view (oi_incomplete_meta io) files)) (\<lambda>meta.
                 if mr_outbound_pointer meta \<noteq> None then Inl RetiredMigrationSource
                 else result_bind (ok_or OwnershipUnestablished (mr_latest_claim meta)) (\<lambda>claim.
                   if claim_epoch claim \<noteq> carried_epoch then Inl StaleEpoch else Inr claim)) of
            Inl f \<Rightarrow> (Inl f, files)
          | Inr claim \<Rightarrow>
              (case complete_creation H crc (oi_complete io) ad files claim of
                 (Inl f, files') \<Rightarrow> (Inl f, files')
               | (Inr session, files') \<Rightarrow> (Inr (Some session), files')))
     | Inr Both \<Rightarrow> (Inr None, files))"

text \<open>The checks of \<open>open_write\<close> on the ownership records, made while the exclusion is held.\<close>

definition admit_write :: "blake3 \<Rightarrow> MetaRecords \<Rightarrow> u64 \<Rightarrow> OwnershipClaimRecord operation" where
  "admit_write H meta carried_epoch =
    (if mr_outbound_pointer meta \<noteq> None then Inl RetiredMigrationSource
     else
       result_bind (require_descriptor H meta) (\<lambda>_.
       result_bind (ok_or OwnershipRecordUnreadable (mr_latest_claim meta)) (\<lambda>claim.
         if claim_epoch claim \<noteq> carried_epoch then Inl StaleEpoch else Inr claim)))"

definition open_write_present :: "blake3 \<Rightarrow> crc32c \<Rightarrow> OpenIo \<Rightarrow> FileStorageAdapter \<Rightarrow> ArtefactFiles \<Rightarrow> bytes \<Rightarrow> u64 \<Rightarrow>
    FileEngine Store operation \<times> ArtefactFiles" where
  "open_write_present H crc io ad files content carried_epoch =
    (case result_bind (acquire_file_exclusion (oi_lock io) (fa_exclusion_policy ad)) (\<lambda>_.
            result_bind (read_meta_records crc (meta_view (oi_meta io) files)) (\<lambda>meta.
            result_bind (admit_write H meta carried_epoch) (\<lambda>claim.
            result_bind (read_container_frames crc (engine_read (oi_scan io) content)) (\<lambda>scan.
              Inr (meta, claim, scan))))) of
       Inl f \<Rightarrow> (Inl f, files)
     | Inr (meta, claim, scan) \<Rightarrow>
         (case reconcile_tail_state (oi_tail io) content scan of
            (Inl f, content') \<Rightarrow> (Inl f, files\<lparr>af_pgno := Some content'\<rparr>)
          | (Inr truncation, content') \<Rightarrow>
              (open_writer H crc (recover_frames crc (oi_recover io))
                 (writer_engine ad content' carried_epoch claim meta (of_nat (length (cs_frames scan))) truncation),
               files\<lparr>af_pgno := Some content'\<rparr>)))"

definition open_write :: "blake3 \<Rightarrow> crc32c \<Rightarrow> OpenIo \<Rightarrow> FileStorageAdapter \<Rightarrow> ArtefactFiles \<Rightarrow> u64 \<Rightarrow>
    FileEngine Store operation \<times> ArtefactFiles" where
  "open_write H crc io ad files carried_epoch =
    (case check_open_write_presence H crc io ad files carried_epoch of
       (Inl f, files') \<Rightarrow> (Inl f, files')
     | (Inr (Some session), files') \<Rightarrow> (Inr session, files')
     | (Inr None, files') \<Rightarrow>
         (case (if oi_open_ok io then af_pgno files' else None) of
            None \<Rightarrow> (Inl NoArtefactExists, files')
          | Some content \<Rightarrow> open_write_present H crc io ad files' content carried_epoch))"

record OpenReadIo =
  or_presence :: PresenceIo
  or_meta :: MetaIo
  or_pgno_stat_ok :: bool
  or_open_ok :: bool
  or_scan :: ReadIo
  or_seek_ok :: bool
  or_recover :: ReadIo

definition open_read :: "blake3 \<Rightarrow> crc32c \<Rightarrow> OpenReadIo \<Rightarrow> ArtefactFiles \<Rightarrow> FileEngine Store operation" where
  "open_read H crc io files =
    result_bind (try_presence (or_presence io) files) (\<lambda>p.
      if p = Presence_None then Inl NoArtefactExists
      else
        result_bind
          (if mi_exists (meta_view (or_meta io) files) then read_meta_records crc (meta_view (or_meta io) files)
           else Inr MetaRecords_default) (\<lambda>meta_records.
        result_bind (admit_open p (mr_latest_claim meta_records) False) (\<lambda>admission.
        result_bind
          (case (if or_pgno_stat_ok io then af_pgno files else None) of
             None \<Rightarrow> Inr (None, 0)
           | Some content \<Rightarrow>
               if \<not> or_open_ok io then Inl NoArtefactExists
               else result_bind (read_container_frames crc (engine_read (or_scan io) content)) (\<lambda>scan.
                 if cs_tail_state scan \<noteq> Clean then Inl (PrecursorChainBroken None)
                 else if \<not> or_seek_ok io then Inl (PrecursorChainBroken None)
                 else Inr (Some content, of_nat (length (cs_frames scan))))) (\<lambda>(opened_file, frame_count).
          Inr (open_reader H crc (recover_frames crc (or_recover io))
            \<lparr>fe_file = opened_file,
             fe_carried_epoch = (case mr_latest_claim meta_records of None \<Rightarrow> 0 | Some c \<Rightarrow> claim_epoch c),
             fe_claim = mr_latest_claim meta_records, fe_admission = admission, fe_meta_records = meta_records,
             fe_exclusion_policy = Standard, fe_locked = False, fe_frame_count = frame_count,
             fe_read_all_count = 0, fe_uncertain = False, fe_uncertain_diagnostic = None,
             fe_simulate_indeterminate = False, fe_simulate_sync_error = False,
             fe_simulate_write_error = False, fe_fail_after_n_blocks = None,
             fe_undetermined_after_n_blocks = None, fe_recovered_tail_truncation = None\<rparr>)))))"

section \<open>Recording and querying\<close>

text \<open>The outer \<open>None\<close> is the panic of \<open>OwnershipRecord::encode\<close>. The ownership file is opened for append only,
  so a missing one is a failure to open.\<close>

definition record_meta_record_internal :: "crc32c \<Rightarrow> MetaWrite \<Rightarrow> ArtefactFiles \<Rightarrow> OwnershipRecord \<Rightarrow>
    unit operation option \<times> ArtefactFiles" where
  "record_meta_record_internal crc io files record =
    (case af_meta files of
       None \<Rightarrow> (Some (Inl (into_failure (Open OwnershipRecordUnreadable))), files)
     | Some content \<Rightarrow>
         (case append_meta_record crc io content record of
            (res, content') \<Rightarrow> (map_option (map_err into_failure) res, files\<lparr>af_meta := Some content'\<rparr>)))"

definition record_migration_start where
  "record_migration_start crc io files start = record_meta_record_internal crc io files (MigrationStart start)"

definition record_migration_end where
  "record_migration_end crc io files me = record_meta_record_internal crc io files (MigrationEnd me)"

definition record_rescue_policy_choice where
  "record_rescue_policy_choice crc io files choice = record_meta_record_internal crc io files (RescuePolicyChoice choice)"

definition outbound_pointer :: "crc32c \<Rightarrow> MetaIo \<Rightarrow> ArtefactFiles \<Rightarrow> OutboundPointerRecord option operation" where
  "outbound_pointer crc io files =
    result_bind (read_meta_records crc (meta_view io files)) (\<lambda>meta. Inr (mr_outbound_pointer meta))"

definition inbound_pointer :: "crc32c \<Rightarrow> MetaIo \<Rightarrow> ArtefactFiles \<Rightarrow> InboundPointerRecord option operation" where
  "inbound_pointer crc io files =
    result_bind (read_meta_records crc (meta_view io files)) (\<lambda>meta. Inr (mr_inbound_pointer meta))"

definition is_retired_source :: "crc32c \<Rightarrow> MetaIo \<Rightarrow> ArtefactFiles \<Rightarrow> bool operation" where
  "is_retired_source crc io files =
    result_bind (read_meta_records crc (meta_view io files)) (\<lambda>meta. Inr (mr_outbound_pointer meta \<noteq> None))"

text \<open>\<open>FileWriterSession\<close> is the store over a \<open>FileEngine\<close> and forwards to it; its own operations:\<close>

definition session_claim :: "FileEngine Store \<Rightarrow> OwnershipClaimRecord option" where
  "session_claim st = fe_claim (st_engine st)"

definition session_release_exclusion :: "bool \<Rightarrow> FileEngine Store \<Rightarrow> unit operation" where
  "session_release_exclusion unlock_ok st = fst (release_exclusion unlock_ok (st_engine st))"

section \<open>What an opened session rests on\<close>

lemma read_meta_records_faulty:
  assumes "read_meta_records crc (meta_view io files) = Inr r" and "mr_latest_claim r = Some c"
  obtains content where "af_meta files = Some content" and "read_meta_records crc (meta_read content) = Inr r"
proof -
  from assms have "mi_exists (meta_view io files)"
    by (auto simp: read_meta_records_def MetaRecords_default_def split: if_splits)
  then obtain content where content: "af_meta files = Some content" by (auto simp: meta_view_def)
  from assms obtain s where "read_container_frames crc (engine_read (mo_scan io) content) = Inr s"
    "read_meta_frames MetaRecords_default (cs_frames s) = Inr r" "cs_tail_state s = Clean"
    "ch_format_version (cs_header s) = CONTAINER_FORMAT_VERSION"
    by (auto simp: read_meta_records_def MetaRecords_default_def meta_view_def content result_simps split: if_splits)
  then have "read_meta_records crc (meta_read content) = Inr r"
    using engine_read_faulty [of crc "mo_scan io" content s] by (simp add: read_meta_records_def meta_read_def)
  with content show thesis by (rule that)
qed

lemma open_writer_engine:
  "open_writer H crc (recover_frames crc io) e = Inr st \<Longrightarrow> \<exists>n. st_engine st = e\<lparr>fe_frame_count := n\<rparr>"
proof -
  have same: "\<exists>n. x = x\<lparr>fe_frame_count := n\<rparr>" for x :: FileEngine
    by (rule exI [of _ "fe_frame_count x"]) simp
  have "\<exists>n. e' = e\<lparr>fe_frame_count := n\<rparr>" if "recover_frames crc io e k cb s = (res, s', e')" for k cb s res s' e'
    using that by (auto simp: recover_frames_def Let_def same split: option.splits sum.splits prod.splits)
  then show "open_writer H crc (recover_frames crc io) e = Inr st \<Longrightarrow> \<exists>n. st_engine st = e\<lparr>fe_frame_count := n\<rparr>"
    by (auto simp: open_writer_def split: sum.splits prod.splits)
qed

lemma acquire_file_exclusion_eq_Inr [result_simps]:
  "acquire_file_exclusion l p = Inr u \<longleftrightarrow> p = Standard \<and> l = Lock_Ok"
  by (cases p; cases l) (simp_all add: acquire_file_exclusion_def)

lemma require_descriptor_eq_Inr [result_simps]:
  "require_descriptor H meta = Inr u \<longleftrightarrow>
    (\<exists>descr a. mr_schema_descriptor meta = Some descr \<and> try_from_descriptor H descr = Inr a)"
  by (auto simp: require_descriptor_def result_simps)

lemma admit_write_eq_Inr [result_simps]:
  "admit_write H meta epoch = Inr claim \<longleftrightarrow> mr_outbound_pointer meta = None \<and>
    (\<exists>descr a. mr_schema_descriptor meta = Some descr \<and> try_from_descriptor H descr = Inr a) \<and>
    mr_latest_claim meta = Some claim \<and> claim_epoch claim = epoch"
  by (auto simp: admit_write_def result_simps split: if_splits)

text \<open>The records a writer session may be opened on, and a session opened on them.\<close>

definition writable_meta :: "blake3 \<Rightarrow> crc32c \<Rightarrow> bytes \<Rightarrow> u64 \<Rightarrow> OwnershipClaimRecord \<Rightarrow> bool" where
  "writable_meta H crc content epoch claim \<longleftrightarrow>
    (\<exists>r. read_meta_records crc (meta_read content) = Inr r \<and> admit_write H r epoch = Inr claim)"

definition opened_on :: "blake3 \<Rightarrow> crc32c \<Rightarrow> ArtefactFiles \<Rightarrow> u64 \<Rightarrow> FileEngine Store \<Rightarrow> ArtefactFiles \<Rightarrow> bool" where
  "opened_on H crc files epoch st files' \<longleftrightarrow> af_meta files' = af_meta files \<and>
    (\<exists>content claim. af_meta files = Some content \<and> writable_meta H crc content epoch claim \<and>
       session_claim st = Some claim \<and> authorised crc (meta_read content) (st_engine st)) \<and>
    fe_file (st_engine st) = af_pgno files' \<and> af_pgno files' \<noteq> None"

lemma writer_opened_on:
  assumes "open_writer H crc (recover_frames crc io) (writer_engine ad content epoch claim r n tr) = Inr st"
    and "fa_exclusion_policy ad = Standard" and "af_meta files = Some m" and "af_meta files' = Some m"
    and "af_pgno files' = Some content" and "read_meta_records crc (meta_read m) = Inr r" and "admit_write H r epoch = Inr claim"
  shows "opened_on H crc files epoch st files'"
  using open_writer_engine [OF assms(1)] assms(2-7)
  by (auto simp: opened_on_def writable_meta_def session_claim_def writer_engine_def authorised_def exclusion_lost_def
      admit_write_eq_Inr)

lemma complete_creation_opened:
  assumes "complete_creation H crc io ad files claim = (Inr st, files')" and "read_meta_records crc (meta_view io2 files) = Inr r2"
    and "mr_outbound_pointer r2 = None" and "mr_latest_claim r2 = Some claim"
  shows "opened_on H crc files (claim_epoch claim) st files'"
proof -
  from assms(1) obtain r content pgno where r: "read_meta_records crc (meta_view (co_meta io) files) = Inr r"
      "require_descriptor H r = Inr ()" "mr_latest_claim r = Some claim" and
    d: "create_event_data map_completion_create_error (co_data io) (fa_exclusion_policy ad) = (Inr content, pgno)" and
    w: "open_writer H crc (recover_frames crc (co_recover io)) (writer_engine ad content (claim_epoch claim) claim r 0 None) = Inr st"
      "files' = files\<lparr>af_pgno := pgno\<rparr>"
    by (auto simp: complete_creation_def result_simps split: sum.splits prod.splits if_splits)
  obtain m where m: "af_meta files = Some m" "read_meta_records crc (meta_read m) = Inr r"
    using read_meta_records_faulty [OF r(1,3)] .
  moreover have "r2 = r" using read_meta_records_faulty [OF assms(2,4)] m by auto
  moreover have "pgno = Some content" "fa_exclusion_policy ad = Standard"
    using d by (auto simp: create_event_data_def result_simps split: if_splits sum.splits prod.splits bool.splits)
  ultimately show ?thesis
    using w r(2,3) assms(3) by (intro writer_opened_on [OF w(1)]) (auto simp: admit_write_eq_Inr require_descriptor_eq_Inr)
qed

lemma open_write_present_opened:
  assumes "open_write_present H crc io ad files content epoch = (Inr st, files')"
  shows "opened_on H crc files epoch st files'"
proof -
  from assms obtain r claim n tr content' where
    r: "fa_exclusion_policy ad = Standard" "read_meta_records crc (meta_view (oi_meta io) files) = Inr r"
      "admit_write H r epoch = Inr claim" and
    w: "open_writer H crc (recover_frames crc (oi_recover io))
        (writer_engine ad content' epoch claim r n tr) = Inr st"
      "files' = files\<lparr>af_pgno := Some content'\<rparr>"
    by (auto simp: open_write_present_def acquire_file_exclusion_eq_Inr result_bind_eq_Inr split: sum.splits prod.splits)
  moreover obtain m where "af_meta files = Some m" "read_meta_records crc (meta_read m) = Inr r"
    using read_meta_records_faulty [OF r(2)] r(3) by (auto simp: admit_write_eq_Inr)
  ultimately show ?thesis by (intro writer_opened_on [OF w(1)]) simp_all
qed

lemma open_write_opened:
  assumes "open_write H crc io ad files epoch = (Inr st, files')"
  shows "opened_on H crc files epoch st files'"
proof -
  obtain v files1 where v: "check_open_write_presence H crc io ad files epoch = (v, files1)" by fastforce
  consider (whole) "v = Inr None" | (resumed) "v = Inr (Some st)" "files1 = files'"
    using assms v by (auto simp: open_write_def split: sum.splits option.splits)
  then show ?thesis
  proof cases
    case whole
    then have "files1 = files"
      using v by (auto simp: check_open_write_presence_def split: sum.splits prod.splits ArtefactPresence.splits)
    then show ?thesis using assms v whole open_write_present_opened
      by (auto simp: open_write_def split: option.splits if_splits)
  next
    case resumed
    then obtain r claim where "read_meta_records crc (meta_view (oi_incomplete_meta io) files) = Inr r"
      "mr_outbound_pointer r = None" "mr_latest_claim r = Some claim" "claim_epoch claim = epoch"
      "complete_creation H crc (oi_complete io) ad files claim = (Inr st, files')"
      using v by (auto simp: check_open_write_presence_def result_simps
          split: sum.splits prod.splits ArtefactPresence.splits if_splits)
    from complete_creation_opened [OF this(5,1,2,3)] this(4) show ?thesis by simp
  qed
qed

section \<open>Opening with an operating system that obliges\<close>

definition meta_obliges :: "MetaIo \<Rightarrow> bool" where
  "meta_obliges io \<longleftrightarrow> mo_stat_ok io \<and> mo_open_ok io \<and> all_ok (mo_scan io)"

definition presence_obliges :: "PresenceIo \<Rightarrow> bool" where
  "presence_obliges io \<longleftrightarrow> pi_meta_ok io \<and> pi_pgno_ok io"

definition data_obliges :: "CreateDataIo \<Rightarrow> bool" where
  "data_obliges io \<longleftrightarrow> cd_create io = Create_Ok \<and> cd_header_write io = None \<and> cd_sync_ok io \<and> cd_lock io = Lock_Ok"

definition open_obliges :: "OpenIo \<Rightarrow> bool" where
  "open_obliges io \<longleftrightarrow> presence_obliges (oi_presence io) \<and> meta_obliges (oi_incomplete_meta io) \<and>
    presence_obliges (co_presence (oi_complete io)) \<and> meta_obliges (co_meta (oi_complete io)) \<and>
    data_obliges (co_data (oi_complete io)) \<and> all_ok (co_recover (oi_complete io)) \<and>
    oi_open_ok io \<and> oi_lock io = Lock_Ok \<and> meta_obliges (oi_meta io) \<and> all_ok (oi_scan io) \<and>
    ti_seek_end_ok (oi_tail io) \<and> ti_set_len_ok (oi_tail io) \<and> ti_sync_ok (oi_tail io) \<and>
    ti_seek_start_ok (oi_tail io) \<and> all_ok (oi_recover io)"

lemma meta_view_obliges: "meta_obliges io \<Longrightarrow> af_meta files = Some content \<Longrightarrow> meta_view io files = meta_read content"
  by (simp add: meta_obliges_def meta_view_def meta_read_def engine_read_ok)

lemma try_presence_obliges:
  "presence_obliges io \<Longrightarrow> try_presence io files =
    Inr (case (af_meta files \<noteq> None, af_pgno files \<noteq> None) of
       (False, False) \<Rightarrow> Presence_None | (True, False) \<Rightarrow> OwnershipRecordOnly
     | (False, True) \<Rightarrow> EventDataOnly | (True, True) \<Rightarrow> Both)"
  by (simp add: try_presence_def presence_obliges_def)

lemma create_event_data_obliges:
  "data_obliges io \<Longrightarrow> create_event_data err io Standard =
    (Inr (container_bytes crc []), Some (container_bytes crc []))"
  by (simp add: data_obliges_def create_event_data_def write_all_def acquire_file_exclusion_def container_bytes_def
      frames_bytes_def)

lemma writer_engine_file: "writer_engine ad content epoch claim r n tr = (writer_engine ad [] epoch claim r n tr)\<lparr>fe_file := Some content\<rparr>"
  by (simp add: writer_engine_def)

lemma writer_engine_sure [simp]: "fe_uncertain_diagnostic (writer_engine ad content epoch claim r n tr) = None"
  by (simp add: writer_engine_def)

lemma reconcile_obliges:
  assumes "ti_seek_end_ok tio" "ti_set_len_ok tio" "ti_sync_ok tio" "ti_seek_start_ok tio"
  shows "\<exists>tr. reconcile_tail_state tio content s = (Inr tr, case cs_tail_state s of Clean \<Rightarrow> content
    | TornTail info \<Rightarrow> take (tt_valid_len info) content)"
  using assms by (auto simp: reconcile_tail_state_def Let_def split: TailState.splits)

text \<open>A container with any part of a further frame behind the log opens on the log, and the part is cut off.\<close>

lemma open_write_whole:
  assumes "valid_log H log" and "log_fits log" and "list_all EventEnvelope_wf log"
    and small: "list_all (\<lambda>p. length p \<le> U32_MAX) (pl # map envelope_bytes log)" and k: "k < length (frame_bytes crc pl)"
    and c: "content = container_bytes crc (map envelope_bytes log) @ take k (frame_bytes crc pl)"
    and len: "length content \<le> USIZE_MAX"
    and files: "af_meta files = Some m" "af_pgno files = Some content"
    and m: "writable_meta H crc m epoch claim" and ok: "open_obliges io" and std: "fa_exclusion_policy ad = Standard"
  shows "\<exists>st. open_write H crc io ad files epoch =
      (Inr st, files\<lparr>af_pgno := Some (container_bytes crc (map envelope_bytes log))\<rparr>) \<and> file_holds H crc log st"
proof -
  let ?c = "container_bytes crc (map envelope_bytes log)"
  have len_k: "length ?c + k \<le> USIZE_MAX" using k len c by simp
  from m obtain r where r: "read_meta_records crc (meta_read m) = Inr r" "admit_write H r epoch = Inr claim"
    by (auto simp: writable_meta_def)
  obtain s where s: "read_container_frames crc (file_read content) = Inr s"
    "cs_tail_state s = (if k = 0 then Clean else TornTail \<lparr>tt_valid_len = length ?c, tt_truncated_bytes = k\<rparr>)"
    using torn_container [OF small k len_k] c by simp
  obtain tr where tr: "reconcile_tail_state (oi_tail io) content s = (Inr tr, ?c)"
    using reconcile_obliges [of "oi_tail io" content s] ok s(2) c by (auto simp: open_obliges_def)
  define e where "e = writer_engine ad [] epoch claim r (of_nat (length (cs_frames s))) tr"
  have "\<not> file_unsure e" by (simp add: e_def)
  from torn_file_opens [OF assms(1-3) small k c len _ this s(1) tr] ok obtain st where
    st: "open_writer H crc (recover_frames crc (oi_recover io)) (e\<lparr>fe_file := Some ?c\<rparr>) = Inr st" "file_holds H crc log st"
    by (auto simp: open_obliges_def)
  have "open_write_present H crc io ad files content epoch = (Inr st, files\<lparr>af_pgno := Some ?c\<rparr>)"
    using ok std r s(1) tr st(1) files meta_view_obliges [of "oi_meta io" files m] writer_engine_file [of ad ?c]
    by (simp add: open_write_present_def open_obliges_def acquire_file_exclusion_def engine_read_ok e_def)
  moreover have "check_open_write_presence H crc io ad files epoch = (Inr None, files)"
    using ok files by (simp add: check_open_write_presence_def open_obliges_def try_presence_obliges)
  ultimately show ?thesis using ok files st(2) by (simp add: open_write_def open_obliges_def)
qed

text \<open>An ownership file without a container file: opening for writing completes the creation.\<close>

lemma empty_log_opens:
  assumes "all_ok io"
  shows "\<exists>st. open_writer H crc (recover_frames crc io) (writer_engine ad (container_bytes crc []) epoch claim r n tr) =
    Inr st \<and> file_holds H crc [] st"
proof -
  have "valid_log H []" "log_fits []" "list_all EventEnvelope_wf []"
    by (simp_all add: valid_log.empty log_fits_def fiber_events_def)
  moreover have "engine_stores crc (map envelope_bytes []) (writer_engine ad (container_bytes crc []) epoch claim r n tr)"
    by (simp add: engine_stores_def writer_engine_def)
  moreover have "length (container_bytes crc (map envelope_bytes [])) \<le> USIZE_MAX"
    by (simp add: container_bytes_def frames_bytes_def ContainerHeader_to_bytes_def USIZE_bound)
  ultimately show ?thesis using writer_opens assms by simp
qed

lemma open_write_resumes:
  assumes "files = \<lparr>af_meta = Some m, af_pgno = None\<rparr>" and m: "writable_meta H crc m epoch claim"
    and ok: "open_obliges io" and std: "fa_exclusion_policy ad = Standard"
  shows "\<exists>st. open_write H crc io ad files epoch =
      (Inr st, files\<lparr>af_pgno := Some (container_bytes crc [])\<rparr>) \<and> file_holds H crc [] st"
proof -
  from m obtain r where r: "read_meta_records crc (meta_read m) = Inr r" "admit_write H r epoch = Inr claim"
    by (auto simp: writable_meta_def)
  from ok obtain st where st: "open_writer H crc (recover_frames crc (co_recover (oi_complete io)))
      (writer_engine ad (container_bytes crc []) (claim_epoch claim) claim r 0 None) = Inr st" "file_holds H crc [] st"
    using empty_log_opens by (metis open_obliges_def)
  have "require_descriptor H r = Inr ()" "mr_outbound_pointer r = None" "mr_latest_claim r = Some claim" "claim_epoch claim = epoch"
    using r(2) by (auto simp: admit_write_eq_Inr require_descriptor_eq_Inr)
  then have "complete_creation H crc (oi_complete io) ad files claim = (Inr st, files\<lparr>af_pgno := Some (container_bytes crc [])\<rparr>)"
      "check_open_write_presence H crc io ad files epoch = (case complete_creation H crc (oi_complete io) ad files claim of
         (Inl f, files') \<Rightarrow> (Inl f, files') | (Inr session, files') \<Rightarrow> (Inr (Some session), files'))"
    using ok std r(1) st(1) assms(1) meta_view_obliges [of _ files m]
      create_event_data_obliges [of "co_data (oi_complete io)" map_completion_create_error crc]
    by (simp_all add: complete_creation_def check_open_write_presence_def open_obliges_def try_presence_obliges)
  then show ?thesis using st(2) by (simp add: open_write_def)
qed

section \<open>What a creation leaves behind\<close>

definition claim_bytes :: "OwnershipClaimRecord \<Rightarrow> bytes" where
  "claim_bytes claim = the (OwnershipRecord_encode (OwnershipClaim claim))"

definition created_meta :: "crc32c \<Rightarrow> OwnershipClaimRecord \<Rightarrow> AdmittedDescriptor \<Rightarrow> bytes" where
  "created_meta crc claim a = container_bytes crc [claim_bytes claim, ad_encoded_record a]"

abbreviation empty_container :: bytes where
  "empty_container \<equiv> ContainerHeader_to_bytes ContainerHeader_new"

lemma length_empty_container: "length empty_container = 12"
  by (simp add: ContainerHeader_to_bytes_def)

lemma container_bytes_Nil: "container_bytes crc [] = empty_container"
  by (simp add: container_bytes_def frames_bytes_def)

lemma created_meta_parts:
  "created_meta crc claim a = empty_container @ frame_bytes crc (claim_bytes claim) @ frame_bytes crc (ad_encoded_record a)"
  by (simp add: created_meta_def container_bytes_def frames_bytes_def)

lemma write_all_prefix:
  assumes "write_all w content bs = (ok, content')"
  obtains k where "content' = content @ take k bs" and "ok \<Longrightarrow> k = length bs"
  using assms that [of "length bs"] that by (cases w) (auto simp: write_all_def)

lemma take_prefix: "k \<le> length ys \<Longrightarrow> xs @ take k ys = take (length xs + k) (xs @ ys @ zs)"
  by simp

lemma write_meta_file_prefix:
  assumes "OwnershipRecord_encode (OwnershipClaim claim) = Some bs"
    and "write_meta_file crc io claim a = (res, content)"
  shows "\<exists>k. content = take k (created_meta crc claim a) \<and> (res = Inr () \<longrightarrow> content = created_meta crc claim a)"
proof -
  have pre: "\<exists>k. xs @ take n ys = take k (xs @ ys @ zs)" for xs ys zs :: bytes and n
    using take_prefix [of "min n (length ys)" ys xs zs] by (metis min.cobounded2 min_def nat_le_linear take_all)
  let ?f = "frame_bytes crc (claim_bytes claim)" and ?g = "frame_bytes crc (ad_encoded_record a)"
  have "(\<exists>n. content = [] @ take n empty_container) \<and> res \<noteq> Inr () \<or>
      (\<exists>n. content = empty_container @ take n ?f) \<and> res \<noteq> Inr () \<or>
      (\<exists>n. content = (empty_container @ ?f) @ take n ?g \<and> (res = Inr () \<longrightarrow> n = length ?g))"
    using assms
    by (auto simp: write_meta_file_def write_all_def claim_bytes_def try_encode_payload_eq_Inr
        split: option.splits sum.splits if_splits intro: exI [of _ 0] exI [of _ "length ?g"])
  then show ?thesis
    using pre [of "[]" _ empty_container "?f @ ?g"] pre [of empty_container _ ?f ?g] pre [of "empty_container @ ?f" _ ?g "[]"]
    by (auto simp: created_meta_parts)
qed

text \<open>How far a creation got: nothing, a part of the ownership file, or all of it and a part of the container
  file's header.\<close>

definition creation_left :: "crc32c \<Rightarrow> OwnershipClaimRecord \<Rightarrow> AdmittedDescriptor \<Rightarrow> ArtefactFiles \<Rightarrow> bool" where
  "creation_left crc claim a files \<longleftrightarrow>
    files = \<lparr>af_meta = None, af_pgno = None\<rparr> \<or>
    (\<exists>k < length (created_meta crc claim a). files = \<lparr>af_meta = Some (take k (created_meta crc claim a)), af_pgno = None\<rparr>) \<or>
    files = \<lparr>af_meta = Some (created_meta crc claim a), af_pgno = None\<rparr> \<or>
    (\<exists>j. files = \<lparr>af_meta = Some (created_meta crc claim a), af_pgno = Some (take j empty_container)\<rparr>)"

lemma create_event_data_left:
  assumes "create_event_data err io policy = (res, pgno)"
  shows "(pgno = None \<and> res \<noteq> Inr content) \<or> (\<exists>j. pgno = Some (take j empty_container))"
    and "res = Inr content \<Longrightarrow> content = empty_container \<and> pgno = Some content \<and> policy = Standard"
proof -
  have full: "\<exists>j. empty_container = take j empty_container" by (rule exI [of _ 12]) (simp add: length_empty_container)
  show "(pgno = None \<and> res \<noteq> Inr content) \<or> (\<exists>j. pgno = Some (take j empty_container))"
    using assms full by (auto simp: create_event_data_def write_all_def split: if_splits option.splits sum.splits)
  show "res = Inr content \<Longrightarrow> content = empty_container \<and> pgno = Some content \<and> policy = Standard"
    using assms by (auto simp: create_event_data_def write_all_def acquire_file_exclusion_eq_Inr split: if_splits option.splits sum.splits)
qed

lemma wire_len_encodes:
  "compute_claim_wire_len_bounded (length (claim_operator_label c)) n = Inr m \<Longrightarrow>
    \<exists>bs. OwnershipRecord_encode (OwnershipClaim c) = Some bs"
  by (auto simp: compute_claim_wire_len_bounded_def OwnershipRecord_encode_def result_simps U32_bound USIZE_bound split: if_splits)

abbreviation created_session :: "blake3 \<Rightarrow> crc32c \<Rightarrow> CreateIo \<Rightarrow> FileStorageAdapter \<Rightarrow> OwnershipClaimRecord \<Rightarrow>
    AdmittedDescriptor \<Rightarrow> FileEngine Store operation" where
  "created_session H crc io ad claim a \<equiv> open_writer H crc (recover_frames crc (cr_recover io))
     (writer_engine ad empty_container (claim_epoch claim) claim
       (MetaRecords_default\<lparr>mr_latest_claim := Some claim, mr_schema_descriptor := Some (ad_descriptor a)\<rparr>) 0 None)"

lemma create_left:
  assumes "create H crc io ad \<lparr>af_meta = None, af_pgno = None\<rparr> claim a = (res, files)"
  shows "creation_left crc claim a files"
    and "res = Inr st \<Longrightarrow> files = \<lparr>af_meta = Some (created_meta crc claim a), af_pgno = Some empty_container\<rparr> \<and>
      fa_exclusion_policy ad = Standard \<and>
      created_session H crc io ad claim a = Inr st"
proof -
  obtain mres m where m: "write_meta_file crc (cr_meta io) claim a = (mres, m)" by fastforce
  obtain dres pgno where d: "create_event_data create_pgno_error (cr_data io) (fa_exclusion_policy ad) = (dres, pgno)" by fastforce
  let ?none = "\<lparr>af_meta = None, af_pgno = None\<rparr>"
  consider (refused) f where "(res, files) = (Inl f, ?none)"
    | (meta) f bs where "OwnershipRecord_encode (OwnershipClaim claim) = Some bs"
        "mres = Inl f" "(res, files) = (Inl f, \<lparr>af_meta = Some m, af_pgno = None\<rparr>)"
    | (data) bs where "OwnershipRecord_encode (OwnershipClaim claim) = Some bs" "mres = Inr ()"
        "files = \<lparr>af_meta = Some m, af_pgno = pgno\<rparr>"
        "res = result_bind dres (\<lambda>content. open_writer H crc (recover_frames crc (cr_recover io))
           (writer_engine ad content (claim_epoch claim) claim
             (MetaRecords_default\<lparr>mr_latest_claim := Some claim, mr_schema_descriptor := Some (ad_descriptor a)\<rparr>) 0 None))"
    using assms m d
    by (auto simp: create_def create_with_limit_def result_bind_eq_Inr dest!: wire_len_encodes split: sum.splits if_splits)
  then have "creation_left crc claim a files \<and> (res = Inr st \<longrightarrow>
    files = \<lparr>af_meta = Some (created_meta crc claim a), af_pgno = Some empty_container\<rparr> \<and>
      fa_exclusion_policy ad = Standard \<and>
      created_session H crc io ad claim a = Inr st)"
  proof cases
    case refused
    then show ?thesis by (simp add: creation_left_def)
  next
    case meta
    from write_meta_file_prefix [OF meta(1) m] obtain k where "m = take k (created_meta crc claim a)" by blast
    then show ?thesis using meta(3) by (cases "k < length (created_meta crc claim a)") (auto simp: creation_left_def)
  next
    case data
    then have "m = created_meta crc claim a" using write_meta_file_prefix [OF data(1) m] by auto
    then show ?thesis using data create_event_data_left [OF d]
      by (cases dres) (auto simp: creation_left_def)
  qed
  then show "creation_left crc claim a files"
    and "res = Inr st \<Longrightarrow> files = \<lparr>af_meta = Some (created_meta crc claim a), af_pgno = Some empty_container\<rparr> \<and>
      fa_exclusion_policy ad = Standard \<and>
      created_session H crc io ad claim a = Inr st"
    by simp_all
qed

lemma short_container:
  "length content < 12 \<Longrightarrow> read_container_frames crc (file_read content) = Inl (PrecursorChainBroken None)"
  by (simp add: read_container_frames_def file_read_def)

lemma read_meta_prefix:
  assumes "list_all (\<lambda>p. length p \<le> U32_MAX) (pl # frames)" and "k < length (frame_bytes crc pl)"
    and "length (container_bytes crc frames) + k \<le> USIZE_MAX"
  shows "read_meta_records crc (meta_read (container_bytes crc frames @ take k (frame_bytes crc pl))) =
    (if k = 0 then read_meta_frames MetaRecords_default frames else Inl OwnershipRecordUnreadable)"
  using read_meta_torn [OF assms(1) _ assms(2,3)] read_meta_whole [of frames crc] assms by simp

text \<open>A claim and an admitted descriptor whose ownership file can be written.\<close>

definition creatable :: "blake3 \<Rightarrow> OwnershipClaimRecord \<Rightarrow> AdmittedDescriptor \<Rightarrow> bool" where
  "creatable H claim a \<longleftrightarrow> OwnershipRecord_wf (OwnershipClaim claim) \<and>
    69 + length (claim_operator_label claim) \<le> U32_MAX \<and>
    try_from_descriptor H (ad_descriptor a) = Inr a \<and> node_wf (sd_root (ad_descriptor a))"

lemma creatable_frames:
  assumes "creatable H claim a"
  shows "read_meta_frames MetaRecords_default [claim_bytes claim] = Inr (MetaRecords_default\<lparr>mr_latest_claim := Some claim\<rparr>)"
    and "read_meta_frames MetaRecords_default [claim_bytes claim, ad_encoded_record a] =
      Inr (MetaRecords_default\<lparr>mr_latest_claim := Some claim, mr_schema_descriptor := Some (ad_descriptor a)\<rparr>)"
    and "length (claim_bytes claim) = 69 + length (claim_operator_label claim)"
    and "length (ad_encoded_record a) \<le> MAX_DESCRIPTOR_RECORD_BYTES"
proof -
  let ?sd = "ad_descriptor a"
  have wf: "OwnershipRecord_wf (OwnershipClaim claim)" using assms by (simp add: creatable_def)
  obtain cb where cb: "OwnershipRecord_encode (OwnershipClaim claim) = Some cb"
    using OwnershipRecord_encode_total [OF wf] by blast
  obtain bs where bs: "DescriptorNode_encode (sd_root ?sd) = Inr bs" "5 + length bs \<le> MAX_DESCRIPTOR_RECORD_BYTES"
    "ad_encoded_record a = 9 # u32_to_le (sd_version ?sd) @ bs"
    using assms by (auto simp: creatable_def try_from_descriptor_eq_Inr) (metis AdmittedDescriptor.select_convs(2))
  have rec: "OwnershipRecord_encode (SchemaDescriptor_record (sd_version ?sd) bs) = Some (ad_encoded_record a)"
    by (simp add: OwnershipRecord_encode_def bs(3))
  have dec: "DescriptorNode_decode bs = Inr (sd_root ?sd, length bs)"
    using SchemaDescriptor_decode_encode [of ?sd bs "[]"] descriptor.dec_enc [of "sd_root ?sd" "[]"] assms bs(1)
    by (simp add: creatable_def descriptor_valid_def descriptor_bytes_def)
  show first: "read_meta_frames MetaRecords_default [claim_bytes claim] = Inr (MetaRecords_default\<lparr>mr_latest_claim := Some claim\<rparr>)"
    using read_meta_frames_record [OF wf cb] by (simp add: claim_bytes_def cb)
  then show "read_meta_frames MetaRecords_default [claim_bytes claim, ad_encoded_record a] =
      Inr (MetaRecords_default\<lparr>mr_latest_claim := Some claim, mr_schema_descriptor := Some ?sd\<rparr>)"
    using read_meta_frames_record [OF _ rec] read_meta_frames_append [of _ "[claim_bytes claim]" "[ad_encoded_record a]"] dec
    by (simp add: MetaRecords_default_def)
  show "length (claim_bytes claim) = 69 + length (claim_operator_label claim)"
    using wf by (simp add: claim_bytes_def OwnershipRecord_encode_def u32_try_from_def)
  show "length (ad_encoded_record a) \<le> MAX_DESCRIPTOR_RECORD_BYTES" using bs by simp
qed

lemma created_meta_small:
  assumes "creatable H claim a"
  shows "list_all (\<lambda>p. length p \<le> U32_MAX) [claim_bytes claim, ad_encoded_record a]"
    and "length (created_meta crc claim a) \<le> USIZE_MAX"
  using creatable_frames(3,4) [OF assms] assms
  by (simp_all add: creatable_def created_meta_parts length_empty_container MAX_DESCRIPTOR_RECORD_BYTES_def U32_bound USIZE_bound)

lemma created_meta_writable:
  assumes "creatable H claim a"
  shows "read_meta_records crc (meta_read (created_meta crc claim a)) =
      Inr (MetaRecords_default\<lparr>mr_latest_claim := Some claim, mr_schema_descriptor := Some (ad_descriptor a)\<rparr>)"
    and "writable_meta H crc (created_meta crc claim a) (claim_epoch claim) claim"
proof -
  show r: "read_meta_records crc (meta_read (created_meta crc claim a)) =
      Inr (MetaRecords_default\<lparr>mr_latest_claim := Some claim, mr_schema_descriptor := Some (ad_descriptor a)\<rparr>)"
    using read_meta_whole [of "[claim_bytes claim, ad_encoded_record a]" crc] created_meta_small [OF assms]
      creatable_frames(2) [OF assms] by (simp only: created_meta_def)
  show "writable_meta H crc (created_meta crc claim a) (claim_epoch claim) claim"
    using assms by (auto simp: writable_meta_def r admit_write_eq_Inr creatable_def MetaRecords_default_def)
qed

lemma created_meta_prefix:
  assumes "creatable H claim a" and "k < length (created_meta crc claim a)"
    and "read_meta_records crc (meta_read (take k (created_meta crc claim a))) = Inr r"
  shows "mr_schema_descriptor r = None"
proof -
  let ?f = "frame_bytes crc (claim_bytes claim)" and ?g = "frame_bytes crc (ad_encoded_record a)"
  note small = created_meta_small [OF assms(1)]
  have len: "length (created_meta crc claim a) = 12 + length ?f + length ?g"
    by (simp add: created_meta_parts length_empty_container)
  consider "k < 12" | j where "k = 12 + j" "j < length ?f" | j where "k = 12 + length ?f + j" "j < length ?g"
  proof -
    assume small_k: "k < 12 \<Longrightarrow> thesis" and fst_frame: "\<And>j. k = 12 + j \<Longrightarrow> j < length ?f \<Longrightarrow> thesis"
      and snd_frame: "\<And>j. k = 12 + length ?f + j \<Longrightarrow> j < length ?g \<Longrightarrow> thesis"
    show thesis
      using small_k fst_frame [of "k - 12"] snd_frame [of "k - (12 + length ?f)"] assms(2) len by linarith
  qed
  then show ?thesis
  proof cases
    case 1
    then have "read_container_frames crc (file_read (take k (created_meta crc claim a))) = Inl (PrecursorChainBroken None)"
      by (intro short_container) simp
    then show ?thesis using assms(3) by (simp add: read_meta_records_def meta_read_def)
  next
    case (2 j)
    then have "take k (created_meta crc claim a) = container_bytes crc [] @ take j ?f"
      by (simp add: created_meta_parts length_empty_container container_bytes_Nil)
    then show ?thesis
      using read_meta_prefix [of "claim_bytes claim" "[]" j crc] 2 assms(3) small(1) small(2) [of crc] len
      by (auto simp: container_bytes_Nil length_empty_container MetaRecords_default_def split: if_splits)
  next
    case (3 j)
    then have "take k (created_meta crc claim a) = container_bytes crc [claim_bytes claim] @ take j ?g"
      by (simp add: created_meta_parts length_empty_container container_bytes_def frames_bytes_def)
    then show ?thesis
      using read_meta_prefix [of "ad_encoded_record a" "[claim_bytes claim]" j crc] 3 assms(3) small(1) small(2) [of crc] len
        creatable_frames(1) [OF assms(1)]
      by (auto simp: container_bytes_def frames_bytes_def length_empty_container MetaRecords_default_def
          simp del: read_meta_frames.simps split: if_splits)
  qed
qed

lemma open_write_refuses:
  assumes "creatable H claim a" and "creation_left crc claim a files" and ok: "open_obliges io"
    and "\<not> (af_meta files = Some (created_meta crc claim a) \<and> af_pgno files \<in> {None, Some empty_container})"
  shows "\<exists>f. open_write H crc io ad files (claim_epoch claim) = (Inl f, files)"
proof -
  consider (nothing) "files = \<lparr>af_meta = None, af_pgno = None\<rparr>"
    | (meta) k where "k < length (created_meta crc claim a)"
        "files = \<lparr>af_meta = Some (take k (created_meta crc claim a)), af_pgno = None\<rparr>"
    | (data) j where "j < 12" "files = \<lparr>af_meta = Some (created_meta crc claim a), af_pgno = Some (take j empty_container)\<rparr>"
    using assms(2,4) length_empty_container by (auto simp: creation_left_def) (metis not_less take_all)
  then show ?thesis
  proof cases
    case nothing
    then show ?thesis using ok
      by (simp add: open_write_def check_open_write_presence_def open_obliges_def try_presence_obliges)
  next
    case meta
    have views: "meta_view (oi_incomplete_meta io) files = meta_read (take k (created_meta crc claim a))"
      "meta_view (co_meta (oi_complete io)) files = meta_read (take k (created_meta crc claim a))"
      using ok meta(2) meta_view_obliges by (simp_all add: open_obliges_def)
    show ?thesis
      using created_meta_prefix [OF assms(1) meta(1)] ok meta(2) views
      by (cases "read_meta_records crc (meta_read (take k (created_meta crc claim a)))")
        (auto simp: open_write_def check_open_write_presence_def open_obliges_def try_presence_obliges
          complete_creation_def require_descriptor_def result_bind_def ok_or_def split: option.splits sum.splits if_splits)
  next
    case data
    have "read_container_frames crc (file_read (take j empty_container)) = Inl (PrecursorChainBroken None)"
      using data(1) by (intro short_container) simp
    moreover have "meta_view (oi_meta io) files = meta_read (created_meta crc claim a)"
      using ok data(2) meta_view_obliges by (simp add: open_obliges_def)
    ultimately have "\<exists>f. open_write_present H crc io ad files (take j empty_container) (claim_epoch claim) = (Inl f, files)"
      using ok created_meta_writable(2) [OF assms(1), of crc]
      by (cases "acquire_file_exclusion (oi_lock io) (fa_exclusion_policy ad)")
        (auto simp: open_write_present_def open_obliges_def engine_read_ok writable_meta_def)
    then show ?thesis using ok data(2)
      by (simp add: open_write_def check_open_write_presence_def open_obliges_def try_presence_obliges)
  qed
qed

section \<open>Restarting\<close>

lemma holds_log: "file_holds H crc log st \<Longrightarrow> valid_log H log \<and> log_fits log \<and> list_all EventEnvelope_wf log \<and>
    list_all (\<lambda>p. length p \<le> U32_MAX) (map envelope_bytes log) \<and>
    fe_file (st_engine st) = Some (container_bytes crc (map envelope_bytes log))"
  using indexes_fits by (auto simp: store_holds_def indexes_def engine_stores_def)

lemma restart_recovers:
  assumes "file_holds H crc log st" and "files = \<lparr>af_meta = Some m, af_pgno = fe_file (st_engine st)\<rparr>"
    and "writable_meta H crc m epoch claim" and "open_obliges io" and "fa_exclusion_policy ad = Standard"
    and "length (container_bytes crc (map envelope_bytes log)) \<le> USIZE_MAX"
  shows "\<exists>st'. open_write H crc io ad files epoch = (Inr st', files) \<and> file_holds H crc log st'"
  using open_write_whole [of H log "[]" 0 crc "container_bytes crc (map envelope_bytes log)" files m epoch claim io ad]
    holds_log [OF assms(1)] assms(2-6) by auto

lemma created_session_holds:
  assumes "create H crc io ad \<lparr>af_meta = None, af_pgno = None\<rparr> claim a = (Inr st, files)"
  shows "file_holds H crc [] st \<and> st_fiber_index st = SessionIndex_new"
proof -
  note c = create_left(2) [OF assms refl]
  obtain n where n: "recover_frames crc (cr_recover io) (writer_engine ad empty_container (claim_epoch claim) claim
        (MetaRecords_default\<lparr>mr_latest_claim := Some claim, mr_schema_descriptor := Some (ad_descriptor a)\<rparr>) 0 None) 64
      (writer_on_frame H crc) (RollingCommitment_new, SessionIndex_new) = (Inr n, (st_rolling_commitment st, st_fiber_index st), st_engine st)"
    and f: "\<not> st_uncertain st" "st_broken_reader_cause st = None"
    using c by (auto simp: open_writer_def split: sum.splits prod.splits)
  have e: "engine_stores crc [] (writer_engine ad empty_container (claim_epoch claim) claim
        (MetaRecords_default\<lparr>mr_latest_claim := Some claim, mr_schema_descriptor := Some (ad_descriptor a)\<rparr>) 0 None)"
    by (simp add: engine_stores_def writer_engine_def container_bytes_Nil)
  from recover_frames_stored(1) [OF e n] have "engine_stores crc [] (st_engine st)" "\<not> file_unsure (st_engine st)"
    "st_rolling_commitment st = RollingCommitment_new" "st_fiber_index st = SessionIndex_new" by simp_all
  then show ?thesis using f session.keeps_start [of H]
    by (simp add: store_holds_def session_unsure_def rolled_Nil engine_stores_def container_bytes_Nil)
qed

section \<open>Properties\<close>

text \<open>C5: a creation may stop at any call and any byte. Event data exists only where the ownership file is
  complete, and a creation that succeeds leaves both files complete. Opening for writing with the claim's epoch
  finishes the creation and holds the empty log exactly when the ownership file is complete and the container
  file is absent or has its whole header; in every other case it is refused and changes nothing.\<close>

theorem creation_resumable:
  assumes "create H crc io ad \<lparr>af_meta = None, af_pgno = None\<rparr> claim a = (res, files)" and "creatable H claim a"
    and "open_obliges io2" and "fa_exclusion_policy ad2 = Standard"
  shows "(af_pgno files \<noteq> None \<longrightarrow> af_meta files = Some (created_meta crc claim a)) \<and>
    (is_ok res \<longrightarrow> files = \<lparr>af_meta = Some (created_meta crc claim a), af_pgno = Some empty_container\<rparr>) \<and>
    (if af_meta files = Some (created_meta crc claim a) \<and> af_pgno files \<in> {None, Some empty_container}
     then \<exists>st. open_write H crc io2 ad2 files (claim_epoch claim) =
       (Inr st, files\<lparr>af_pgno := Some empty_container\<rparr>) \<and> file_holds H crc [] st
     else \<exists>f. open_write H crc io2 ad2 files (claim_epoch claim) = (Inl f, files))"
proof -
  let ?m = "created_meta crc claim a"
  note left = create_left(1) [OF assms(1)]
  have "\<exists>st. open_write H crc io2 ad2 files (claim_epoch claim) =
       (Inr st, files\<lparr>af_pgno := Some empty_container\<rparr>) \<and> file_holds H crc [] st"
    if "af_meta files = Some ?m" and "af_pgno files \<in> {None, Some empty_container}"
  proof (cases "af_pgno files")
    case None
    then have "files = \<lparr>af_meta = Some ?m, af_pgno = None\<rparr>" using that by simp
    from open_write_resumes [OF this created_meta_writable(2) [OF assms(2)] assms(3,4)] show ?thesis
      by (simp add: container_bytes_Nil)
  next
    case (Some content)
    then show ?thesis
      using that open_write_whole [of H "[]" "[]" 0 crc empty_container files ?m "claim_epoch claim" claim io2 ad2]
        created_meta_writable(2) [OF assms(2)] assms(3,4)
      by (simp add: valid_log.empty log_fits_def fiber_events_def container_bytes_Nil length_empty_container USIZE_bound)
  qed
  moreover have "af_pgno files \<noteq> None \<longrightarrow> af_meta files = Some ?m" using left by (auto simp: creation_left_def)
  moreover have "is_ok res \<longrightarrow> files = \<lparr>af_meta = Some ?m, af_pgno = Some empty_container\<rparr>"
    using create_left(2) [OF assms(1)] by (auto simp: is_ok_iff)
  ultimately show ?thesis using open_write_refuses [OF assms(2) left assms(3)] by auto
qed

text \<open>C11: a writer session is opened only on an ownership file that can be read, names no successor, holds an
  admissible descriptor and names the carried epoch as its current claim; the session carries that claim and
  is authorised by that file, the file itself is not changed, and the session's container is the artefact's.\<close>

theorem open_write_authorised:
  assumes "open_write H crc io ad files epoch = (Inr st, files')"
  shows "\<exists>content r claim descr a. af_meta files = Some content \<and> af_meta files' = Some content \<and>
    read_meta_records crc (meta_read content) = Inr r \<and> mr_outbound_pointer r = None \<and>
    mr_schema_descriptor r = Some descr \<and> try_from_descriptor H descr = Inr a \<and>
    mr_latest_claim r = Some claim \<and> claim_epoch claim = epoch \<and> session_claim st = Some claim \<and>
    authorised crc (meta_read content) (st_engine st) \<and> fe_file (st_engine st) = af_pgno files' \<and> af_pgno files' \<noteq> None"
  using open_write_opened [OF assms] by (auto simp: opened_on_def writable_meta_def admit_write_eq_Inr)

text \<open>C2: the life of an artefact: created, written to by any sequence of fiber operations under any answers of
  the operating system, closed while certain and opened again with the same epoch, it holds exactly the
  envelopes that landed, which form a valid log.\<close>

theorem artefact_lifecycle:
  assumes "create H crc io ad \<lparr>af_meta = None, af_pgno = None\<rparr> claim a = (Inr st0, files)" and "creatable H claim a"
    and "session_run H crc file_unsure (check_authority crc) (file_app crc) st0 es st" and "digest H"
    and "\<not> session_unsure file_unsure st" and "files' = files\<lparr>af_pgno := fe_file (st_engine st)\<rparr>"
    and "length (container_bytes crc (map envelope_bytes es)) \<le> USIZE_MAX" and "open_obliges io2"
    and "fa_exclusion_policy ad2 = Standard"
  shows "valid_log H es \<and>
    (\<exists>st'. open_write H crc io2 ad2 files' (claim_epoch claim) = (Inr st', files') \<and> file_holds H crc es st')"
proof -
  have es: "file_holds H crc es st"
    using file_engine.session_run_holds [OF assms(3) _ assms(4)] created_session_holds [OF assms(1)] assms(5)
    by fastforce
  have "files' = \<lparr>af_meta = Some (created_meta crc claim a), af_pgno = fe_file (st_engine st)\<rparr>"
    using create_left(2) [OF assms(1) refl] assms(6) by simp
  from restart_recovers [OF es this created_meta_writable(2) [OF assms(2)] assms(8,9,7)] holds_log [OF es]
  show ?thesis by simp
qed

text \<open>C1: an undetermined write is resolved by restarting: when a fiber operation ends undetermined and the
  artefact, with the container file as the write left it, is opened again for writing with the current epoch,
  the new session holds either the log as it was before the operation or that log extended by exactly the
  envelope the operation minted, and the container file holds exactly its frames.\<close>

theorem undetermined_write_resolved:
  assumes "file_holds H crc log st" and "digest H" and "length f = 16" and "length i = 16"
    and "fiber_operation oper H crc file_unsure chk chk' (file_app crc x) st f i pl = (Inr (Undetermined n), st')"
    and "fe_file (st_engine st') = Some content" and "length content \<le> USIZE_MAX"
    and "af_meta files = Some m" and "af_pgno files = Some content" and "writable_meta H crc m epoch claim"
    and "open_obliges io" and "fa_exclusion_policy ad = Standard"
  shows "\<exists>log' st1. (log' = log \<or> log' = log @ [minted oper (handle_of H f (fiber_events log f)) i pl]) \<and>
    open_write H crc io ad files epoch =
      (Inr st1, files\<lparr>af_pgno := Some (container_bytes crc (map envelope_bytes log'))\<rparr>) \<and> file_holds H crc log' st1"
proof -
  obtain log' p j where l: "log' = log \<or> log' = log @ [minted oper (handle_of H f (fiber_events log f)) i pl]"
      "valid_log H log'" "log_fits log'" "list_all EventEnvelope_wf log'"
      "list_all (\<lambda>p. length p \<le> U32_MAX) (p # map envelope_bytes log')" "j < length (frame_bytes crc p)"
      "content = container_bytes crc (map envelope_bytes log') @ take j (frame_bytes crc p)"
    by (rule undetermined_leaves [OF assms(1-6)])
  from open_write_whole [OF l(2-7) assms(7-12)] l(1) show ?thesis by blast
qed

section \<open>A sample artefact\<close>

definition good_read :: ReadIo where
  "good_read = \<lparr>ri_seek_ok = True, ri_scan_seek_ok = True, ri_len_ok = True, ri_read_ok = True, ri_restore_ok = True\<rparr>"

definition good_create :: CreateIo where
  "good_create = \<lparr>cr_presence = \<lparr>pi_meta_ok = True, pi_pgno_ok = True\<rparr>,
     cr_meta = \<lparr>cm_create = Create_Ok, cm_header_write = None, cm_claim_write = None, cm_descriptor_write = None, cm_sync_ok = True\<rparr>,
     cr_data = \<lparr>cd_create = Create_Ok, cd_header_write = None, cd_sync_ok = True, cd_lock = Lock_Ok\<rparr>,
     cr_recover = good_read\<rparr>"

definition good_open :: OpenIo where
  "good_open = (let p = \<lparr>pi_meta_ok = True, pi_pgno_ok = True\<rparr>;
       mo = \<lparr>mo_stat_ok = True, mo_open_ok = True, mo_scan = good_read\<rparr> in
     \<lparr>oi_presence = p, oi_incomplete_meta = mo,
      oi_complete = \<lparr>co_presence = p, co_meta = mo, co_data = cr_data good_create, co_recover = good_read\<rparr>,
      oi_open_ok = True, oi_lock = Lock_Ok, oi_meta = mo, oi_scan = good_read,
      oi_tail = \<lparr>ti_seek_end_ok = True, ti_set_len_ok = True, ti_sync_ok = True, ti_seek_start_ok = True\<rparr>,
      oi_recover = good_read\<rparr>)"

definition sample_adapter :: FileStorageAdapter where
  "sample_adapter = FileStorageAdapter_new [Normal (ascii ''orders'')]"

definition sample_descriptor :: AdmittedDescriptor where
  "sample_descriptor = \<lparr>ad_descriptor = \<lparr>sd_version = 1, sd_root = D_U64\<rparr>, ad_encoded_record = [9, 1, 0, 0, 0, 4],
     ad_identity = replicate 32 1\<rparr>"

lemma good_open_obliges: "open_obliges good_open"
  by (simp add: open_obliges_def good_open_def Let_def presence_obliges_def meta_obliges_def data_obliges_def
      good_create_def all_ok_def good_read_def)

lemma sample_creatable: "creatable sample_hash sample_claim_record sample_descriptor"
  by (simp add: creatable_def sample_claim_record_def sample_descriptor_def try_from_descriptor_eq_Inr
      DescriptorNode_encode_def at_depth_def MAX_DESCRIPTOR_DEPTH_def MAX_DESCRIPTOR_RECORD_BYTES_def u32_to_le_def
      sample_hash_def U32_bound)

lemma good_read_ok: "all_ok (cr_recover good_create)"
  by (simp add: all_ok_def good_read_def good_create_def)

lemma sample_create:
  assumes "length (ad_encoded_record a) \<le> U32_MAX"
  obtains st files where "create sample_hash sample_crc good_create sample_adapter \<lparr>af_meta = None, af_pgno = None\<rparr>
      sample_claim_record a = (Inr st, files)"
proof -
  obtain bs where bs: "OwnershipRecord_encode (OwnershipClaim sample_claim_record) = Some bs" "length bs = 69"
    by (simp add: sample_claim_record_def OwnershipRecord_encode_def u32_try_from_def U32_bound)
  obtain st where "created_session sample_hash sample_crc good_create sample_adapter sample_claim_record a = Inr st"
    using empty_log_opens [of "cr_recover good_create" sample_hash sample_crc, unfolded container_bytes_Nil]
    using good_read_ok by blast
  then have "\<exists>files. create sample_hash sample_crc good_create sample_adapter \<lparr>af_meta = None, af_pgno = None\<rparr>
      sample_claim_record a = (Inr st, files)"
    using bs assms by (simp add: create_def create_with_limit_def good_create_def try_presence_def compute_claim_wire_len_bounded_def
        write_meta_file_def write_all_def create_event_data_def acquire_file_exclusion_def sample_adapter_def
        try_encode_payload_eq_Inr checked_add_def u32_try_from_def U32_bound USIZE_bound sample_claim_record_def
        try_encode_payload_def)
  then show thesis using that by blast
qed

text \<open>The first event of a created artefact, with any payload, lands.\<close>

lemma sample_first_write:
  assumes "creatable sample_hash sample_claim_record a" and "length pl + 85 \<le> U32_MAX"
  defines "m \<equiv> meta_read (created_meta sample_crc sample_claim_record a)" and "env \<equiv> sample_event\<lparr>env_payload := pl\<rparr>"
  obtains st0 files st where "create sample_hash sample_crc good_create sample_adapter \<lparr>af_meta = None, af_pgno = None\<rparr>
      sample_claim_record a = (Inr st0, files)"
    and "fiber_operation Append sample_hash sample_crc file_unsure (check_authority sample_crc m) (check_authority sample_crc m)
      (file_app sample_crc (m, good_io)) st0 zero_id (replicate 16 1) pl = (Inr (Landed env), st)"
    and "file_holds sample_hash sample_crc [env] st" and "length (envelope_bytes env) = 85 + length pl"
proof -
  have "length (ad_encoded_record a) \<le> U32_MAX"
    using creatable_frames(4) [OF assms(1)] by (simp add: MAX_DESCRIPTOR_RECORD_BYTES_def U32_bound)
  then obtain st0 files where c: "create sample_hash sample_crc good_create sample_adapter \<lparr>af_meta = None, af_pgno = None\<rparr>
      sample_claim_record a = (Inr st0, files)" by (rule sample_create)
  have h: "file_holds sample_hash sample_crc [] st0" using created_session_holds [OF c] by simp
  obtain n where e: "st_engine st0 = writer_engine sample_adapter empty_container 4 sample_claim_record
      (MetaRecords_default\<lparr>mr_latest_claim := Some sample_claim_record,
         mr_schema_descriptor := Some (ad_descriptor a)\<rparr>) 0 None \<lparr>fe_frame_count := n\<rparr>"
    using open_writer_engine [of sample_hash sample_crc "cr_recover good_create"] create_left(2) [OF c refl]
    by (auto simp: sample_claim_record_def)
  have auth: "authorised sample_crc m (st_engine st0)" "unsimulated (st_engine st0)"
    using created_meta_writable(1) [OF assms(1), of sample_crc]
    by (auto simp: m_def e authorised_def exclusion_lost_def writer_engine_def sample_adapter_def unsimulated_def
        MetaRecords_default_def sample_claim_record_def)
  have fiber: "store_fiber sample_hash file_unsure st0 zero_id = Inr (FiberHandle_new zero_id)"
    using created_session_holds [OF c] by (simp add: store_fiber_def store_holds_def index_fiber_def SessionIndex_new_def)
  have "minted Append (FiberHandle_new zero_id) (replicate 16 1) pl = env"
    by (simp add: minted_def FiberHandle_new_def env_def sample_event_def starts_over_def)
  then obtain h' where step: "handle_step sample_hash Append (FiberHandle_new zero_id) (replicate 16 1) pl = Inr (env, h')"
    using assms(2) by (auto simp: handle_step_eq_Inr FiberHandle_new_def apply_action_def MAX_EVENTS_PER_FIBER_def
        simp del: handle_step.simps)
  have "write_obliges good_io" by (simp add: write_obliges_def good_io_def)
  moreover have "log_room [] env" using sample_event_valid(3) by (simp add: log_room_def env_def fiber_events_def)
  moreover have fits: "EventEnvelope_fits env" using assms(2) by (simp add: EventEnvelope_fits_def env_def)
  ultimately obtain st where
    "fiber_operation Append sample_hash sample_crc file_unsure (check_authority sample_crc m) (check_authority sample_crc m)
      (file_app sample_crc (m, good_io)) st0 zero_id (replicate 16 1) pl = (Inr (Landed env), st)"
    "file_holds sample_hash sample_crc [env] st"
    using operation_lands [OF h sample_digest _ _ auth _ fiber step sample_event_new] by auto
  moreover have "length (envelope_bytes env) = 85 + length pl"
    using sample_event_valid(5) by (simp add: envelope_bytes_def EventBytes_encode_def env_def)
  ultimately show thesis using that c by blast
qed

theorem creation_resumable_witness:
  "\<exists>res files. create sample_hash sample_crc (good_create\<lparr>cr_data := (cr_data good_create)\<lparr>cd_create := Create_Error\<rparr>\<rparr>)
      sample_adapter \<lparr>af_meta = None, af_pgno = None\<rparr> sample_claim_record sample_descriptor = (res, files) \<and>
    (af_pgno files \<noteq> None \<longrightarrow> af_meta files = Some (created_meta sample_crc sample_claim_record sample_descriptor)) \<and>
    (if af_meta files = Some (created_meta sample_crc sample_claim_record sample_descriptor) \<and> af_pgno files \<in> {None, Some empty_container}
     then \<exists>st. open_write sample_hash sample_crc good_open sample_adapter files 4 =
       (Inr st, files\<lparr>af_pgno := Some empty_container\<rparr>) \<and> file_holds sample_hash sample_crc [] st
     else \<exists>f. open_write sample_hash sample_crc good_open sample_adapter files 4 = (Inl f, files))"
proof -
  obtain res files where c: "create sample_hash sample_crc (good_create\<lparr>cr_data := (cr_data good_create)\<lparr>cd_create := Create_Error\<rparr>\<rparr>)
      sample_adapter \<lparr>af_meta = None, af_pgno = None\<rparr> sample_claim_record sample_descriptor = (res, files)" by fastforce
  have "claim_epoch sample_claim_record = 4" "fa_exclusion_policy sample_adapter = Standard"
    by (simp_all add: sample_claim_record_def sample_adapter_def)
  with creation_resumable [OF c sample_creatable good_open_obliges, of sample_adapter] c show ?thesis by metis
qed

theorem artefact_lifecycle_witness:
  "\<exists>st0 files st. create sample_hash sample_crc good_create sample_adapter \<lparr>af_meta = None, af_pgno = None\<rparr>
      sample_claim_record sample_descriptor = (Inr st0, files) \<and>
    session_run sample_hash sample_crc file_unsure (check_authority sample_crc) (file_app sample_crc) st0 [sample_event] st \<and>
    valid_log sample_hash [sample_event] \<and>
    (\<exists>st' files'. open_write sample_hash sample_crc good_open sample_adapter files' 4 = (Inr st', files') \<and>
       file_holds sample_hash sample_crc [sample_event] st')"
proof -
  let ?m = "meta_read (created_meta sample_crc sample_claim_record sample_descriptor)"
  have env: "sample_event\<lparr>env_payload := []\<rparr> = sample_event" and small: "length ([] :: bytes) + 85 \<le> U32_MAX"
    by (simp_all add: sample_event_def U32_bound)
  obtain st0 files st where c: "create sample_hash sample_crc good_create sample_adapter \<lparr>af_meta = None, af_pgno = None\<rparr>
      sample_claim_record sample_descriptor = (Inr st0, files)" and op:
      "fiber_operation Append sample_hash sample_crc file_unsure (check_authority sample_crc ?m) (check_authority sample_crc ?m)
      (file_app sample_crc (?m, good_io)) st0 zero_id (replicate 16 1) [] = (Inr (Landed sample_event), st)"
    and h: "file_holds sample_hash sample_crc [sample_event] st"
    by (rule sample_first_write [OF sample_creatable small, unfolded env])
  from session_run.landed [where check = "check_authority sample_crc" and app = "file_app sample_crc" and
      a = "(?m, good_io)" and ?c1.0 = ?m and ?c2.0 = ?m, OF session_run.finished _ _ op]
  have run: "session_run sample_hash sample_crc file_unsure (check_authority sample_crc) (file_app sample_crc) st0 [sample_event] st"
    by simp
  have "\<not> session_unsure file_unsure st" using h by (simp add: store_holds_def)
  moreover have "length (container_bytes sample_crc (map envelope_bytes [sample_event])) \<le> USIZE_MAX"
    by (simp add: container_bytes_def frames_bytes_def length_empty_container length_sample_event USIZE_bound)
  ultimately show ?thesis
    using artefact_lifecycle [OF c sample_creatable run sample_digest _ refl _ good_open_obliges, of sample_adapter] c run
    by (auto simp: sample_adapter_def sample_claim_record_def)
qed

abbreviation sample_created :: bytes where
  "sample_created \<equiv> created_meta sample_crc sample_claim_record sample_descriptor"

lemma sample_writable: "writable_meta sample_hash sample_crc sample_created 4 sample_claim_record"
  using created_meta_writable(2) [OF sample_creatable, of sample_crc] by (simp add: sample_claim_record_def)

theorem open_write_authorised_witness:
  "\<exists>st files'. open_write sample_hash sample_crc good_open sample_adapter
      \<lparr>af_meta = Some sample_created, af_pgno = None\<rparr> 4 = (Inr st, files') \<and>
    (\<exists>claim. claim_epoch claim = 4 \<and> session_claim st = Some claim) \<and> af_meta files' = Some sample_created \<and>
    authorised sample_crc (meta_read sample_created) (st_engine st)"
proof -
  obtain st files' where o: "open_write sample_hash sample_crc good_open sample_adapter
      \<lparr>af_meta = Some sample_created, af_pgno = None\<rparr> 4 = (Inr st, files')"
    using open_write_resumes [OF refl sample_writable good_open_obliges, of sample_adapter] by (auto simp: sample_adapter_def)
  from open_write_authorised [OF this] o show ?thesis by auto
qed

theorem undetermined_write_resolved_witness:
  "\<exists>log' st1 files'. (log' = [] \<or> log' = [] @ [minted Append (handle_of sample_hash zero_id (fiber_events [] zero_id)) (replicate 16 1) []]) \<and>
    open_write sample_hash sample_crc good_open sample_adapter \<lparr>af_meta = Some sample_created,
        af_pgno = Some (container_bytes sample_crc [] @ take 3 (frame_bytes sample_crc (envelope_bytes sample_event)))\<rparr> 4 =
      (Inr st1, files') \<and> file_holds sample_hash sample_crc log' st1"
proof -
  let ?content = "container_bytes sample_crc [] @ take 3 (frame_bytes sample_crc (envelope_bytes sample_event))"
  obtain st' where op: "fiber_operation Append sample_hash sample_crc file_unsure sample_check sample_check
      (file_app sample_crc (meta_read sample_meta, torn_io)) sample_store zero_id (replicate 16 1) [] =
      (Inr (Undetermined 4), st')" and fl: "fe_file (st_engine st') = Some ?content"
    using sample_operation [OF sample_appends(2)] by simp
  have small: "length ?content \<le> USIZE_MAX"
    by (simp add: container_bytes_Nil length_empty_container USIZE_bound length_sample_event)
  show ?thesis
    using undetermined_write_resolved [OF sample_holds sample_digest _ _ op fl small, of
        "\<lparr>af_meta = Some sample_created, af_pgno = Some ?content\<rparr>" sample_created 4 sample_claim_record good_open sample_adapter]
      sample_writable good_open_obliges by (auto simp: sample_adapter_def)
qed

end
