(* ===== verification/Read_Contract.thy ===== *)
theory Read_Contract
  imports Store_Session
begin

text \<open>
  What a reader session relies on, for any engine: an engine that stores a list of frames and is answered returns
  exactly that list when it reads everything, and delivers exactly its frames when it recovers. Under this contract,
  the locale \<open>readable_engine\<close>, the operations \<open>open_reader\<close>, \<open>read_all_envelopes\<close>, \<open>for_each_envelope\<close> and
  \<open>fold_envelopes\<close> of \<open>store/pipeline.rs\<close> see exactly the log the frames encode.
\<close>

definition reader_keeps :: "(bytes list \<Rightarrow> 'e \<Rightarrow> bool) \<Rightarrow> blake3 \<Rightarrow> crc32c \<Rightarrow> EventEnvelope list \<Rightarrow> 'e Store \<Rightarrow> bool" where
  "reader_keeps stores H crc log st \<longleftrightarrow> stores (map envelope_bytes log) (st_engine st) \<and>
     list_all EventEnvelope_wf log \<and> indexes H log (st_fiber_index st) \<and>
     st_rolling_commitment st = rolled crc (map envelope_bytes log) \<and> st_broken_reader_cause st = None"

lemma store_reader_keeps: "store_holds stores unsure H crc log st \<Longrightarrow> reader_keeps stores H crc log st"
  by (simp add: store_holds_def reader_keeps_def)

lemma indexes_whole: "indexes H log idx \<Longrightarrow> \<not> has_broken_fibers idx"
proof
  assume i: "indexes H log idx" and "has_broken_fibers idx"
  then obtain f slot where "(f, slot) \<in> set (si_fibers idx)" "is_broken slot"
    by (auto simp: has_broken_fibers_def list_ex_iff)
  moreover have "distinct (map fst (si_fibers idx))" using i by (simp add: indexes_def index_inv_def)
  ultimately have "map_of (si_fibers idx) f = Some slot" by simp
  then have "log_slot log f = Some slot" using i by (simp add: indexes_def)
  then show False using \<open>is_broken slot\<close> by (auto simp: log_slot_def Let_def split: if_splits)
qed

section \<open>Frames and events\<close>

lemma deliver_reader:
  assumes "list_all (\<lambda>p. length p \<le> U32_MAX) ps" and "process_frames H idx ps = Inr idx'"
  shows "deliver (reader_on_frame H crc) n ps (r, idx, None) =
    (Inr (), (foldl update_frame r (map (frame_bytes crc) ps), idx', None))"
  using assms
proof (induction ps arbitrary: n r idx)
  case Nil
  then show ?case by simp
next
  case (Cons p ps)
  then obtain idx1 where "process_frame H idx p = (Inr (), idx1)" "process_frames H idx1 ps = Inr idx'"
    by (auto split: prod.splits sum.splits)
  moreover have "try_encode_payload crc p = Inr (frame_bytes crc p)" using Cons.prems(1) by (simp add: try_encode_payload_eq_Inr)
  ultimately show ?case using Cons by (simp add: reader_on_frame_def Let_def)
qed

lemma roll_frames_small:
  "list_all (\<lambda>p. length p \<le> U32_MAX) ps \<Longrightarrow> roll_frames crc r ps = Inr (foldl update_frame r (map (frame_bytes crc) ps))"
  by (induction ps arbitrary: r) (simp_all add: try_encode_payload_def u32_try_from_def frame_bytes_def)

lemma decode_all_log:
  assumes "list_all EventEnvelope_wf log" and "list_all (\<lambda>p. length p \<le> U32_MAX) (map envelope_bytes log)"
  shows "decode_all (map envelope_bytes log) = Inr log \<and> \<not> list_ex (\<lambda>frame. length frame < 85) (map envelope_bytes log)"
  using assms
proof (induction log)
  case Nil
  then show ?case by simp
next
  case (Cons e log)
  then show ?case using decode_encoded_frame [of e "envelope_bytes e"] encoded_small [of e] by simp
qed

text \<open>The reference: run the callback over the events, and stop where it fails.\<close>

fun visit_events :: "(EventEnvelope \<Rightarrow> 'v \<Rightarrow> unit operation \<times> 'v) \<Rightarrow> EventEnvelope list \<Rightarrow> 'v \<Rightarrow> unit operation \<times> 'v" where
  "visit_events f [] w = (Inr (), w)"
| "visit_events f (e # es) w = (case f e w of (Inl err, w') \<Rightarrow> (Inl err, w') | (Inr _, w') \<Rightarrow> visit_events f es w')"

fun fold_events :: "('b \<Rightarrow> EventEnvelope \<Rightarrow> 'b operation) \<Rightarrow> 'b \<Rightarrow> EventEnvelope list \<Rightarrow> 'b operation" where
  "fold_events f acc [] = Inr acc"
| "fold_events f acc (e # es) = result_bind (f acc e) (\<lambda>acc'. fold_events f acc' es)"

lemma fold_visitor_events:
  "visit_events (fold_visitor f) es (Some acc, False) =
    (case fold_events f acc es of Inl e \<Rightarrow> (Inl e, (None, False)) | Inr b \<Rightarrow> (Inr (), (Some b, False)))"
proof (induction es arbitrary: acc)
  case Nil
  then show ?case by simp
next
  case (Cons e es)
  then show ?case by (cases "f acc e") (simp_all add: fold_visitor_def)
qed

lemma visit_on_frame_next:
  assumes "indexes H done (vi_index v)" and "admissible H done e" and "log_room done e"
    and "EventEnvelope_wf e" and "length (envelope_bytes e) \<le> U32_MAX"
  shows "visit_on_frame H crc f n (envelope_bytes e) v =
    (let v2 = v\<lparr>vi_index := commit_envelope_unchecked (vi_index v) e,
         vi_rolling := update_frame (vi_rolling v) (frame_bytes crc (envelope_bytes e))\<rparr> in
     case f e (vi_visitor v) of
       (Inr _, w) \<Rightarrow> (Inr (), v2\<lparr>vi_visitor := w\<rparr>)
     | (Inl cb_err, w) \<Rightarrow> (Inl cb_err, v2\<lparr>vi_visitor := w, vi_callback_error := Some cb_err\<rparr>))"
    and "indexes H (done @ [e]) (commit_envelope_unchecked (vi_index v) e)"
proof -
  have val: "validate_append H (vi_index v) e = Inr ()" using validate_append_iff assms(1-3) by blast
  have "EventEnvelopeRef_decode (envelope_bytes e) = Inr (e, length (envelope_bytes e))"
    using envelope.dec_enc_exact [OF assms(4)] by (auto simp: EventEnvelope_decode_def result_simps)
  moreover have "85 \<le> length (envelope_bytes e)"
    using assms(4) by (simp add: EventEnvelope_wf_def envelope_bytes_def EventBytes_encode_def)
  moreover have "try_encode_payload crc (envelope_bytes e) = Inr (frame_bytes crc (envelope_bytes e))"
    using assms(5) by (simp add: try_encode_payload_eq_Inr)
  ultimately show "visit_on_frame H crc f n (envelope_bytes e) v =
    (let v2 = v\<lparr>vi_index := commit_envelope_unchecked (vi_index v) e,
         vi_rolling := update_frame (vi_rolling v) (frame_bytes crc (envelope_bytes e))\<rparr> in
     case f e (vi_visitor v) of
       (Inr _, w) \<Rightarrow> (Inr (), v2\<lparr>vi_visitor := w\<rparr>)
     | (Inl cb_err, w) \<Rightarrow> (Inl cb_err, v2\<lparr>vi_visitor := w, vi_callback_error := Some cb_err\<rparr>))"
    using val by (auto simp: visit_on_frame_def Let_def split: sum.splits prod.splits)
  show "indexes H (done @ [e]) (commit_envelope_unchecked (vi_index v) e)" using commit_unchecked_indexes assms(1) val by blast
qed

definition visited :: "blake3 \<Rightarrow> EventEnvelope list \<Rightarrow> RollingCommitment \<Rightarrow> unit operation \<times> 'v \<Rightarrow> 'v Visit \<Rightarrow> bool" where
  "visited H log rolling out v \<longleftrightarrow> vi_visitor v = snd out \<and> vi_broken_error v = None \<and>
    (case fst out of
       Inl e \<Rightarrow> vi_callback_error v = Some e
     | Inr _ \<Rightarrow> vi_callback_error v = None \<and> indexes H log (vi_index v) \<and> vi_rolling v = rolling)"

lemma deliver_visit:
  assumes "indexes H done (vi_index v)" and "valid_from H done es" and "session.room_for done es"
    and "list_all EventEnvelope_wf es" and "list_all (\<lambda>p. length p \<le> U32_MAX) (map envelope_bytes es)"
    and "vi_broken_error v = None" and "vi_callback_error v = None"
  shows "\<exists>v'. deliver (visit_on_frame H crc f) n (map envelope_bytes es) v = (fst (visit_events f es (vi_visitor v)), v') \<and>
    visited H (done @ es) (foldl update_frame (vi_rolling v) (map (frame_bytes crc) (map envelope_bytes es)))
      (visit_events f es (vi_visitor v)) v'"
  using assms
proof (induction es arbitrary: n v "done")
  case Nil
  then show ?case by (simp add: visited_def)
next
  case (Cons e es)
  have now: "admissible H done e" "log_room done e" "EventEnvelope_wf e" "length (envelope_bytes e) \<le> U32_MAX"
    and rest: "valid_from H (done @ [e]) es" "session.room_for (done @ [e]) es" "list_all EventEnvelope_wf es"
      "list_all (\<lambda>p. length p \<le> U32_MAX) (map envelope_bytes es)"
    using Cons.prems by simp_all
  note step = visit_on_frame_next [OF Cons.prems(1) now]
  define v2 where "v2 = v\<lparr>vi_index := commit_envelope_unchecked (vi_index v) e,
         vi_rolling := update_frame (vi_rolling v) (frame_bytes crc (envelope_bytes e))\<rparr>"
  obtain r w where w: "f e (vi_visitor v) = (r, w)" by fastforce
  show ?case
  proof (cases r)
    case (Inl err)
    then show ?thesis using w Cons.prems(6) by (simp add: step(1) Let_def visited_def)
  next
    case (Inr u)
    have "indexes H (done @ [e]) (vi_index (v2\<lparr>vi_visitor := w\<rparr>))" using step(2) by (simp add: v2_def)
    moreover have "vi_broken_error (v2\<lparr>vi_visitor := w\<rparr>) = None" "vi_callback_error (v2\<lparr>vi_visitor := w\<rparr>) = None"
      using Cons.prems(6,7) by (simp_all add: v2_def)
    moreover have "visit_on_frame H crc f (of_nat n) (envelope_bytes e) v = (Inr (), v2\<lparr>vi_visitor := w\<rparr>)"
      using w Inr by (simp add: step(1) v2_def Let_def)
    ultimately show ?thesis
      using Cons.IH [of "done @ [e]" "v2\<lparr>vi_visitor := w\<rparr>" "n + 1"] rest w Inr by (simp add: v2_def)
  qed
qed

section \<open>The contract\<close>

text \<open>The outcome of delivering the frames of an engine to a callback. The two instances of the recovery method differ
  only in the state of their callbacks: that of opening a reader and that of visiting events.\<close>

definition recovered :: "bytes list \<Rightarrow> unit operation \<times> 's \<Rightarrow> 'e \<Rightarrow> u64 operation \<times> 's \<times> 'e" where
  "recovered ps out e = (map_sum id (\<lambda>_. of_nat (length ps)) (fst out), snd out, e)"

locale readable_engine =
  fixes crc :: crc32c
    and stores :: "bytes list \<Rightarrow> 'e \<Rightarrow> bool"
    and answers :: "'io \<Rightarrow> bytes list \<Rightarrow> bool"
    and reads_all :: "'io \<Rightarrow> 'e \<Rightarrow> bytes list operation \<times> 'e"
    and open_recover :: "'io \<Rightarrow> ('e, RollingCommitment \<times> SessionIndex \<times> failure_condition option) recover_method"
    and visit_recover :: "'io \<Rightarrow> ('e, 'v Visit) recover_method"
  assumes stored_small: "stores ps e \<Longrightarrow> list_all (\<lambda>p. length p \<le> U32_MAX) ps"
    and reads_all_stored: "stores ps e \<Longrightarrow> answers io ps \<Longrightarrow> \<exists>e'. reads_all io e = (Inr ps, e') \<and> stores ps e'"
    and open_recover_stored: "stores ps e \<Longrightarrow> answers io ps \<Longrightarrow>
      \<exists>e'. open_recover io e 64 cb s = recovered ps (deliver cb 0 ps s) e' \<and> stores ps e'"
    and visit_recover_stored: "stores ps e \<Longrightarrow> answers io ps \<Longrightarrow>
      \<exists>e'. visit_recover io e 64 cb' s' = recovered ps (deliver cb' 0 ps s') e' \<and> stores ps e'"
begin

abbreviation reads :: "blake3 \<Rightarrow> EventEnvelope list \<Rightarrow> 'e Store \<Rightarrow> bool" where
  "reads H log st \<equiv> reader_keeps stores H crc log st"

lemma reader_opens:
  assumes "valid_log H log" and "log_fits log" and "list_all EventEnvelope_wf log"
    and "stores (map envelope_bytes log) e" and "answers io (map envelope_bytes log)"
  shows "reads H log (open_reader H crc (open_recover io) e)"
proof -
  note small = stored_small [OF assms(4)]
  obtain idx where idx: "process_frames H SessionIndex_new (map envelope_bytes log) = Inr idx" "indexes H log idx"
    using log_processed [OF assms(1-3) small] .
  obtain e' where "open_recover io e 64 (reader_on_frame H crc) (RollingCommitment_new, SessionIndex_new, None) =
      recovered (map envelope_bytes log) (Inr (), (rolled crc (map envelope_bytes log), idx, None)) e'"
      "stores (map envelope_bytes log) e'"
    using open_recover_stored [OF assms(4,5)] deliver_reader [OF small idx(1)] by (metis rolled_def)
  then show ?thesis
    using idx(2) assms(3) indexes_whole [OF idx(2)] by (simp add: open_reader_def reader_keeps_def recovered_def Let_def)
qed

lemma read_all_reads:
  assumes "reads H log st" and "answers io (map envelope_bytes log)"
  shows "\<exists>st'. read_all_envelopes_inner H crc (reads_all io) st b = (Inr log, st') \<and> reads H log st'"
proof -
  note h = assms(1) [unfolded reader_keeps_def]
  note small = stored_small [OF conjunct1 [OF h]]
  have log: "valid_log H log" "log_fits log" using h indexes_fits by (auto simp: indexes_def)
  obtain idx where idx: "process_frames H SessionIndex_new (map envelope_bytes log) = Inr idx" "indexes H log idx"
    using log_processed [OF log _ small] h by blast
  obtain e' where "reads_all io (st_engine st) = (Inr (map envelope_bytes log), e')" "stores (map envelope_bytes log) e'"
    using reads_all_stored h assms(2) by blast
  then show ?thesis
    using h idx small roll_frames_small decode_all_log [of log] indexes_whole [OF idx(2)]
    by (simp add: read_all_envelopes_inner_def read_all_frames_def rolled_def envelopes_of_store_def build_from_frames_def
        reader_keeps_def)
qed

lemma for_each_reads:
  assumes "reads H log st" and "answers io (map envelope_bytes log)"
  shows "\<exists>st'. for_each_envelope H crc (visit_recover io) st f w =
      (fst (visit_events f log w), snd (visit_events f log w), st') \<and> reads H log st'"
proof -
  note h = assms(1) [unfolded reader_keeps_def]
  let ?ps = "map envelope_bytes log"
  let ?v = "\<lparr>vi_index = SessionIndex_new, vi_rolling = RollingCommitment_new, vi_broken_error = None,
         vi_callback_error = None, vi_visitor = w\<rparr>"
  have log: "valid_from H [] log" "session.room_for [] log"
    using h indexes_fits valid_from_log [OF valid_log.empty] log_fits_room [of "[]" log] by (auto simp: indexes_def)
  obtain v' where v': "deliver (visit_on_frame H crc f) 0 ?ps ?v = (fst (visit_events f log w), v')"
      "visited H log (rolled crc ?ps) (visit_events f log w) v'"
    using deliver_visit [of H "[]" ?v log crc f 0] log h stored_small session.keeps_start [of H] by (auto simp: rolled_def)
  obtain e' where e': "visit_recover io (st_engine st) 64 (visit_on_frame H crc f) ?v =
      recovered ?ps (fst (visit_events f log w), v') e'" "stores ?ps e'"
    using visit_recover_stored h assms(2) v'(1) by metis
  have "for_each_envelope H crc (visit_recover io) st f w = visit_frames H crc (visit_recover io) st f w"
    using h indexes_whole by (auto simp: for_each_envelope_def)
  then show ?thesis
    using v' h e'
    by (cases "fst (visit_events f log w)") (auto simp: visit_frames_def visited_def Let_def reader_keeps_def recovered_def)
qed

end

lemma fold_envelopes_eq:
  assumes "for_each_envelope H crc recover st (fold_visitor f) (Some init, False) =
      (fst (visit_events (fold_visitor f) log (Some init, False)), snd (visit_events (fold_visitor f) log (Some init, False)), st')"
  shows "fold_envelopes H crc recover st init f = (Some (fold_events f init log), st')"
  using assms by (cases "fold_events f init log") (simp_all add: fold_envelopes_def fold_visitor_events)

end
