(* ===== verification/Reader_Session.thy ===== *)
theory Reader_Session
  imports File_Adapter Read_Contract
begin

text \<open>
  What sessions on files read back: the file engine keeps the contract of \<open>Read_Contract\<close>, so a reader opened on the
  files of an artefact holds the log stored there, \<open>read_all_envelopes\<close> returns exactly that log, and the streaming
  operations compute exactly the fold over it, stopping where the callback fails.
\<close>

abbreviation reader_holds :: "blake3 \<Rightarrow> crc32c \<Rightarrow> EventEnvelope list \<Rightarrow> FileEngine Store \<Rightarrow> bool" where
  "reader_holds H crc \<equiv> reader_keeps (engine_stores crc) H crc"

lemma read_all_answered:
  assumes "engine_stores crc ps e" and "all_ok io" and "length (container_bytes crc ps) \<le> USIZE_MAX"
  shows "read_all crc io e = (Inr ps, e\<lparr>fe_read_all_count := fe_read_all_count e + 1\<rparr>)"
  using scan_container_stored(1) [OF _ assms(2,3)] assms(1) by (simp add: read_all_def engine_stores_def Let_def)

lemma recover_frames_answered:
  assumes "engine_stores crc ps e" and "all_ok io" and "length (container_bytes crc ps) \<le> USIZE_MAX"
  shows "\<exists>e'. recover_frames crc io e n cb s = recovered ps (deliver cb 0 ps s) e' \<and> engine_stores crc ps e'"
proof -
  obtain r s' where d: "deliver cb 0 ps s = (r, s')" by fastforce
  have "recover_frames crc io e n cb s = recovered ps (r, s') (e\<lparr>fe_frame_count := of_nat (length ps)\<rparr>)"
    using d scan_container_stored(1) [OF _ assms(2,3)] assms(1)
    by (cases r) (simp_all add: recover_frames_def engine_stores_def recovered_def Let_def)
  then show ?thesis using assms(1) d by (auto simp: engine_stores_def)
qed

interpretation file_reader: readable_engine crc "engine_stores crc"
  "\<lambda>io ps. all_ok io \<and> length (container_bytes crc ps) \<le> USIZE_MAX" "read_all crc" "recover_frames crc" "recover_frames crc" for crc
proof unfold_locales
  fix ps e io assume "engine_stores crc ps e" "all_ok io \<and> length (container_bytes crc ps) \<le> USIZE_MAX"
  then show "\<exists>e'. read_all crc io e = (Inr ps, e') \<and> engine_stores crc ps e'"
    using read_all_answered by (auto simp: engine_stores_def)
qed (simp add: engine_stores_def, (elim conjE, rule recover_frames_answered, assumption+)+)

section \<open>Opening a reader\<close>

lemma recover_frames_locked: "recover_frames crc io e k cb s = (res, s', e') \<Longrightarrow> fe_locked e' = fe_locked e"
  by (auto simp: recover_frames_def Let_def split: option.splits sum.splits prod.splits)

lemma open_reader_unlocked: "fe_locked (st_engine (open_reader H crc (recover_frames crc io) e)) = fe_locked e"
  by (auto simp: open_reader_def Let_def dest: recover_frames_locked split: sum.splits prod.splits option.splits)

definition read_obliges :: "OpenReadIo \<Rightarrow> bool" where
  "read_obliges io \<longleftrightarrow> presence_obliges (or_presence io) \<and> meta_obliges (or_meta io) \<and> or_pgno_stat_ok io \<and> or_open_ok io \<and>
    all_ok (or_scan io) \<and> or_seek_ok io \<and> all_ok (or_recover io)"

lemma open_read_torn:
  assumes "list_all (\<lambda>p. length p \<le> U32_MAX) (pl # ps)" and "k < length (frame_bytes crc pl)"
    and "length (container_bytes crc ps) + k \<le> USIZE_MAX" and "read_obliges io"
    and "af_pgno files = Some (container_bytes crc ps @ take k (frame_bytes crc pl))"
    and "af_meta files = Some m" and "read_meta_records crc (meta_read m) = Inr r"
  shows "open_read H crc io files =
    (if k = 0 then Inr (open_reader H crc (recover_frames crc (or_recover io))
        \<lparr>fe_file = af_pgno files, fe_carried_epoch = (case mr_latest_claim r of None \<Rightarrow> 0 | Some c \<Rightarrow> claim_epoch c),
         fe_claim = mr_latest_claim r, fe_admission = Ready, fe_meta_records = r, fe_exclusion_policy = Standard,
         fe_locked = False, fe_frame_count = of_nat (length ps), fe_read_all_count = 0, fe_uncertain = False,
         fe_uncertain_diagnostic = None, fe_simulate_indeterminate = False, fe_simulate_sync_error = False,
         fe_simulate_write_error = False, fe_fail_after_n_blocks = None, fe_undetermined_after_n_blocks = None,
         fe_recovered_tail_truncation = None\<rparr>)
     else Inl (PrecursorChainBroken None))"
proof -
  have "meta_view (or_meta io) files = meta_read m" using assms(4,6) by (simp add: read_obliges_def meta_view_obliges)
  moreover have "try_presence (or_presence io) files = Inr Both"
    using assms(4-6) by (simp add: read_obliges_def try_presence_obliges)
  ultimately show ?thesis
    using torn_container [OF assms(1-3)] assms(4-7)
    by (simp add: open_read_def read_obliges_def engine_read_ok meta_read_def)
qed

section \<open>Properties\<close>

text \<open>C13: a reader sees the log: opened on an artefact whose container holds the frames of a valid log within the
  limits, it holds that log, and reading all envelopes returns exactly it; where less than a whole frame
  follows the log, opening is refused until a writer has cut it off.\<close>

theorem reader_reads_log:
  assumes "valid_log H log" and "log_fits log" and "list_all EventEnvelope_wf log"
    and "list_all (\<lambda>p. length p \<le> U32_MAX) (pl # map envelope_bytes log)" and "k < length (frame_bytes crc pl)"
    and "length (container_bytes crc (map envelope_bytes log)) + k \<le> USIZE_MAX"
    and "af_pgno files = Some (container_bytes crc (map envelope_bytes log) @ take k (frame_bytes crc pl))"
    and "af_meta files = Some m" and "read_meta_records crc (meta_read m) = Inr r" and "read_obliges io" and "all_ok io2"
  shows "if k = 0
    then \<exists>st st'. open_read H crc io files = Inr st \<and> \<not> fe_locked (st_engine st) \<and>
      read_all_envelopes H crc (read_all crc io2) st = (Inr log, st') \<and> reader_holds H crc log st'
    else open_read H crc io files = Inl (PrecursorChainBroken None)"
proof -
  note o = open_read_torn [OF assms(4-6,10,7-9), of H]
  let ?st = "open_reader H crc (recover_frames crc (or_recover io))"
  have ok: "all_ok (or_recover io)" using assms(10) by (simp add: read_obliges_def)
  have "reader_holds H crc log (?st e)" if "fe_file e = Some (container_bytes crc (map envelope_bytes log))" for e
    using file_reader.reader_opens [OF assms(1-3), of crc e "or_recover io"] ok that assms(4,6) by (simp add: engine_stores_def)
  then show ?thesis
    using o file_reader.read_all_reads [of crc H log _ io2 False] assms(6,7,11) open_reader_unlocked
    by (auto simp: read_all_envelopes_def split: if_splits)
qed

text \<open>C32: streaming agrees with reading everything: on a session that holds a log, folding a fallible function over
  the stream gives exactly the fold over the log, ends with the failure of the function where it fails, never
  panics, and leaves the session holding the log.\<close>

theorem fold_streams_log:
  assumes "reader_holds H crc log st" and "all_ok io"
    and "length (container_bytes crc (map envelope_bytes log)) \<le> USIZE_MAX"
  shows "\<exists>st'. fold_envelopes H crc (recover_frames crc io) st init f = (Some (fold_events f init log), st') \<and>
    reader_holds H crc log st'"
  using file_reader.for_each_reads [of crc H log st io "fold_visitor f" "(Some init, False)"] assms fold_envelopes_eq by metis

section \<open>A sample log\<close>

definition good_open_read :: OpenReadIo where
  "good_open_read = \<lparr>or_presence = \<lparr>pi_meta_ok = True, pi_pgno_ok = True\<rparr>,
     or_meta = \<lparr>mo_stat_ok = True, mo_open_ok = True, mo_scan = good_read\<rparr>, or_pgno_stat_ok = True,
     or_open_ok = True, or_scan = good_read, or_seek_ok = True, or_recover = good_read\<rparr>"

lemma sample_log: "list_all EventEnvelope_wf [sample_event]"
  "list_all (\<lambda>p. length p \<le> U32_MAX) (map envelope_bytes [sample_event])"
  "length (container_bytes sample_crc (map envelope_bytes [sample_event])) + 3 \<le> USIZE_MAX"
  using sample_event_valid(5)
  by (simp_all add: EventEnvelope_wf_def sample_event_def [THEN arg_cong [of _ _ env_payload]] length_sample_event U32_bound
      USIZE_bound container_bytes_def frames_bytes_def length_empty_container)

lemma good_read_all_ok: "all_ok good_read" "read_obliges good_open_read"
  by (simp_all add: read_obliges_def good_open_read_def presence_obliges_def meta_obliges_def all_ok_def good_read_def)

theorem reader_reads_log_witness:
  "\<exists>st st'. open_read sample_hash sample_crc good_open_read \<lparr>af_meta = Some sample_created,
      af_pgno = Some (container_bytes sample_crc (map envelope_bytes [sample_event]))\<rparr> = Inr st \<and>
    read_all_envelopes sample_hash sample_crc (read_all sample_crc good_read) st = (Inr [sample_event], st')"
proof -
  let ?files = "\<lparr>af_meta = Some sample_created, af_pgno = Some (container_bytes sample_crc (map envelope_bytes [sample_event]))\<rparr>"
  note r = created_meta_writable(1) [OF sample_creatable, of sample_crc]
  have "if (0::nat) = 0
    then \<exists>st st'. open_read sample_hash sample_crc good_open_read ?files = Inr st \<and> \<not> fe_locked (st_engine st) \<and>
      read_all_envelopes sample_hash sample_crc (read_all sample_crc good_read) st = (Inr [sample_event], st') \<and>
      reader_holds sample_hash sample_crc [sample_event] st'
    else open_read sample_hash sample_crc good_open_read ?files = Inl (PrecursorChainBroken None)"
    using sample_log(2,3)
    by (intro reader_reads_log [OF sample_event_valid(1,2) sample_log(1) _ _ _ _ _ r good_read_all_ok(2,1), where pl = "[]"])
      simp_all
  then show ?thesis by auto
qed

theorem fold_streams_log_witness:
  "\<exists>st st'. fold_envelopes sample_hash sample_crc (recover_frames sample_crc good_read) st (0 :: nat) (\<lambda>n e. Inr (n + 1)) =
    (Some (Inr 1), st')"
proof -
  let ?e = "sample_engine\<lparr>fe_file := Some (container_bytes sample_crc (map envelope_bytes [sample_event]))\<rparr>"
  have "engine_stores sample_crc (map envelope_bytes [sample_event]) ?e" using sample_log(2) by (simp add: engine_stores_def)
  from file_reader.reader_opens [OF sample_event_valid(1,2) sample_log(1) this, of good_read] good_read_all_ok(1) sample_log(3)
  have "reader_holds sample_hash sample_crc [sample_event] (open_reader sample_hash sample_crc (recover_frames sample_crc good_read) ?e)"
    by simp
  from fold_streams_log [OF this good_read_all_ok(1), of "0 :: nat" "\<lambda>n e. Inr (n + 1)"] sample_log(3) show ?thesis
    by auto
qed

end
