(* ===== verification/Migration.thy ===== *)
theory Migration
  imports Reader_Session
begin

text \<open>
  \<open>migration.rs\<close>: the strict adjacency of schema versions, the migration manager with its configuration, and the
  file adapter as migration source and target. In this release live migration is disabled: the manager cannot
  be built through its constructor, and \<open>freeze\<close>, \<open>cutover\<close> and \<open>run_all\<close> refuse. Source, target and transformer
  are type parameters as in the code; the marker types of the compile-time witness carry no data.
\<close>

datatype BrokenChainElection = RefuseOnBreak | PermitBrokenHistory

datatype MigrationPhase = Initial | Chase | Freeze | Completed_phase

record CutoverSummary =
  cut_total_migrated_events :: nat
  cut_surviving_fibers :: nat
  cut_source_locator_id :: bytes
  cut_target_locator_id :: bytes
  cut_prior_generation_epoch :: u64
  cut_cutover_epoch :: u64

text \<open>The compile-time assertion of \<open>MigrationWitness\<close>; the addition is checked by the assertion before it.\<close>

definition adjacency_assertion :: "u32 \<Rightarrow> u32 \<Rightarrow> bool" where
  "adjacency_assertion source_version target_version \<longleftrightarrow>
    source_version < 0xffffffff \<and> target_version = source_version + 1"

text \<open>\<open>AdjacentMigration\<close> wraps a migration between adjacent versions; \<open>None\<close> is the compile error of the assertion. The
  migration is a parameter: \<open>run\<close> is the \<open>transform\<close> of its trait.\<close>

definition AdjacentMigration_new :: "u32 \<Rightarrow> u32 \<Rightarrow> 'm \<Rightarrow> 'm option" where
  "AdjacentMigration_new source_version target_version migration =
    (if adjacency_assertion source_version target_version then Some migration else None)"

definition AdjacentMigration_transform :: "('m \<Rightarrow> 's \<Rightarrow> 'e + 't) \<Rightarrow> 'm \<Rightarrow> 's \<Rightarrow> 'e + 't" where
  "AdjacentMigration_transform run migration event = run migration event"

record ('s, 't, 'f) MigrationManager =
  mm_source :: 's
  mm_target :: 't
  mm_default_fiber_policy :: FiberMigrationPolicy
  mm_fiber_policies :: "bytes \<rightharpoonup> FiberMigrationPolicy"
  mm_rescue_policy :: RescuePolicy
  mm_rescue_policy_parameters :: bytes
  mm_broken_chain_election :: BrokenChainElection
  mm_transformer :: 'f
  mm_source_generation :: u32
  mm_target_generation :: u32
  mm_phase :: MigrationPhase

definition MigrationManager_new :: "'s \<Rightarrow> 't \<Rightarrow> ('s, 't, bytes \<Rightarrow> bytes operation) MigrationManager operation" where
  "MigrationManager_new source target = Inl InvariantBreakingConfiguration"

definition with_transformer :: "('s, 't, 'f) MigrationManager \<Rightarrow> 'g \<Rightarrow> ('s, 't, 'g) MigrationManager" where
  "with_transformer m transformer =
    \<lparr>mm_source = mm_source m, mm_target = mm_target m, mm_default_fiber_policy = mm_default_fiber_policy m,
     mm_fiber_policies = mm_fiber_policies m, mm_rescue_policy = mm_rescue_policy m,
     mm_rescue_policy_parameters = mm_rescue_policy_parameters m,
     mm_broken_chain_election = mm_broken_chain_election m, mm_transformer = transformer,
     mm_source_generation = mm_source_generation m, mm_target_generation = mm_target_generation m,
     mm_phase = mm_phase m\<rparr>"

definition with_default_fiber_policy :: "('s, 't, 'f) MigrationManager \<Rightarrow> FiberMigrationPolicy \<Rightarrow>
    ('s, 't, 'f) MigrationManager" where
  "with_default_fiber_policy m policy = m\<lparr>mm_default_fiber_policy := policy\<rparr>"

definition with_fiber_policy :: "('s, 't, 'f) MigrationManager \<Rightarrow> bytes \<Rightarrow> FiberMigrationPolicy \<Rightarrow>
    ('s, 't, 'f) MigrationManager" where
  "with_fiber_policy m fiber_id policy = m\<lparr>mm_fiber_policies := (mm_fiber_policies m)(fiber_id \<mapsto> policy)\<rparr>"

definition with_rescue_policy :: "('s, 't, 'f) MigrationManager \<Rightarrow> RescuePolicy \<Rightarrow> bytes \<Rightarrow>
    ('s, 't, 'f) MigrationManager" where
  "with_rescue_policy m policy parameters =
    m\<lparr>mm_rescue_policy := policy, mm_rescue_policy_parameters := parameters\<rparr>"

definition with_broken_chain_election :: "('s, 't, 'f) MigrationManager \<Rightarrow> BrokenChainElection \<Rightarrow>
    ('s, 't, 'f) MigrationManager" where
  "with_broken_chain_election m election = m\<lparr>mm_broken_chain_election := election\<rparr>"

definition with_generations :: "('s, 't, 'f) MigrationManager \<Rightarrow> u32 \<Rightarrow> u32 \<Rightarrow> ('s, 't, 'f) MigrationManager" where
  "with_generations m source_generation target_generation =
    m\<lparr>mm_source_generation := source_generation, mm_target_generation := target_generation\<rparr>"

definition freeze :: "('s, 't, 'f) MigrationManager \<Rightarrow> nat operation \<times> ('s, 't, 'f) MigrationManager" where
  "freeze m = (Inl InvariantBreakingConfiguration, m)"

definition cutover :: "('s, 't, 'f) MigrationManager \<Rightarrow> CutoverSummary operation" where
  "cutover m = Inl InvariantBreakingConfiguration"

definition run_all :: "('s, 't, 'f) MigrationManager \<Rightarrow> CutoverSummary operation" where
  "run_all m = Inl InvariantBreakingConfiguration"

text \<open>\<open>MigrationSource::read_envelopes\<close> for the file adapter.\<close>

definition read_envelopes :: "blake3 \<Rightarrow> crc32c \<Rightarrow> OpenReadIo \<Rightarrow> ReadIo \<Rightarrow> ArtefactFiles \<Rightarrow> EventEnvelope list operation" where
  "read_envelopes H crc io io2 files =
    result_bind (open_read H crc io files) (\<lambda>reader.
      fst (read_all_envelopes_for_migration H crc (read_all crc io2) reader))"

section \<open>What migration relies on\<close>

text \<open>A version never skips or wraps: along adjacent steps the version grows by exactly the number of steps.\<close>

fun adjacent_versions :: "u32 list \<Rightarrow> bool" where
  "adjacent_versions (v # w # vs) = (adjacency_assertion v w \<and> adjacent_versions (w # vs))"
| "adjacent_versions _ = True"

lemma adjacent_versions_grow:
  "adjacent_versions (v # vs) \<Longrightarrow> unat (last (v # vs)) = unat v + length vs"
proof (induction vs arbitrary: v)
  case Nil
  then show ?case by simp
next
  case (Cons w vs)
  then have "unat v < 0xffffffff" "w = v + 1" by (auto simp: adjacency_assertion_def word_less_nat_alt)
  then have "unat w = unat v + 1" by (simp add: unat_word_ariths)
  with Cons show ?case by simp
qed

text \<open>A source artefact that holds a valid log is read as exactly that log.\<close>

lemma migration_reads_log:
  assumes "valid_log H log" and "log_fits log" and "list_all EventEnvelope_wf log"
    and "list_all (\<lambda>p. length p \<le> U32_MAX) (map envelope_bytes log)"
    and "length (container_bytes crc (map envelope_bytes log)) \<le> USIZE_MAX"
    and "af_pgno files = Some (container_bytes crc (map envelope_bytes log))"
    and "af_meta files = Some m" and "read_meta_records crc (meta_read m) = Inr r" and "read_obliges io" and "all_ok io2"
  shows "read_envelopes H crc io io2 files = Inr log"
proof -
  note o = open_read_torn [of "[]" "map envelope_bytes log" 0 crc io files m r H]
  have ok: "all_ok (or_recover io)" using assms(9) by (simp add: read_obliges_def)
  have "reader_holds H crc log (open_reader H crc (recover_frames crc (or_recover io)) e)"
    if "fe_file e = Some (container_bytes crc (map envelope_bytes log))" for e
    using file_reader.reader_opens [OF assms(1-3), of crc e "or_recover io"] ok assms(5) that assms(4) by (simp add: engine_stores_def)
  then obtain st where st: "open_read H crc io files = Inr st" "reader_holds H crc log st"
    using o assms by simp
  from file_reader.read_all_reads [OF st(2), of io2 True] assms(5,10) st(1) show ?thesis
    by (auto simp: read_envelopes_def read_all_envelopes_for_migration_def)
qed

end
