(* ===== verification/Nats_Client.thy ===== *)
theory Nats_Client
  imports Meta_File
begin

text \<open>
  What \<open>pardosa-nats/src/adapter.rs\<close> sees of a JetStream server and how it reads streams: the errors of the
  client library as far as the adapter inspects them, their translation to failure conditions, and the readers
  of the ownership stream and of the event stream. The answers of the server are inputs: \<open>StreamReads\<close> holds
  those to the requests of one read, a message being asked for by its sequence number and at most once. Requests
  for messages run sixteen at a time in the code, and their answers are consumed in order.
\<close>

section \<open>Errors of the client\<close>

datatype js_error_code = STREAM_NOT_FOUND | NO_MESSAGE_FOUND | SEQUENCE_NOT_FOUND | STREAM_NAME_EXIST |
  STREAM_WRONG_LAST_SEQUENCE | STREAM_WRONG_LAST_SEQUENCE_CONSTANT | Other_code nat

datatype GetStreamError = GetStream_JetStream js_error_code | GetStream_other

text \<open>A request error carries the error of the server as its source, when there is one.\<close>

datatype RequestError = RequestError "js_error_code option"

datatype RawMessageError = NoMessageFound | RawMessage_JetStream js_error_code | RawMessage_other

datatype CreateStreamError = CreateStream_JetStream js_error_code | CreateStream_other

record PublishError =
  pe_wrong_last_sequence_kind :: bool
  pe_source :: "js_error_code option"

definition is_wrong_last_sequence :: "PublishError \<Rightarrow> bool" where
  "is_wrong_last_sequence err =
    (if pe_wrong_last_sequence_kind err then True
     else (case pe_source err of
             Some code \<Rightarrow> code = STREAM_WRONG_LAST_SEQUENCE \<or> code = STREAM_WRONG_LAST_SEQUENCE_CONSTANT
           | None \<Rightarrow> False))"

fun nats_completion_create_error :: "CreateStreamError \<Rightarrow> failure_condition" where
  "nats_completion_create_error (CreateStream_JetStream code) =
    (if code = STREAM_NAME_EXIST then StoreAlreadyExists else TransportUnavailable)"
| "nats_completion_create_error CreateStream_other = TransportUnavailable"

fun map_nats_stream_open_error :: "GetStreamError \<Rightarrow> failure_condition" where
  "map_nats_stream_open_error (GetStream_JetStream code) =
    (if code = STREAM_NOT_FOUND then NoArtefactExists else TransportUnavailable)"
| "map_nats_stream_open_error GetStream_other = TransportUnavailable"

fun map_nats_stream_delete_error :: "GetStreamError \<Rightarrow> unit operation" where
  "map_nats_stream_delete_error (GetStream_JetStream code) =
    (if code = STREAM_NOT_FOUND then Inr () else Inl TransportUnavailable)"
| "map_nats_stream_delete_error GetStream_other = Inl TransportUnavailable"

fun map_nats_info_error :: "RequestError \<Rightarrow> failure_condition" where
  "map_nats_info_error (RequestError js_err) =
    (if js_err = Some STREAM_NOT_FOUND then NoArtefactExists else TransportUnavailable)"

fun map_nats_raw_message_error :: "RawMessageError \<Rightarrow> failure_condition" where
  "map_nats_raw_message_error NoMessageFound = PrecursorChainBroken None"
| "map_nats_raw_message_error (RawMessage_JetStream code) =
    (if code = NO_MESSAGE_FOUND \<or> code = SEQUENCE_NOT_FOUND then PrecursorChainBroken None else TransportUnavailable)"
| "map_nats_raw_message_error RawMessage_other = TransportUnavailable"

definition map_meta_raw_message_error :: "RawMessageError \<Rightarrow> failure_condition" where
  "map_meta_raw_message_error err =
    (case map_nats_raw_message_error err of
       PrecursorChainBroken _ \<Rightarrow> OwnershipRecordUnreadable
     | failure \<Rightarrow> failure)"

section \<open>Streams as they are read\<close>

record StreamInfo =
  in_messages :: u64
  in_first_sequence :: u64
  in_last_sequence :: u64
  in_subjects :: "bytes list"

record StreamReads =
  sr_get_stream :: "GetStreamError + unit"
  sr_info :: "RequestError + StreamInfo"
  sr_raw :: "u64 \<Rightarrow> RawMessageError + bytes"

definition stream_exists :: "GetStreamError + unit \<Rightarrow> bool operation" where
  "stream_exists answer =
    (case answer of
       Inr _ \<Rightarrow> Inr True
     | Inl err \<Rightarrow>
         let failure = map_nats_stream_open_error err in
         if failure = NoArtefactExists then Inr False else Inl failure)"

text \<open>The sequence numbers of a closed range, in order.\<close>

definition seq_range :: "u64 \<Rightarrow> u64 \<Rightarrow> u64 list" where
  "seq_range a b = map of_nat [unat a ..< unat b + 1]"

subsection \<open>The ownership stream\<close>

definition read_meta_header :: "bytes \<Rightarrow> unit operation" where
  "read_meta_header pl =
    result_bind (map_err (\<lambda>_. OwnershipRecordUnreadable) (ContainerHeader_decode pl)) (\<lambda>(header, consumed).
      if ch_format_version header \<noteq> CONTAINER_FORMAT_VERSION then Inl OwnershipRecordUnreadable
      else if consumed \<noteq> length pl then Inl OwnershipRecordUnreadable
      else Inr ())"

definition read_meta_message :: "crc32c \<Rightarrow> MetaRecords \<Rightarrow> bytes \<Rightarrow> MetaRecords operation" where
  "read_meta_message crc records raw =
    result_bind (map_err (\<lambda>_. OwnershipRecordUnreadable) (ContainerFrame_decode crc raw)) (\<lambda>(pl, consumed_frame).
      if consumed_frame \<noteq> length raw then Inl OwnershipRecordUnreadable
      else result_bind (map_err (\<lambda>_. OwnershipRecordUnreadable) (OwnershipRecord_decode pl)) (\<lambda>(record, consumed_record).
        if consumed_record \<noteq> length pl then Inl OwnershipRecordUnreadable
        else apply_meta_record records record))"

fun read_meta_messages :: "crc32c \<Rightarrow> (u64 \<Rightarrow> RawMessageError + bytes) \<Rightarrow> MetaRecords \<Rightarrow> u64 list \<Rightarrow> MetaRecords operation" where
  "read_meta_messages crc raw records [] = Inr records"
| "read_meta_messages crc raw records (seq # rest) =
    result_bind (map_err map_meta_raw_message_error (raw seq)) (\<lambda>pl.
      result_bind (if seq = 1 then result_bind (read_meta_header pl) (\<lambda>_. Inr records) else read_meta_message crc records pl)
        (\<lambda>records'. read_meta_messages crc raw records' rest))"

definition read_meta_records_async :: "crc32c \<Rightarrow> StreamReads \<Rightarrow> MetaRecords operation" where
  "read_meta_records_async crc reads =
    (case sr_get_stream reads of
       Inl err \<Rightarrow>
         let mapped = map_nats_stream_open_error err in
         if mapped = NoArtefactExists then Inr MetaRecords_default else Inl mapped
     | Inr _ \<Rightarrow>
         result_bind (map_err map_nats_info_error (sr_info reads)) (\<lambda>info.
           if in_messages info = 0 then Inl OwnershipRecordUnreadable
           else if in_first_sequence info > 1 then Inl OwnershipRecordUnreadable
           else read_meta_messages crc (sr_raw reads) MetaRecords_default
                  (seq_range (in_first_sequence info) (in_last_sequence info))))"

subsection \<open>The event stream\<close>

text \<open>The prologue of every read of the event stream: the stream, its extent, the container header in its first
  message. The result is the header with the first and the last sequence number and the number of messages.\<close>

definition open_data_stream :: "StreamReads \<Rightarrow> (ContainerHeader \<times> u64 \<times> u64 \<times> u64) operation" where
  "open_data_stream reads =
    result_bind (map_err map_nats_stream_open_error (sr_get_stream reads)) (\<lambda>_.
    result_bind (map_err map_nats_info_error (sr_info reads)) (\<lambda>info.
      if in_messages info = 0 then Inl (PrecursorChainBroken None)
      else if in_first_sequence info > 1 then Inl OwnershipRecordUnreadable
      else result_bind (map_err map_nats_raw_message_error (sr_raw reads (in_first_sequence info))) (\<lambda>header_raw.
        result_bind (map_err (\<lambda>_. PrecursorChainBroken None) (ContainerHeader_decode header_raw)) (\<lambda>(header, consumed).
          if consumed \<noteq> length header_raw then Inl (PrecursorChainBroken None)
          else Inr (header, in_first_sequence info, in_last_sequence info, in_messages info)))))"

definition read_data_message :: "crc32c \<Rightarrow> RawMessageError + bytes \<Rightarrow> bytes operation" where
  "read_data_message crc answer =
    result_bind (map_err map_nats_raw_message_error answer) (\<lambda>raw.
    result_bind (map_err (\<lambda>_. PrecursorChainBroken None) (ContainerFrame_decode crc raw)) (\<lambda>(pl, consumed).
      if consumed \<noteq> length raw then Inl (PrecursorChainBroken None) else Inr pl))"

fun read_data_messages :: "crc32c \<Rightarrow> (u64 \<Rightarrow> RawMessageError + bytes) \<Rightarrow> u64 list \<Rightarrow> bytes list operation" where
  "read_data_messages crc raw [] = Inr []"
| "read_data_messages crc raw (seq # rest) =
    result_bind (read_data_message crc (raw seq)) (\<lambda>pl.
      result_bind (read_data_messages crc raw rest) (\<lambda>frames. Inr (pl # frames)))"

text \<open>The commitment rolls over the messages as they were received.\<close>

fun roll_messages :: "(u64 \<Rightarrow> RawMessageError + bytes) \<Rightarrow> RollingCommitment \<Rightarrow> u64 list \<Rightarrow> RollingCommitment" where
  "roll_messages raw rolling [] = rolling"
| "roll_messages raw rolling (seq # rest) =
    roll_messages raw (case raw seq of Inr m \<Rightarrow> update_frame rolling m | Inl _ \<Rightarrow> rolling) rest"

definition read_data_frames_async :: "crc32c \<Rightarrow> StreamReads \<Rightarrow>
    (ContainerHeader \<times> bytes list \<times> RollingCommitment \<times> u64) operation" where
  "read_data_frames_async crc reads =
    result_bind (open_data_stream reads) (\<lambda>(header, first_seq, last_seq, _).
      let seqs = (if first_seq < last_seq then seq_range (first_seq + 1) last_seq else []) in
      result_bind (read_data_messages crc (sr_raw reads) seqs) (\<lambda>frames.
        Inr (header, frames, roll_messages (sr_raw reads) RollingCommitment_new seqs, last_seq)))"

definition u64_try_from_or_max :: "nat \<Rightarrow> u64" where
  "u64_try_from_or_max n = (if n \<le> USIZE_MAX then of_nat n else - 1)"

definition saturating_sub_u64 :: "u64 \<Rightarrow> u64 \<Rightarrow> u64" where
  "saturating_sub_u64 a b = of_nat (unat a - unat b)"

definition read_chunk_async :: "crc32c \<Rightarrow> StreamReads \<Rightarrow> u64 \<Rightarrow> nat \<Rightarrow> u64 option \<Rightarrow> bytes list operation" where
  "read_chunk_async crc reads start_index max_items terminal_seq =
    (if max_items = 0 then Inr []
     else result_bind (open_data_stream reads) (\<lambda>(_, first_seq, info_last, _).
       let last_seq = (case terminal_seq of Some t_seq \<Rightarrow> min info_last t_seq | None \<Rightarrow> info_last) in
       (case Option.bind (checked_add_u64 first_seq 1) (\<lambda>s. checked_add_u64 s start_index) of
          None \<Rightarrow> Inr []
        | Some start_seq \<Rightarrow>
            if start_seq > last_seq then Inr []
            else
              let end_seq = (case checked_add_u64 start_seq (saturating_sub_u64 (u64_try_from_or_max max_items) 1) of
                               Some e \<Rightarrow> min e last_seq | None \<Rightarrow> last_seq) in
              if start_seq > end_seq then Inr []
              else read_data_messages crc (sr_raw reads) (seq_range start_seq end_seq))))"

text \<open>A range is read with a stream handle of its own and without the prologue.\<close>

definition read_range_async :: "crc32c \<Rightarrow> GetStreamError + unit \<Rightarrow> (u64 \<Rightarrow> RawMessageError + bytes) \<Rightarrow> u64 \<Rightarrow> u64 \<Rightarrow>
    bytes list operation" where
  "read_range_async crc answer raw from_seq to_seq =
    (if from_seq > to_seq then Inr []
     else result_bind (map_err map_nats_stream_open_error answer) (\<lambda>_.
       read_data_messages crc raw (seq_range from_seq to_seq)))"

section \<open>Streams with known content\<close>

text \<open>What the adapter relies on when it reads: an answer that reports success is true. The stream holds the
  messages \<open>ms\<close>, numbered from one; a reader may see an extent of it that others have since appended to.\<close>

definition truthful :: "bytes list \<Rightarrow> StreamReads \<Rightarrow> bool" where
  "truthful ms reads \<longleftrightarrow>
     (\<forall>info. sr_info reads = Inr info \<longrightarrow> in_messages info = in_last_sequence info \<and>
        unat (in_last_sequence info) \<le> length ms \<and> (in_messages info \<noteq> 0 \<longrightarrow> in_first_sequence info = 1)) \<and>
     (\<forall>seq m. sr_raw reads seq = Inr m \<longrightarrow> 0 < seq \<and> unat seq \<le> length ms \<and> m = ms ! (unat seq - 1))"

text \<open>A server that also answers every request, with the whole extent.\<close>

definition serves :: "bytes list \<Rightarrow> StreamReads \<Rightarrow> bool" where
  "serves ms reads \<longleftrightarrow> truthful ms reads \<and> sr_get_stream reads = Inr () \<and>
     (\<exists>info. sr_info reads = Inr info \<and> unat (in_last_sequence info) = length ms) \<and>
     (\<forall>k < length ms. \<exists>m. sr_raw reads (of_nat (k + 1)) = Inr m)"

lemma seq_range_of_nat: "a < 2 ^ 64 \<Longrightarrow> b < 2 ^ 64 \<Longrightarrow> seq_range (of_nat a) (of_nat b) = map of_nat [a ..< Suc b]"
  by (simp add: seq_range_def unat_of_nat take_bit_nat_eq_self del: upt_Suc)

lemma truthful_raw:
  assumes "truthful ms reads" and "sr_raw reads (of_nat k) = Inr m" and "0 < k" and "k \<le> length ms" and "k < 2 ^ 64"
  shows "m = ms ! (k - 1)"
proof -
  have "unat (of_nat k :: u64) = k" using assms(5) by (simp add: unat_of_nat take_bit_nat_eq_self)
  with assms(1,2) show ?thesis unfolding truthful_def by metis
qed

lemma serves_raw:
  assumes "serves ms reads" and "0 < k" and "k \<le> length ms" and "length ms < 2 ^ 64"
  shows "sr_raw reads (of_nat k) = Inr (ms ! (k - 1))"
proof -
  from assms(1) have "\<forall>j < length ms. \<exists>m. sr_raw reads (of_nat (j + 1)) = Inr m" by (simp add: serves_def)
  moreover have "k - 1 < length ms" "k - 1 + 1 = k" using assms(2,3) by linarith+
  ultimately obtain m where "sr_raw reads (of_nat k) = Inr m" by metis
  with truthful_raw [of ms reads k m] assms show ?thesis by (simp add: serves_def)
qed

lemma read_data_messages_truthful:
  assumes "\<And>k m. k \<in> set ks \<Longrightarrow> raw (of_nat k) = Inr m \<Longrightarrow> m = frame_bytes crc (f k) \<and> length (f k) \<le> U32_MAX"
    and "read_data_messages crc raw (map of_nat ks) = Inr frames"
  shows "frames = map f ks"
  using assms
proof (induction ks arbitrary: frames)
  case Nil
  then show ?case by simp
next
  case (Cons k ks)
  from Cons.prems(2) obtain m pl frames' where m: "raw (of_nat k) = Inr m" "ContainerFrame_decode crc m = Inr (pl, length m)"
    "read_data_messages crc raw (map of_nat ks) = Inr frames'" "frames = pl # frames'"
    by (auto simp: read_data_message_def result_simps split: if_splits)
  have "m = frame_bytes crc (f k)" "length (f k) \<le> U32_MAX" using Cons.prems(1) [of k m] m(1) by simp_all
  then have "pl = f k" using container_frame.dec_enc_exact m(2) by auto
  then show ?case using Cons.IH [of frames'] Cons.prems(1) m(3,4) by simp
qed

lemma read_data_messages_serves:
  assumes "\<And>k. k \<in> set ks \<Longrightarrow> raw (of_nat k) = Inr (frame_bytes crc (f k)) \<and> length (f k) \<le> U32_MAX"
  shows "read_data_messages crc raw (map of_nat ks) = Inr (map f ks)"
  using assms
  by (induction ks) (simp_all add: read_data_message_def result_simps result_bind_def map_err_def container_frame.dec_enc_exact)

text \<open>An event stream that holds the payloads \<open>ps\<close>, and an ownership stream that holds encoded records.\<close>

definition stream_messages :: "crc32c \<Rightarrow> bytes list \<Rightarrow> bytes list" where
  "stream_messages crc ps = ContainerHeader_to_bytes ContainerHeader_new # map (frame_bytes crc) ps"

lemma length_stream_messages [simp]: "length (stream_messages crc ps) = Suc (length ps)"
  by (simp add: stream_messages_def)

lemma stream_messages_nth: "2 \<le> k \<Longrightarrow> k \<le> Suc (length ps) \<Longrightarrow> stream_messages crc ps ! (k - 1) = frame_bytes crc (ps ! (k - 2))"
  by (cases k) (auto simp: stream_messages_def nth_Cons' numeral_2_eq_2)

lemma header_exact: "ContainerHeader_decode (ContainerHeader_to_bytes ContainerHeader_new) =
    Inr (ContainerHeader_new, length (ContainerHeader_to_bytes ContainerHeader_new))"
  by (rule container_header.dec_enc_exact) (simp add: ContainerHeader_valid_def ContainerHeader_new_def)

lemma open_data_stream_truthful:
  assumes "truthful (stream_messages crc ps) reads" and "open_data_stream reads = Inr (header, first_seq, last_seq, messages)"
  shows "header = ContainerHeader_new \<and> first_seq = 1 \<and> messages = last_seq \<and> 1 \<le> unat last_seq \<and> unat last_seq \<le> Suc (length ps)"
proof -
  from assms(2) obtain info m where i: "sr_info reads = Inr info" "in_messages info \<noteq> 0"
    "sr_raw reads (in_first_sequence info) = Inr m" "ContainerHeader_decode m = Inr (header, length m)"
    "first_seq = in_first_sequence info" "last_seq = in_last_sequence info" "messages = in_messages info"
    by (auto simp: open_data_stream_def result_simps split: if_splits)
  with assms(1) have f: "first_seq = 1" "messages = last_seq" "unat last_seq \<le> Suc (length ps)" by (auto simp: truthful_def)
  have "m = stream_messages crc ps ! 0"
    using truthful_raw [OF assms(1), of 1 m] i(3,5) f(1) by simp
  then have "header = ContainerHeader_new" using i(4) header_exact by (simp add: stream_messages_def)
  moreover have "unat last_seq \<noteq> 0" using i(2,7) f(2) by (simp add: unat_eq_0)
  ultimately show ?thesis using f by simp
qed

lemma open_data_stream_serves:
  assumes "serves (stream_messages crc ps) reads" and "Suc (length ps) < 2 ^ 64"
  shows "open_data_stream reads = Inr (ContainerHeader_new, 1, of_nat (Suc (length ps)), of_nat (Suc (length ps)))"
proof -
  from assms(1) obtain info where i: "sr_get_stream reads = Inr ()" "sr_info reads = Inr info"
    "unat (in_last_sequence info) = Suc (length ps)" "in_messages info = in_last_sequence info"
    "in_messages info \<noteq> 0 \<longrightarrow> in_first_sequence info = 1"
    by (auto simp: serves_def truthful_def)
  have "in_last_sequence info \<noteq> 0" using i(3) by auto
  then have f: "in_messages info \<noteq> 0" "in_first_sequence info = 1" using i(4,5) by simp_all
  have l: "in_last_sequence info = of_nat (Suc (length ps))" using i(3) assms(2) by (simp add: word_unat_eq_iff unat_of_nat take_bit_nat_eq_self del: of_nat_Suc)
  have "sr_raw reads 1 = Inr (ContainerHeader_to_bytes ContainerHeader_new)"
    using serves_raw [OF assms(1), of 1] assms(2) by (simp add: stream_messages_def)
  then show ?thesis
    using i(1,2,4) f l header_exact by (simp add: open_data_stream_def result_bind_def map_err_def)
qed

text \<open>The payload behind sequence number \<open>k\<close> of an event stream is the one at index \<open>k - 2\<close>.\<close>

lemma stored_message:
  assumes "truthful (stream_messages crc ps) reads" and "list_all (\<lambda>p. length p \<le> U32_MAX) ps" and "Suc (length ps) < 2 ^ 64"
    and "2 \<le> k" and "k \<le> Suc (length ps)" and "sr_raw reads (of_nat k) = Inr m"
  shows "m = frame_bytes crc (ps ! (k - 2)) \<and> length (ps ! (k - 2)) \<le> U32_MAX"
proof -
  have "m = stream_messages crc ps ! (k - 1)" using truthful_raw [OF assms(1,6)] assms(3-5) by simp
  moreover have "k - 2 < length ps" using assms(4,5) by linarith
  ultimately show ?thesis using stream_messages_nth [OF assms(4,5)] assms(2) by (simp add: list_all_length)
qed

lemma payloads_of_range: "2 \<le> a \<Longrightarrow> b \<le> Suc (length ps) \<Longrightarrow> map (\<lambda>k. ps ! (k - 2)) [a ..< Suc b] = take (Suc b - a) (drop (a - 2) ps)"
  by (rule nth_equalityI) (auto simp del: upt_Suc)

lemma read_range_truthful:
  assumes "truthful (stream_messages crc ps) reads" and "list_all (\<lambda>p. length p \<le> U32_MAX) ps" and "Suc (length ps) < 2 ^ 64"
    and "2 \<le> a" and "b \<le> Suc (length ps)"
    and "read_data_messages crc (sr_raw reads) (seq_range (of_nat a) (of_nat b)) = Inr frames" and "a < 2 ^ 64"
  shows "frames = take (Suc b - a) (drop (a - 2) ps)"
proof -
  have "read_data_messages crc (sr_raw reads) (map of_nat [a ..< Suc b]) = Inr frames"
    using assms(3,5-7) seq_range_of_nat [of a b] by (simp del: upt_Suc)
  then have "frames = map (\<lambda>k. ps ! (k - 2)) [a ..< Suc b]"
    by (rule read_data_messages_truthful [rotated]) (use stored_message [OF assms(1-3)] assms(4,5) in auto)
  then show ?thesis using payloads_of_range assms(4,5) by (simp del: upt_Suc)
qed

lemma read_range_serves:
  assumes "serves (stream_messages crc ps) reads" and "list_all (\<lambda>p. length p \<le> U32_MAX) ps" and "Suc (length ps) < 2 ^ 64"
    and "2 \<le> a" and "b \<le> Suc (length ps)" and "a < 2 ^ 64"
  shows "read_data_messages crc (sr_raw reads) (seq_range (of_nat a) (of_nat b)) = Inr (take (Suc b - a) (drop (a - 2) ps))"
proof -
  have "sr_raw reads (of_nat k) = Inr (frame_bytes crc (ps ! (k - 2))) \<and> length (ps ! (k - 2)) \<le> U32_MAX"
    if "k \<in> set [a ..< Suc b]" for k
  proof -
    have k: "2 \<le> k" "k \<le> Suc (length ps)" using that assms(4,5) by auto
    then have "sr_raw reads (of_nat k) = Inr (stream_messages crc ps ! (k - 1))"
      using serves_raw [OF assms(1), of k] assms(3) by simp
    moreover from this have "stream_messages crc ps ! (k - 1) = frame_bytes crc (ps ! (k - 2)) \<and> length (ps ! (k - 2)) \<le> U32_MAX"
      using stored_message [OF _ assms(2,3) k] assms(1) by (auto simp: serves_def)
    ultimately show ?thesis by simp
  qed
  from read_data_messages_serves [of "[a ..< Suc b]" "sr_raw reads" crc "\<lambda>k. ps ! (k - 2)", OF this] show ?thesis
    using seq_range_of_nat [of a b] payloads_of_range [OF assms(4,5)] assms(3,5,6) by (simp del: upt_Suc)
qed

lemma roll_messages_stored:
  assumes "\<And>k. k \<in> set ks \<Longrightarrow> raw (of_nat k) = Inr (frame_bytes crc (f k))"
  shows "roll_messages raw r (map of_nat ks) = foldl update_frame r (map (\<lambda>k. frame_bytes crc (f k)) ks)"
  using assms by (induction ks arbitrary: r) simp_all

lemma data_frames_serves:
  assumes "serves (stream_messages crc ps) reads" and "list_all (\<lambda>p. length p \<le> U32_MAX) ps" and "Suc (length ps) < 2 ^ 64"
  shows "read_data_frames_async crc reads = Inr (ContainerHeader_new, ps, rolled crc ps, of_nat (Suc (length ps)))"
proof -
  let ?seqs = "map of_nat [2 ..< Suc (Suc (length ps))] :: u64 list"
  have seqs: "(if (1 :: u64) < of_nat (Suc (length ps)) then seq_range (1 + 1) (of_nat (Suc (length ps))) else []) = ?seqs"
    using seq_range_of_nat [of 2 "Suc (length ps)"] assms(3)
    by (auto simp: word_less_nat_alt unat_of_nat take_bit_nat_eq_self simp del: upt_Suc of_nat_Suc)
  have "read_data_messages crc (sr_raw reads) ?seqs = Inr ps"
    using read_range_serves [OF assms, of 2 "Suc (length ps)"] seq_range_of_nat [of 2 "Suc (length ps)"] assms(3)
    by (simp del: upt_Suc of_nat_Suc)
  moreover have "roll_messages (sr_raw reads) RollingCommitment_new ?seqs = rolled crc ps"
  proof -
    have "sr_raw reads (of_nat k) = Inr (frame_bytes crc (ps ! (k - 2)))" if "k \<in> set [2 ..< Suc (Suc (length ps))]" for k
    proof -
      have "2 \<le> k" "k \<le> Suc (length ps)" using that by auto
      then show ?thesis using serves_raw [OF assms(1), of k] stream_messages_nth [of k ps crc] assms(3) by simp
    qed
    from roll_messages_stored [of "[2 ..< Suc (Suc (length ps))]" "sr_raw reads" crc "\<lambda>k. ps ! (k - 2)", OF this]
    have "roll_messages (sr_raw reads) RollingCommitment_new ?seqs =
        foldl update_frame RollingCommitment_new (map (frame_bytes crc) (map (\<lambda>k. ps ! (k - 2)) [2 ..< Suc (Suc (length ps))]))"
      by (simp add: comp_def del: upt_Suc)
    then show ?thesis using payloads_of_range [of 2 "Suc (length ps)" ps] by (simp add: rolled_def del: upt_Suc)
  qed
  ultimately show ?thesis
    using open_data_stream_serves [OF assms(1,3)] seqs by (simp add: read_data_frames_async_def Let_def del: upt_Suc of_nat_Suc)
qed

lemma data_frames_truthful:
  assumes "truthful (stream_messages crc ps) reads" and "list_all (\<lambda>p. length p \<le> U32_MAX) ps" and "Suc (length ps) < 2 ^ 64"
    and "read_data_frames_async crc reads = Inr (header, frames, rolling, last_seq)"
  shows "frames = take (unat last_seq - 1) ps"
proof -
  from assms(4) obtain first_seq n where o: "open_data_stream reads = Inr (header, first_seq, last_seq, n)"
    "read_data_messages crc (sr_raw reads) (if first_seq < last_seq then seq_range (first_seq + 1) last_seq else []) = Inr frames"
    by (auto simp: read_data_frames_async_def result_simps Let_def split: prod.splits)
  from open_data_stream_truthful [OF assms(1) o(1)]
  have f: "first_seq = 1" "1 \<le> unat last_seq" "unat last_seq \<le> Suc (length ps)" by simp_all
  show ?thesis
  proof (cases "first_seq < last_seq")
    case False
    then show ?thesis using o(2) f by (auto simp: word_less_nat_alt)
  next
    case True
    then have "read_data_messages crc (sr_raw reads) (seq_range (of_nat 2) (of_nat (unat last_seq))) = Inr frames"
      using o(2) f(1) by simp
    from read_range_truthful [OF assms(1-3) _ f(3) this] show ?thesis by simp
  qed
qed

lemma unat_of_nat_u64: "n < 2 ^ 64 \<Longrightarrow> unat (of_nat n :: u64) = n"
  by (simp add: unat_of_nat take_bit_nat_eq_self)

lemma checked_add_u64_nat:
  "a < 2 ^ 64 \<Longrightarrow> b < 2 ^ 64 \<Longrightarrow> checked_add_u64 (of_nat a) (of_nat b) = (if a + b < 2 ^ 64 then Some (of_nat (a + b)) else None)"
  by (simp add: checked_add_u64_def unat_of_nat_u64)

lemma min_u64_nat: "a < 2 ^ 64 \<Longrightarrow> b < 2 ^ 64 \<Longrightarrow> min (of_nat a) (of_nat b) = (of_nat (min a b) :: u64)"
  by (simp add: min_def word_le_nat_alt unat_of_nat_u64)

text \<open>The end of a chunk, computed with a check for overflow, is the smaller of the requested and the last one.\<close>

lemma chunk_end_nat:
  assumes "a \<le> b" and "b < 2 ^ 64" and "0 < c" and "c < 2 ^ 64"
  shows "(case checked_add_u64 (of_nat a) (saturating_sub_u64 (of_nat c) 1) of Some e \<Rightarrow> min e (of_nat b) | None \<Rightarrow> of_nat b) =
    (of_nat (min (a + c - 1) b) :: u64)"
proof -
  have "saturating_sub_u64 (of_nat c) 1 = of_nat (c - 1)" using assms(4) by (simp add: saturating_sub_u64_def unat_of_nat_u64)
  then show ?thesis using assms checked_add_u64_nat [of a "c - 1"] min_u64_nat [of "a + (c - 1)" b] by auto
qed

lemma read_chunk_serves:
  assumes "serves (stream_messages crc ps) reads" and "list_all (\<lambda>p. length p \<le> U32_MAX) ps" and "Suc (length ps) < 2 ^ 64"
    and "c \<le> USIZE_MAX"
  shows "read_chunk_async crc reads start_index c None = Inr (take c (drop (unat start_index) ps))"
proof (cases "c = 0")
  case True
  then show ?thesis by (simp add: read_chunk_async_def)
next
  case False
  let ?k = "unat start_index" and ?n = "Suc (length ps)"
  note opened = open_data_stream_serves [OF assms(1,3)]
  have add: "Option.bind (checked_add_u64 1 1) (\<lambda>s. checked_add_u64 s start_index) =
      (if ?k + 2 < 2 ^ 64 then Some (of_nat (?k + 2)) else None)"
    using checked_add_u64_nat [of 2 ?k] by (simp add: checked_add_u64_def add.commute)
  show ?thesis
  proof (cases "?k + 2 \<le> ?n")
    case outside: False
    then have "take c (drop ?k ps) = []" by simp
    moreover have "(of_nat ?n :: u64) < of_nat (?k + 2)" if "?k + 2 < 2 ^ 64"
      using outside assms(3) that by (simp add: word_less_nat_alt unat_of_nat_u64 del: of_nat_Suc of_nat_add)
    ultimately show ?thesis using False opened add
      by (simp add: read_chunk_async_def Let_def del: of_nat_Suc of_nat_add)
  next
    case inside: True
    let ?e = "min (?k + 2 + c - 1) ?n"
    have c: "0 < c" "c < 2 ^ 64" "u64_try_from_or_max c = of_nat c"
      using False assms(4) by (simp_all add: u64_try_from_or_max_def USIZE_bound)
    have le: "\<not> (of_nat ?n :: u64) < of_nat (?k + 2)" "\<not> (of_nat ?e :: u64) < of_nat (?k + 2)" "?k + 2 < 2 ^ 64"
      using inside assms(3) c(1) by (simp_all add: word_less_nat_alt unat_of_nat_u64 del: of_nat_Suc of_nat_add)
    have "Suc ?e - (?k + 2) = min c (length ps - ?k)" using inside c(1) by (auto simp: min_def)
    then have "take (Suc ?e - (?k + 2)) (drop (?k + 2 - 2) ps) = take c (drop ?k ps)" by (simp add: min_def)
    with read_range_serves [OF assms(1-3), of "?k + 2" ?e] le(3)
    have "read_data_messages crc (sr_raw reads) (seq_range (of_nat (?k + 2)) (of_nat ?e)) = Inr (take c (drop ?k ps))"
      by (simp del: of_nat_Suc of_nat_add)
    then show ?thesis
      using False opened add le chunk_end_nat [OF inside assms(3) c(1,2)] c(3)
      by (simp add: read_chunk_async_def Let_def del: of_nat_Suc of_nat_add)
  qed
qed

lemma read_meta_messages_serves:
  assumes "\<And>k. k \<in> set ks \<Longrightarrow> raw (of_nat k) = Inr (frame_bytes crc (f k)) \<and> length (f k) \<le> U32_MAX \<and> 1 < k \<and> k < 2 ^ 64"
  shows "read_meta_messages crc raw r (map of_nat ks) = read_meta_frames r (map f ks)"
  using assms
proof (induction ks arbitrary: r)
  case Nil
  then show ?case by simp
next
  case (Cons k ks)
  have k: "raw (of_nat k) = Inr (frame_bytes crc (f k))" "length (f k) \<le> U32_MAX" "(of_nat k :: u64) \<noteq> 1"
    using Cons.prems [of k] by (auto simp: word_unat_eq_iff unat_of_nat_u64)
  then show ?case
    using Cons.IH Cons.prems
    by (simp add: read_meta_message_def result_bind_def map_err_def container_frame.dec_enc_exact split: sum.splits prod.splits)
qed

text \<open>An ownership stream is read as an ownership file with the same records is.\<close>

lemma meta_records_serves:
  assumes "serves (stream_messages crc rs) reads" and "list_all (\<lambda>p. length p \<le> U32_MAX) rs" and "Suc (length rs) < 2 ^ 64"
  shows "read_meta_records_async crc reads = read_meta_frames MetaRecords_default rs"
proof -
  let ?n = "Suc (length rs)"
  from open_data_stream_serves [OF assms(1,3)] assms(1) obtain info where i: "sr_get_stream reads = Inr ()"
    "sr_info reads = Inr info" "in_messages info \<noteq> 0" "in_first_sequence info = 1" "in_last_sequence info = of_nat ?n"
    by (auto simp: open_data_stream_def serves_def result_simps split: if_splits)
  have raw: "sr_raw reads (of_nat k) = Inr (frame_bytes crc (rs ! (k - 2))) \<and> length (rs ! (k - 2)) \<le> U32_MAX \<and> 1 < k \<and> k < 2 ^ 64"
    if "k \<in> set [2 ..< Suc ?n]" for k
  proof -
    have k: "2 \<le> k" "k \<le> ?n" using that by auto
    then have "k - 2 < length rs" by linarith
    then show ?thesis
      using k serves_raw [OF assms(1), of k] stream_messages_nth [OF k] assms(2,3) by (simp add: list_all_length)
  qed
  have one: "of_nat (Suc 0) = (1 :: u64)" by simp
  have "seq_range 1 (of_nat ?n) = 1 # map of_nat [2 ..< Suc ?n]"
    using seq_range_of_nat [of 1 ?n] assms(3) upt_conv_Cons [of 1 "Suc ?n"] one by (simp add: numeral_2_eq_2 del: upt_Suc of_nat_Suc)
  moreover have "sr_raw reads 1 = Inr (ContainerHeader_to_bytes ContainerHeader_new)"
    using serves_raw [OF assms(1), of 1] assms(3) by (simp add: stream_messages_def)
  moreover have "read_meta_header (ContainerHeader_to_bytes ContainerHeader_new) = Inr ()"
    using header_exact by (simp add: read_meta_header_def result_bind_def map_err_def) (simp add: ContainerHeader_new_def)
  moreover have "read_meta_messages crc (sr_raw reads) r (map of_nat [2 ..< Suc ?n]) = read_meta_frames r rs" for r
    using read_meta_messages_serves [of "[2 ..< Suc ?n]" "sr_raw reads" crc "\<lambda>k. rs ! (k - 2)", OF raw]
      payloads_of_range [of 2 ?n rs] by (simp del: upt_Suc)
  ultimately show ?thesis
    using i by (simp add: read_meta_records_async_def result_bind_def map_err_def del: upt_Suc of_nat_Suc)
qed

section \<open>Damaged streams\<close>

text \<open>What a message is worth: the payload of an intact frame, or the failure that reading it is.\<close>

definition intact :: "crc32c \<Rightarrow> RawMessageError + bytes \<Rightarrow> bytes \<Rightarrow> bool" where
  "intact crc answer p \<longleftrightarrow> answer = Inr (frame_bytes crc p) \<and> length p \<le> U32_MAX"

definition damage :: "crc32c \<Rightarrow> RawMessageError + bytes \<Rightarrow> failure_condition \<Rightarrow> bool" where
  "damage crc answer f \<longleftrightarrow>
     (case answer of
        Inl err \<Rightarrow> f = map_nats_raw_message_error err
      | Inr m \<Rightarrow> f = PrecursorChainBroken None \<and> (\<forall>p. length p \<le> U32_MAX \<longrightarrow> m \<noteq> frame_bytes crc p))"

lemma read_data_message_eq_Inr: "read_data_message crc answer = Inr p \<longleftrightarrow> intact crc answer p"
proof
  assume "read_data_message crc answer = Inr p"
  then obtain m where m: "answer = Inr m" "ContainerFrame_decode crc m = Inr (p, length m)"
    by (auto simp: read_data_message_def result_simps split: if_splits)
  then show "intact crc answer p"
    using container_frame.dec_exact_unique container_frame.dec_valid by (auto simp: intact_def)
qed (simp add: intact_def read_data_message_def result_bind_def map_err_def container_frame.dec_enc_exact)

lemma read_data_message_eq_Inl: "read_data_message crc answer = Inl f \<longleftrightarrow> damage crc answer f"
proof (cases answer)
  case (Inr m)
  have "read_data_message crc answer = Inl f \<longleftrightarrow> f = PrecursorChainBroken None \<and> (\<forall>p. read_data_message crc answer \<noteq> Inr p)"
    unfolding Inr by (cases "ContainerFrame_decode crc m") (auto simp: read_data_message_def map_err_def result_bind_def split: if_splits)
  then show ?thesis unfolding read_data_message_eq_Inr by (auto simp: damage_def intact_def Inr)
qed (auto simp: read_data_message_def damage_def map_err_def result_bind_def)

lemma read_data_messages_exact:
  "(\<exists>frames. list_all2 (\<lambda>seq. intact crc (raw seq)) seqs frames \<and> read_data_messages crc raw seqs = Inr frames \<and>
      roll_messages raw r seqs = foldl update_frame r (map (frame_bytes crc) frames)) \<or>
   (\<exists>before seq rest f. seqs = before @ seq # rest \<and> (\<forall>s \<in> set before. \<exists>p. intact crc (raw s) p) \<and>
      damage crc (raw seq) f \<and> read_data_messages crc raw seqs = Inl f)"
proof (induction seqs arbitrary: r)
  case Nil
  then show ?case by simp
next
  case (Cons seq rest)
  show ?case
  proof (cases "read_data_message crc (raw seq)")
    case (Inl f)
    then have "seq # rest = [] @ seq # rest \<and> damage crc (raw seq) f \<and> read_data_messages crc raw (seq # rest) = Inl f"
      by (simp add: read_data_message_eq_Inl [symmetric])
    then show ?thesis by fastforce
  next
    case (Inr p)
    then have p: "intact crc (raw seq) p" by (simp add: read_data_message_eq_Inr)
    from Cons.IH [of "update_frame r (frame_bytes crc p)"] show ?thesis
    proof (elim disjE exE conjE)
      fix frames
      assume "list_all2 (\<lambda>seq. intact crc (raw seq)) rest frames" "read_data_messages crc raw rest = Inr frames"
        "roll_messages raw (update_frame r (frame_bytes crc p)) rest =
          foldl update_frame (update_frame r (frame_bytes crc p)) (map (frame_bytes crc) frames)"
      with Inr p show ?thesis by (intro disjI1 exI [of _ "p # frames"]) (simp add: p [unfolded intact_def])
    next
      fix before s rest' f
      assume "rest = before @ s # rest'" "\<forall>s \<in> set before. \<exists>p. intact crc (raw s) p" "damage crc (raw s) f"
        "read_data_messages crc raw rest = Inl f"
      with Inr p show ?thesis
        by (intro disjI2 exI [of _ "seq # before"] exI [of _ s] exI [of _ rest'] exI [of _ f]) auto
    qed
  qed
qed

section \<open>Properties\<close>

text \<open>C15: reading an event stream fails exactly when it should, and with the right condition. Once the header has been
  read, either every further message up to the end of the stream is one intact frame, and the reader returns exactly
  their payloads with the commitment over their frames; or it fails with the failure of the first message that is not:
  a broken chain for a missing or corrupt message (wrong checksum, wrong length, trailing bytes) and an unavailable
  transport for any other answer of the server. Damage is never skipped and nothing else is reported.\<close>

theorem stream_damage_exact:
  assumes "open_data_stream reads = Inr (header, first_seq, last_seq, n)"
  defines "seqs \<equiv> if first_seq < last_seq then seq_range (first_seq + 1) last_seq else []"
  shows "(\<exists>frames. list_all2 (\<lambda>seq. intact crc (sr_raw reads seq)) seqs frames \<and>
      read_data_frames_async crc reads = Inr (header, frames, rolled crc frames, last_seq)) \<or>
    (\<exists>before seq rest f. seqs = before @ seq # rest \<and> (\<forall>s \<in> set before. \<exists>p. intact crc (sr_raw reads s) p) \<and>
      damage crc (sr_raw reads seq) f \<and> (f = PrecursorChainBroken None \<or> f = TransportUnavailable) \<and>
      read_data_frames_async crc reads = Inl f)"
proof -
  have kinds: "f = PrecursorChainBroken None \<or> f = TransportUnavailable" if "damage crc answer f" for answer f
  proof (cases answer)
    case (Inl err)
    then show ?thesis using that by (cases err) (auto simp: damage_def)
  qed (use that in \<open>simp add: damage_def\<close>)
  have async: "read_data_frames_async crc reads = result_bind (read_data_messages crc (sr_raw reads) seqs)
      (\<lambda>frames. Inr (header, frames, roll_messages (sr_raw reads) RollingCommitment_new seqs, last_seq))"
    using assms(1) by (simp add: read_data_frames_async_def seqs_def Let_def)
  from read_data_messages_exact [of crc "sr_raw reads" seqs RollingCommitment_new] show ?thesis
  proof (elim disjE exE conjE)
    fix frames
    assume "list_all2 (\<lambda>seq. intact crc (sr_raw reads seq)) seqs frames" "read_data_messages crc (sr_raw reads) seqs = Inr frames"
      "roll_messages (sr_raw reads) RollingCommitment_new seqs = foldl update_frame RollingCommitment_new (map (frame_bytes crc) frames)"
    then show ?thesis by (intro disjI1 exI [of _ frames]) (simp add: async rolled_def)
  next
    fix before seq rest f
    assume "seqs = before @ seq # rest" "\<forall>s \<in> set before. \<exists>p. intact crc (sr_raw reads s) p" "damage crc (sr_raw reads seq) f"
      "read_data_messages crc (sr_raw reads) seqs = Inl f"
    then show ?thesis using kinds
      by (intro disjI2 exI [of _ before] exI [of _ seq] exI [of _ rest] exI [of _ f]) (simp add: async)
  qed
qed

text \<open>A stream of three messages whose second frame has a trailing byte.\<close>

definition damaged_reads :: StreamReads where
  "damaged_reads = \<lparr>sr_get_stream = Inr (),
     sr_info = Inr \<lparr>in_messages = 3, in_first_sequence = 1, in_last_sequence = 3, in_subjects = []\<rparr>,
     sr_raw = (\<lambda>seq. if seq = 1 then Inr (ContainerHeader_to_bytes ContainerHeader_new)
       else if seq = 2 then Inr (frame_bytes (\<lambda>b. 0) [7]) else Inr (frame_bytes (\<lambda>b. 0) [8] @ [0]))\<rparr>"

theorem stream_damage_exact_witness:
  "open_data_stream damaged_reads = Inr (ContainerHeader_new, 1, 3, 3) \<and>
    read_data_frames_async (\<lambda>b. 0) damaged_reads = Inl (PrecursorChainBroken None)"
proof -
  have o: "open_data_stream damaged_reads = Inr (ContainerHeader_new, 1, 3, 3)"
    using header_exact by (simp add: open_data_stream_def damaged_reads_def result_bind_def map_err_def)
  have raw: "sr_raw damaged_reads 2 = Inr (frame_bytes (\<lambda>b. 0) [7])" "sr_raw damaged_reads 3 = Inr (frame_bytes (\<lambda>b. 0) [8] @ [0])"
    by (simp_all add: damaged_reads_def)
  have seqs: "(if (1 :: u64) < 3 then seq_range (1 + 1) 3 else []) = [2, 3]" by (simp add: seq_range_def)
  have "\<not> intact (\<lambda>b. 0) (Inr (frame_bytes (\<lambda>b. 0) [8] @ [0])) p" for p
  proof -
    have "ContainerFrame_decode (\<lambda>b. 0) (frame_bytes (\<lambda>b. 0) [8] @ [0]) = Inr ([8], length (frame_bytes (\<lambda>b. 0) [8]))"
      by (rule container_frame.dec_enc) (simp add: U32_bound)
    then show ?thesis using container_frame.dec_enc_exact [of p] by (auto simp: intact_def)
  qed
  with stream_damage_exact [OF o, of "\<lambda>b. 0", unfolded seqs] raw o show ?thesis
    by (auto simp: Cons_eq_append_conv damage_def list_all2_Cons1)
qed

end
