(* ===== verification/Engine_Recovery.thy ===== *)
theory Engine_Recovery
  imports File_Engine
begin

text \<open>
  The default methods of \<open>StorageEngine\<close> in \<open>store/engine.rs\<close>: \<open>read_chunk\<close>, and \<open>recover_frames\<close>, which reads an engine chunk by chunk
  until a chunk is short or empty, and its agreement with the override of the file engine, which scans once.
  Nothing bounds the loop by itself (an engine may keep returning full chunks), so it is a partial function:
  \<open>None\<close> is a loop that does not end.
\<close>

definition read_chunk_default :: "('e \<Rightarrow> bytes list operation \<times> 'e) \<Rightarrow> 'e \<Rightarrow> u64 \<Rightarrow> nat \<Rightarrow> bytes list operation \<times> 'e" where
  "read_chunk_default all_of e start_index max_items =
    (if max_items = 0 then (Inr [], e)
     else
       (case all_of e of
          (Inl f, e1) \<Rightarrow> (Inl f, e1)
        | (Inr blocks, e1) \<Rightarrow>
            let start = unat start_index in
            if start \<ge> length blocks then (Inr [], e1)
            else (Inr (subslice start (min (saturating_add start max_items) (length blocks)) blocks), e1)))"

fun deliver_chunk :: "(u64 \<Rightarrow> bytes \<Rightarrow> 's \<Rightarrow> unit operation \<times> 's) \<Rightarrow> u64 \<Rightarrow> bytes list \<Rightarrow> 's \<Rightarrow> u64 operation \<times> 's" where
  "deliver_chunk on_frame total_frames [] s = (Inr total_frames, s)"
| "deliver_chunk on_frame total_frames (frame # rest) s =
    (case on_frame total_frames frame s of
       (Inl f, s1) \<Rightarrow> (Inl f, s1)
     | (Inr _, s1) \<Rightarrow> deliver_chunk on_frame (saturating_add_u64 total_frames 1) rest s1)"

partial_function (option) recover_loop :: "('e \<Rightarrow> u64 \<Rightarrow> nat \<Rightarrow> bytes list operation \<times> 'e) \<Rightarrow>
    (u64 \<Rightarrow> bytes \<Rightarrow> 's \<Rightarrow> unit operation \<times> 's) \<Rightarrow> nat \<Rightarrow> u64 \<Rightarrow> u64 \<Rightarrow> 'e \<Rightarrow> 's \<Rightarrow> (u64 operation \<times> 's \<times> 'e) option" where
  "recover_loop chunk_at on_frame chunk_size start_index total_frames e s =
    (case chunk_at e start_index chunk_size of
       (Inl f, e1) \<Rightarrow> Some (Inl f, s, e1)
     | (Inr chunk, e1) \<Rightarrow>
         if chunk = [] then Some (Inr total_frames, s, e1)
         else
           (case deliver_chunk on_frame total_frames chunk s of
              (Inl f, s1) \<Rightarrow> Some (Inl f, s1, e1)
            | (Inr total_frames', s1) \<Rightarrow>
                if length chunk < chunk_size then Some (Inr total_frames', s1, e1)
                else recover_loop chunk_at on_frame chunk_size
                  (saturating_add_u64 start_index (of_nat (length chunk))) total_frames' e1 s1))"

definition recover_frames_default :: "('e \<Rightarrow> u64 \<Rightarrow> nat \<Rightarrow> bytes list operation \<times> 'e) \<Rightarrow> 'e \<Rightarrow> nat \<Rightarrow>
    (u64 \<Rightarrow> bytes \<Rightarrow> 's \<Rightarrow> unit operation \<times> 's) \<Rightarrow> 's \<Rightarrow> (u64 operation \<times> 's \<times> 'e) option" where
  "recover_frames_default chunk_at e chunk_size on_frame s = recover_loop chunk_at on_frame (max chunk_size 1) 0 0 e s"

section \<open>Chunks of a stored list\<close>

text \<open>The chunk the default returns is the part of the list it names, and the file engine's override does not differ.\<close>

lemma read_chunk_default_part:
  assumes "all_of e = (Inr blocks, e1)" and "length blocks \<le> USIZE_MAX" and "0 < max_items"
  shows "read_chunk_default all_of e start_index max_items = (Inr (take max_items (drop (unat start_index) blocks)), e1)"
  using assms by (auto simp: read_chunk_default_def Let_def subslice_def saturating_add_def min_def)

lemma read_chunk_overrides: "read_chunk crc io = read_chunk_default (read_all crc io)"
  unfolding read_chunk_def read_chunk_default_def Let_def by (rule refl)

lemma deliver_append:
  "deliver cb n (xs @ ys) s =
    (case deliver cb n xs s of (Inl f, s1) \<Rightarrow> (Inl f, s1) | (Inr _, s1) \<Rightarrow> deliver cb (n + length xs) ys s1)"
  by (induction xs arbitrary: n s) (auto split: sum.splits prod.splits)

lemma deliver_chunk_deliver:
  "n + length xs < 2 ^ 64 \<Longrightarrow> deliver_chunk cb (of_nat n) xs s =
    (case deliver cb n xs s of (Inl f, s1) \<Rightarrow> (Inl f, s1) | (Inr _, s1) \<Rightarrow> (Inr (of_nat (n + length xs)), s1))"
proof (induction xs arbitrary: n s)
  case Nil
  then show ?case by simp
next
  case (Cons x xs)
  have "saturating_add_u64 (of_nat n) 1 = of_nat (n + 1)"
    using Cons.prems by (simp add: saturating_add_u64_def unat_of_nat take_bit_nat_eq_self)
  then show ?case using Cons.IH [of "n + 1"] Cons.prems
    by (auto simp del: of_nat_add of_nat_Suc split: sum.splits prod.splits)
qed

lemma frames_in_container: "length ps \<le> length (container_bytes crc ps)"
  by (induction ps rule: rev_induct) (simp_all add: container_bytes_snoc)

lemma read_chunk_stored:
  assumes "engine_stores crc ps e" and "all_ok io" and "length (container_bytes crc ps) \<le> USIZE_MAX"
    and "k \<le> length ps" and "0 < c"
  shows "\<exists>e'. read_chunk crc io e (of_nat k) c = (Inr (take c (drop k ps)), e') \<and> engine_stores crc ps e'"
proof -
  let ?e = "e\<lparr>fe_read_all_count := fe_read_all_count e + 1\<rparr>"
  have small: "length ps \<le> USIZE_MAX" using frames_in_container [of ps crc] assms(3) by linarith
  have "read_all crc io e = (Inr ps, ?e)"
    using scan_container_stored(1) [OF _ assms(2,3)] assms(1) by (simp add: read_all_def engine_stores_def Let_def)
  moreover have "unat (of_nat k :: u64) = k" using assms(4) small by (simp add: unat_of_nat take_bit_nat_eq_self USIZE_bound)
  ultimately have "read_chunk crc io e (of_nat k) c = (Inr (take c (drop k ps)), ?e)"
    using read_chunk_default_part [OF _ small assms(5), of "read_all crc io" e ?e "of_nat k"] by (simp add: read_chunk_overrides)
  then show ?thesis using assms(1) by (auto simp: engine_stores_def)
qed

lemma recover_loop_stored:
  assumes "engine_stores crc ps e" and "all_ok io" and "length (container_bytes crc ps) \<le> USIZE_MAX"
    and "k \<le> length ps" and "0 < c"
  shows "\<exists>e'. recover_loop (read_chunk crc io) cb c (of_nat k) (of_nat k) e s =
    Some (case deliver cb k (drop k ps) s of (Inl f, s1) \<Rightarrow> (Inl f, s1, e') | (Inr _, s1) \<Rightarrow> (Inr (of_nat (length ps)), s1, e'))"
  using assms(1,4)
proof (induction "length ps - k" arbitrary: k e s rule: less_induct)
  case less
  let ?chunk = "take c (drop k ps)"
  have small: "length ps < 2 ^ 64" using frames_in_container [of ps crc] assms(3) by (simp add: USIZE_bound)
  obtain e1 where e1: "read_chunk crc io e (of_nat k) c = (Inr ?chunk, e1)" "engine_stores crc ps e1"
    using read_chunk_stored [OF less.prems(1) assms(2,3) less.prems(2) assms(5)] by blast
  show ?case
  proof (cases "k = length ps")
    case True
    then show ?thesis using e1(1) by (subst recover_loop.simps) simp
  next
    case False
    then have k: "k < length ps" using less.prems(2) by simp
    have parts: "drop k ps = ?chunk @ drop (k + length ?chunk) ps"
      by (simp add: min_def) (metis append_take_drop_id drop_drop add.commute)
    have len: "0 < length ?chunk" "k + length ?chunk \<le> length ps" using k assms(5) by auto
    note d = deliver_append [of cb k ?chunk "drop (k + length ?chunk) ps" s, folded parts]
    obtain r s1 where r: "deliver cb k ?chunk s = (r, s1)" by fastforce
    have dc: "deliver_chunk cb (of_nat k) ?chunk s =
        (case r of Inl f \<Rightarrow> (Inl f, s1) | Inr _ \<Rightarrow> (Inr (of_nat (k + length ?chunk)), s1))"
      using deliver_chunk_deliver [of k ?chunk cb s] len(2) small r by (auto split: sum.splits)
    have next_index: "saturating_add_u64 (of_nat k) (of_nat (length ?chunk)) = of_nat (k + length ?chunk)"
      using len(2) small by (simp add: saturating_add_u64_def unat_of_nat take_bit_nat_eq_self)
    show ?thesis
    proof (cases r)
      case (Inl f)
      then show ?thesis using e1(1) dc d r len(1) by (subst recover_loop.simps) auto
    next
      case (Inr u)
      show ?thesis
      proof (cases "length ?chunk < c")
        case True
        then have "drop (k + length ?chunk) ps = []" by auto
        then show ?thesis using e1(1) dc d r Inr True len by (subst recover_loop.simps) auto
      next
        case False
        have "\<exists>e'. recover_loop (read_chunk crc io) cb c (of_nat (k + length ?chunk)) (of_nat (k + length ?chunk)) e1 s1 =
            Some (case deliver cb (k + length ?chunk) (drop (k + length ?chunk) ps) s1 of
              (Inl f, s1) \<Rightarrow> (Inl f, s1, e') | (Inr _, s1) \<Rightarrow> (Inr (of_nat (length ps)), s1, e'))"
          using less.hyps [OF _ e1(2), of "k + length ?chunk"] len k by simp
        then show ?thesis using e1(1) dc d r Inr False len(1) next_index
          by (subst recover_loop.simps) (simp del: of_nat_add length_take)
      qed
    qed
  qed
qed

section \<open>Properties\<close>

text \<open>C33: the chunked recovery of the trait terminates on a file engine that holds a list of frames, for every chunk
  size (zero included) and every callback, and has the same result and the same effect of the callback as the
  single scan with which the file engine overrides it.\<close>

theorem chunked_recovery_agrees:
  assumes "engine_stores crc ps e" and "all_ok io" and "length (container_bytes crc ps) \<le> USIZE_MAX"
  shows "\<exists>e'. recover_frames_default (read_chunk crc io) e chunk_size cb s =
    Some (case recover_frames crc io e chunk_size' cb s of (res, s1, _) \<Rightarrow> (res, s1, e'))"
proof -
  obtain e' where "recover_frames_default (read_chunk crc io) e chunk_size cb s =
    Some (case deliver cb 0 ps s of (Inl f, s1) \<Rightarrow> (Inl f, s1, e') | (Inr _, s1) \<Rightarrow> (Inr (of_nat (length ps)), s1, e'))"
    using recover_loop_stored [OF assms, of 0 "max chunk_size 1" cb s]
    by (auto simp: recover_frames_default_def less_max_iff_disj)
  moreover have "scan_container crc io (container_bytes crc ps) = Inr ps"
    using scan_container_stored(1) assms by (simp add: engine_stores_def)
  ultimately show ?thesis
    using assms(1) by (auto simp: recover_frames_def engine_stores_def Let_def split: sum.splits prod.splits)
qed

theorem chunked_recovery_agrees_witness:
  "\<exists>e'. recover_frames_default (read_chunk (\<lambda>b. 0)
      \<lparr>ri_seek_ok = True, ri_scan_seek_ok = True, ri_len_ok = True, ri_read_ok = True, ri_restore_ok = True\<rparr>)
      (sample_engine\<lparr>fe_file := Some (container_bytes (\<lambda>b. 0) [[1], [2, 3], [4]])\<rparr>) 2 (\<lambda>i frame s. (Inr (), s @ frame)) [] =
    Some (Inr 3, [1, 2, 3, 4], e')"
proof -
  let ?io = "\<lparr>ri_seek_ok = True, ri_scan_seek_ok = True, ri_len_ok = True, ri_read_ok = True, ri_restore_ok = True\<rparr>"
  let ?e = "sample_engine\<lparr>fe_file := Some (container_bytes (\<lambda>b. 0) [[1], [2, 3], [4]])\<rparr>"
  let ?cb = "\<lambda>i (frame :: bytes) s. (Inr () :: unit operation, s @ frame)"
  have e: "engine_stores (\<lambda>b. 0) [[1], [2, 3], [4]] ?e" "all_ok ?io"
    "length (container_bytes (\<lambda>b. 0) [[1], [2, 3], [4]]) \<le> USIZE_MAX"
    by (simp_all add: engine_stores_def all_ok_def U32_bound USIZE_bound container_bytes_def frames_bytes_def ContainerHeader_to_bytes_def)
  have "recover_frames (\<lambda>b. 0) ?io ?e 2 ?cb [] = (Inr 3, [1, 2, 3, 4], ?e\<lparr>fe_frame_count := 3\<rparr>)"
    using recover_frames_stored(2) [OF e, of ?cb "[]" "[1, 2, 3, 4]" 2] by simp
  with chunked_recovery_agrees [OF e, of 2 ?cb "[]" 2] show ?thesis by simp
qed

end
