(* ===== verification/Nats_Engine.thy ===== *)
theory Nats_Engine
  imports Nats_Client Store_Session Engine_Recovery "HOL-Library.Sublist"
begin

text \<open>
  \<open>NatsEngine\<close> of \<open>pardosa-nats/src/adapter.rs\<close>, the JetStream driver behind the storage pipeline. A frame is
  published with the sequence number the session last saw, and the server refuses it when the stream has moved on.
  The server is a parameter: \<open>publish\<close> takes a request and the state of the world, in which other clients act as
  well, and gives the answer and the next state; reads take their answers as inputs. What the code relies on is
  the law \<open>jetstream_law\<close>. The client and runtime handles have no state of their own; diagnostic texts are
  reduced to their cause.
\<close>

datatype nats_uncertain_cause = Authority_divergence | Simulated_landing | Concurrency_collision |
  Ack_failed | Ack_timed_out | Ack_stream_mismatch | Flush_failed

record NatsEngine =
  ne_stem :: bytes
  ne_meta_stream_name :: bytes
  ne_data_stream_name :: bytes
  ne_meta_subject :: bytes
  ne_data_subject :: bytes
  ne_carried_epoch :: u64
  ne_claim :: "OwnershipClaimRecord option"
  ne_meta_records :: MetaRecords
  ne_admission :: OpenAdmission
  ne_last_data_seq :: u64
  ne_data_events_landed :: bool
  ne_read_all_count :: nat
  ne_publish_timeout :: nat
  ne_simulate_indeterminate :: bool
  ne_uncertain :: bool
  ne_uncertain_diagnostic :: "nats_uncertain_cause option"

section \<open>Publishing\<close>

record PublishRequest =
  pr_subject :: bytes
  pr_expected_last :: "u64 option"
  pr_expected_stream :: bytes
  pr_payload :: bytes

text \<open>The call that sends a message may fail; otherwise its acknowledgement names a stream and a sequence
  number, reports an error, or does not arrive in time.\<close>

datatype PublishAnswer = Publish_failed PublishError | Ack bytes u64 | Ack_error PublishError | Ack_timeout

type_synonym 'w publisher = "PublishRequest \<Rightarrow> 'w \<Rightarrow> PublishAnswer \<times> 'w"

definition nats_become_uncertain :: "nats_uncertain_cause \<Rightarrow> NatsEngine \<Rightarrow> NatsEngine" where
  "nats_become_uncertain cause e = e\<lparr>ne_uncertain := True, ne_uncertain_diagnostic := Some cause\<rparr>"

definition nats_check_authority :: "crc32c \<Rightarrow> StreamReads \<Rightarrow> NatsEngine \<Rightarrow> unit operation" where
  "nats_check_authority crc meta_reads e =
    (if ne_uncertain e then Inl OwnershipRecordUnreadable
     else result_bind (read_meta_records_async crc meta_reads) (\<lambda>meta.
       if mr_outbound_pointer meta \<noteq> None then Inl RetiredMigrationSource
       else result_bind (ok_or OwnershipRecordUnreadable (mr_latest_claim meta)) (\<lambda>latest_claim.
         if claim_epoch latest_claim \<noteq> ne_carried_epoch e then Inl StaleEpoch
         else Inr ())))"

definition publish_request :: "NatsEngine \<Rightarrow> bytes \<Rightarrow> PublishRequest" where
  "publish_request e block = \<lparr>pr_subject = ne_data_subject e, pr_expected_last = Some (ne_last_data_seq e),
     pr_expected_stream = ne_data_stream_name e, pr_payload = block\<rparr>"

definition settle_publish :: "NatsEngine \<Rightarrow> PublishAnswer \<Rightarrow> u64 WriteLandingVerdict operation \<times> NatsEngine" where
  "settle_publish e answer =
    (case answer of
       Publish_failed err \<Rightarrow>
         if is_wrong_last_sequence err then (Inl ConcurrencyConflict, nats_become_uncertain Concurrency_collision e)
         else (Inl TransportUnavailable, e)
     | Ack_error err \<Rightarrow>
         if is_wrong_last_sequence err then (Inl ConcurrencyConflict, nats_become_uncertain Concurrency_collision e)
         else (Inr (Undetermined (ne_carried_epoch e)), nats_become_uncertain Ack_failed e)
     | Ack_timeout \<Rightarrow> (Inr (Undetermined (ne_carried_epoch e)), nats_become_uncertain Ack_timed_out e)
     | Ack ack_stream seq \<Rightarrow>
         if ack_stream \<noteq> ne_data_stream_name e
         then (Inr (Undetermined (ne_carried_epoch e)), nats_become_uncertain Ack_stream_mismatch e)
         else (Inr (Landed seq), e\<lparr>ne_last_data_seq := seq, ne_data_events_landed := True\<rparr>))"

definition nats_append_block :: "crc32c \<Rightarrow> 'w publisher \<Rightarrow> StreamReads \<Rightarrow> NatsEngine \<times> 'w \<Rightarrow> bytes \<Rightarrow>
    u64 WriteLandingVerdict operation \<times> (NatsEngine \<times> 'w)" where
  "nats_append_block crc publish meta_reads s block =
    (case s of (e, w) \<Rightarrow>
       (case nats_check_authority crc meta_reads e of
          Inl err \<Rightarrow>
            (Inl err,
             (if err = StaleEpoch \<or> err = RetiredMigrationSource then nats_become_uncertain Authority_divergence e else e, w))
        | Inr _ \<Rightarrow>
            if ne_simulate_indeterminate e
            then (Inr (Undetermined (ne_carried_epoch e)), (nats_become_uncertain Simulated_landing e, w))
            else if ne_last_data_seq e = - 1 then (Inl (ValueConstraintViolated_fc TooLong), (e, w))
            else
              (case publish (publish_request e block) w of
                 (answer, w') \<Rightarrow> (case settle_publish e answer of (res, e') \<Rightarrow> (res, (e', w'))))))"

section \<open>Reading\<close>

definition nats_read_all :: "crc32c \<Rightarrow> StreamReads \<Rightarrow> NatsEngine \<Rightarrow> bytes list operation \<times> NatsEngine" where
  "nats_read_all crc reads e =
    (result_bind (read_data_frames_async crc reads) (\<lambda>(_, frames, _, _). Inr frames),
     e\<lparr>ne_read_all_count := ne_read_all_count e + 1\<rparr>)"

definition nats_read_chunk :: "crc32c \<Rightarrow> StreamReads \<Rightarrow> NatsEngine \<Rightarrow> u64 \<Rightarrow> nat \<Rightarrow> bytes list operation \<times> NatsEngine" where
  "nats_read_chunk crc reads e start_index max_items =
    (if max_items = 0 then Inr [] else read_chunk_async crc reads start_index max_items None, e)"

fun nats_deliver :: "(u64 \<Rightarrow> bytes \<Rightarrow> 's \<Rightarrow> unit operation \<times> 's) \<Rightarrow> u64 \<Rightarrow> bytes list \<Rightarrow> 's \<Rightarrow> u64 operation \<times> 's" where
  "nats_deliver on_frame total_recovered [] s = (Inr total_recovered, s)"
| "nats_deliver on_frame total_recovered (frame # rest) s =
    (case on_frame total_recovered frame s of
       (Inl f, s1) \<Rightarrow> (Inl f, s1)
     | (Inr _, s1) \<Rightarrow> nats_deliver on_frame (total_recovered + 1) rest s1)"

lemma chunk_end_ge:
  assumes "\<not> current_seq > (last_seq :: u64)"
  shows "current_seq \<le> (case checked_add_u64 current_seq k of Some e \<Rightarrow> min e last_seq | None \<Rightarrow> last_seq)"
  using assms by (auto simp: checked_add_u64_def word_le_nat_alt unat_word_ariths min_def not_less)

lemma next_chunk_closer:
  assumes "current_seq \<le> chunk_end" and "chunk_end < (last_seq :: u64)"
  shows "unat last_seq - unat (chunk_end + 1) < unat last_seq - unat current_seq"
proof -
  have "unat (chunk_end + 1) = unat chunk_end + 1"
    using assms(2) unat_word_less [of last_seq] by (simp add: unat_word_ariths word_less_nat_alt)
  then show ?thesis using assms by (simp add: word_le_nat_alt word_less_nat_alt)
qed

text \<open>The loop over the chunks of the stream. \<open>open_at\<close> answers the request for the stream that each chunk makes.\<close>

function nats_recover_loop :: "crc32c \<Rightarrow> (u64 \<Rightarrow> GetStreamError + unit) \<Rightarrow> (u64 \<Rightarrow> RawMessageError + bytes) \<Rightarrow>
    (u64 \<Rightarrow> bytes \<Rightarrow> 's \<Rightarrow> unit operation \<times> 's) \<Rightarrow> u64 \<Rightarrow> u64 \<Rightarrow> u64 \<Rightarrow> u64 \<Rightarrow> 's \<Rightarrow> u64 operation \<times> 's" where
  "nats_recover_loop crc open_at raw on_frame chunk_step last_seq current_seq total_recovered s =
    (if current_seq > last_seq then (Inr total_recovered, s)
     else
       let chunk_end = (case checked_add_u64 current_seq (saturating_sub_u64 chunk_step 1) of
                          Some e \<Rightarrow> min e last_seq | None \<Rightarrow> last_seq) in
       (case read_range_async crc (open_at current_seq) raw current_seq chunk_end of
          Inl f \<Rightarrow> (Inl f, s)
        | Inr frames \<Rightarrow>
            if length frames \<noteq> unat (saturating_add_u64 (saturating_sub_u64 chunk_end current_seq) 1)
            then (Inl (PrecursorChainBroken None), s)
            else
              (case nats_deliver on_frame total_recovered frames s of
                 (Inl f, s1) \<Rightarrow> (Inl f, s1)
               | (Inr total', s1) \<Rightarrow>
                   if chunk_end = - 1 \<or> chunk_end \<ge> last_seq then (Inr total', s1)
                   else nats_recover_loop crc open_at raw on_frame chunk_step last_seq (chunk_end + 1) total' s1)))"
  by pat_completeness auto

termination
  by (relation "measure (\<lambda>(crc, open_at, raw, on_frame, chunk_step, last_seq, current_seq, total, s).
      unat last_seq - unat current_seq)")
    (auto intro!: next_chunk_closer chunk_end_ge simp: not_le)

declare nats_recover_loop.simps [simp del]

definition nats_recover_frames :: "crc32c \<Rightarrow> StreamReads \<times> (u64 \<Rightarrow> GetStreamError + unit) \<Rightarrow> NatsEngine \<Rightarrow> nat \<Rightarrow>
    (u64 \<Rightarrow> bytes \<Rightarrow> 's \<Rightarrow> unit operation \<times> 's) \<Rightarrow> 's \<Rightarrow> u64 operation \<times> 's \<times> NatsEngine" where
  "nats_recover_frames crc io e chunk_size on_frame s =
    (case open_data_stream (fst io) of
       Inl f \<Rightarrow> (Inl f, s, e)
     | Inr (_, first_seq, last_seq, _) \<Rightarrow>
         (case checked_add_u64 first_seq 1 of
            None \<Rightarrow> (Inr 0, s, e\<lparr>ne_last_data_seq := last_seq\<rparr>)
          | Some data_start_seq \<Rightarrow>
              if data_start_seq > last_seq then (Inr 0, s, e\<lparr>ne_last_data_seq := last_seq\<rparr>)
              else
                (case nats_recover_loop crc (snd io) (sr_raw (fst io)) on_frame (of_nat (max chunk_size 1)) last_seq
                        data_start_seq 0 s of
                   (Inl f, s1) \<Rightarrow> (Inl f, s1, e)
                 | (Inr total_recovered, s1) \<Rightarrow> (Inr total_recovered, s1, e\<lparr>ne_last_data_seq := last_seq\<rparr>))))"

section \<open>Other methods\<close>

definition set_publish_timeout :: "NatsEngine \<Rightarrow> nat \<Rightarrow> NatsEngine" where
  "set_publish_timeout e timeout = e\<lparr>ne_publish_timeout := timeout\<rparr>"

definition set_simulate_indeterminate :: "NatsEngine \<Rightarrow> bool \<Rightarrow> NatsEngine" where
  "set_simulate_indeterminate e simulate = e\<lparr>ne_simulate_indeterminate := simulate\<rparr>"

definition nats_is_retired :: "crc32c \<Rightarrow> StreamReads \<Rightarrow> bool operation" where
  "nats_is_retired crc meta_reads =
    result_bind (read_meta_records_async crc meta_reads) (\<lambda>meta. Inr (mr_outbound_pointer meta \<noteq> None))"

definition nats_sync :: "crc32c \<Rightarrow> StreamReads \<Rightarrow> bool \<Rightarrow> NatsEngine \<Rightarrow> unit operation \<times> NatsEngine" where
  "nats_sync crc meta_reads flush_ok e =
    (case nats_check_authority crc meta_reads e of
       Inl f \<Rightarrow> (Inl f, e)
     | Inr _ \<Rightarrow>
         if flush_ok then (Inr (), e)
         else (Inl (PrecursorChainBroken None), nats_become_uncertain Flush_failed e))"

section \<open>What the server promises\<close>

text \<open>Streams are append-only logs that bind one subject each, and \<open>view w stream\<close> is what a stream holds in the
  state \<open>w\<close>, message \<open>k\<close> of the list having sequence number \<open>k + 1\<close>. Whatever else happens during a publish,
  messages stay where they are. The header \<open>Nats-Expected-Last-Subject-Sequence\<close> makes the server compare a number
  with that of the last message on the subject, which is the last one of the stream, and refuse the message when they
  differ: when a message is acknowledged that was sent with the number \<open>n\<close>, it was stored during the call as the
  message right after the \<open>n\<close>-th.\<close>

definition jetstream_law :: "'w publisher \<Rightarrow> ('w \<Rightarrow> bytes \<Rightarrow> bytes list) \<Rightarrow> bool" where
  "jetstream_law publish view \<longleftrightarrow> (\<forall>req w answer w'. publish req w = (answer, w') \<longrightarrow>
     (\<forall>stream. prefix (view w stream) (view w' stream)) \<and>
     (\<forall>n seq. answer = Ack (pr_expected_stream req) seq \<and> pr_expected_last req = Some n \<longrightarrow>
        length (view w (pr_expected_stream req)) \<le> unat n \<and> unat n < length (view w' (pr_expected_stream req)) \<and>
        unat seq = unat n + 1 \<and> view w' (pr_expected_stream req) ! unat n = pr_payload req))"

lemma jetstream_kept:
  "jetstream_law publish view \<Longrightarrow> publish req w = (answer, w') \<Longrightarrow> prefix (view w stream) (view w' stream)"
  unfolding jetstream_law_def by blast

lemma jetstream_acknowledged:
  assumes "jetstream_law publish view" and "publish (publish_request e block) w = (Ack (ne_data_stream_name e) seq, w')"
  shows "length (view w (ne_data_stream_name e)) \<le> unat (ne_last_data_seq e)"
    and "unat (ne_last_data_seq e) < length (view w' (ne_data_stream_name e))"
    and "unat seq = unat (ne_last_data_seq e) + 1"
    and "view w' (ne_data_stream_name e) ! unat (ne_last_data_seq e) = block"
  using assms unfolding jetstream_law_def publish_request_def by fastforce+

section \<open>Appends\<close>

definition nats_authorised :: "crc32c \<Rightarrow> StreamReads \<Rightarrow> NatsEngine \<Rightarrow> bool" where
  "nats_authorised crc meta_reads e \<longleftrightarrow> \<not> ne_uncertain e \<and>
     (\<exists>meta claim. read_meta_records_async crc meta_reads = Inr meta \<and> mr_outbound_pointer meta = None \<and>
        mr_latest_claim meta = Some claim \<and> claim_epoch claim = ne_carried_epoch e)"

lemma nats_check_authority_iff: "nats_check_authority crc m e = Inr u \<longleftrightarrow> nats_authorised crc m e"
  by (auto simp: nats_check_authority_def nats_authorised_def result_simps split: if_splits)

lemma nats_become_uncertain_simps [simp]:
  "ne_uncertain (nats_become_uncertain c e)" "ne_uncertain_diagnostic (nats_become_uncertain c e) = Some c"
  "ne_data_stream_name (nats_become_uncertain c e) = ne_data_stream_name e"
  "ne_last_data_seq (nats_become_uncertain c e) = ne_last_data_seq e"
  "ne_carried_epoch (nats_become_uncertain c e) = ne_carried_epoch e"
  by (simp_all add: nats_become_uncertain_def)

text \<open>The ways an append can end: it lands, it leaves the engine uncertain, or it leaves the engine as it was.\<close>

lemma settle_publish_cases:
  assumes "settle_publish e answer = (res, e')"
  shows "(\<exists>n. res = Inr (Landed n) \<and> answer = Ack (ne_data_stream_name e) n \<and>
      e' = e\<lparr>ne_last_data_seq := n, ne_data_events_landed := True\<rparr>) \<or>
    (\<exists>c. e' = nats_become_uncertain c e \<and> (res = Inl ConcurrencyConflict \<or> res = Inr (Undetermined (ne_carried_epoch e)))) \<or>
    (\<exists>f. res = Inl f) \<and> e' = e"
  using assms unfolding settle_publish_def by (cases answer) (auto split: if_splits)

lemma nats_append_cases:
  assumes "nats_append_block crc publish m (e, w) block = (res, (e', w'))"
  obtains (landed) n where "res = Inr (Landed n)" "nats_authorised crc m e" "ne_last_data_seq e \<noteq> - 1"
      "publish (publish_request e block) w = (Ack (ne_data_stream_name e) n, w')"
      "e' = e\<lparr>ne_last_data_seq := n, ne_data_events_landed := True\<rparr>"
    | (uncertain) c where "e' = nats_become_uncertain c e"
      "(\<exists>f. res = Inl f) \<or> res = Inr (Undetermined (ne_carried_epoch e)) \<and> nats_authorised crc m e"
      "w' = w \<or> (\<exists>answer. publish (publish_request e block) w = (answer, w'))"
    | (refused) f where "res = Inl f" "e' = e" "w' = w \<or> (\<exists>answer. publish (publish_request e block) w = (answer, w'))"
proof (cases "nats_check_authority crc m e")
  case (Inl f)
  show thesis
  proof (cases "f = StaleEpoch \<or> f = RetiredMigrationSource")
    case True
    then show ?thesis using assms Inl uncertain [of Authority_divergence] by (auto simp: nats_append_block_def)
  next
    case False
    then show ?thesis using assms Inl refused [of f] by (auto simp: nats_append_block_def)
  qed
next
  case (Inr u)
  then have auth: "nats_authorised crc m e" by (simp add: nats_check_authority_iff)
  obtain answer w1 where p: "publish (publish_request e block) w = (answer, w1)" by fastforce
  consider (sim) "ne_simulate_indeterminate e" | (full) "\<not> ne_simulate_indeterminate e" "ne_last_data_seq e = - 1"
    | (sent) "\<not> ne_simulate_indeterminate e" "ne_last_data_seq e \<noteq> - 1" by blast
  then show thesis
  proof cases
    case sim
    then show ?thesis using assms Inr auth uncertain [of Simulated_landing] by (simp add: nats_append_block_def)
  next
    case full
    then show ?thesis using assms Inr refused by (auto simp: nats_append_block_def)
  next
    case sent
    obtain res1 e1 where s: "settle_publish e answer = (res1, e1)" by fastforce
    then have eq: "res1 = res" "e1 = e'" "w1 = w'"
      using assms Inr p sent by (simp_all add: nats_append_block_def)
    from settle_publish_cases [OF s] show ?thesis
      unfolding eq using p [unfolded eq] auth sent(2) landed uncertain refused by metis
  qed
qed

lemma nats_append_world:
  assumes "nats_append_block crc publish m (e, w) block = (res, (e', w'))" and "jetstream_law publish view"
  shows "prefix (view w stream) (view w' stream)"
  using assms(1) by (cases rule: nats_append_cases) (auto intro: jetstream_kept [OF assms(2)])

section \<open>A session on a stream\<close>

text \<open>The messages up to the sequence number the session last saw are the header and its frames. Other clients may
  have appended more; then the next publish of this session is refused.\<close>

definition nats_stores :: "crc32c \<Rightarrow> 'w publisher \<Rightarrow> ('w \<Rightarrow> bytes \<Rightarrow> bytes list) \<Rightarrow> bytes list \<Rightarrow> NatsEngine \<times> 'w \<Rightarrow> bool" where
  "nats_stores crc publish view ps s \<longleftrightarrow> jetstream_law publish view \<and> unat (ne_last_data_seq (fst s)) = Suc (length ps) \<and>
     take (Suc (length ps)) (view (snd s) (ne_data_stream_name (fst s))) = stream_messages crc ps \<and>
     list_all (\<lambda>p. length p \<le> U32_MAX) ps"

abbreviation nats_unsure :: "NatsEngine \<times> 'w \<Rightarrow> bool" where
  "nats_unsure s \<equiv> ne_uncertain_diagnostic (fst s) \<noteq> None"

abbreviation nats_check :: "crc32c \<Rightarrow> StreamReads \<Rightarrow> NatsEngine \<times> 'w \<Rightarrow> unit operation" where
  "nats_check crc meta_reads s \<equiv> nats_check_authority crc meta_reads (fst s)"

lemma prefix_take: "prefix xs ys \<Longrightarrow> length (take n xs) = n \<Longrightarrow> take n ys = take n xs"
  by (auto simp: prefix_def)

lemma nats_stores_kept:
  assumes "nats_stores crc publish view ps (e, w)"
    and "prefix (view w (ne_data_stream_name e)) (view w' (ne_data_stream_name e))"
  shows "nats_stores crc publish view ps (e, w')"
  using assms prefix_take [OF assms(2), of "Suc (length ps)"] by (auto simp: nats_stores_def)

lemma nats_append_stores:
  assumes "nats_stores crc publish view ps (e, w)"
    and "nats_append_block crc publish m (e, w) (frame_bytes crc p) = (Inr (Landed n), (e', w'))" and "length p \<le> U32_MAX"
  shows "nats_stores crc publish view (ps @ [p]) (e', w') \<and> ne_uncertain_diagnostic e' = ne_uncertain_diagnostic e"
  using assms(2)
proof (cases rule: nats_append_cases)
  case (landed k)
  let ?name = "ne_data_stream_name e" and ?n = "Suc (length ps)"
  have law: "jetstream_law publish view" and last_seq: "unat (ne_last_data_seq e) = ?n" using assms(1) by (simp_all add: nats_stores_def)
  note ack = jetstream_acknowledged [OF law landed(4), unfolded last_seq]
  have "take ?n (view w' ?name) = stream_messages crc ps"
    using nats_stores_kept [OF assms(1) jetstream_kept [OF law landed(4)]] by (simp add: nats_stores_def)
  with ack(2,4) have "take (Suc ?n) (view w' ?name) = stream_messages crc (ps @ [p])"
    by (simp add: take_Suc_conv_app_nth stream_messages_def)
  then show ?thesis using landed(5) law ack(3) assms(1,3) by (simp add: nats_stores_def)
qed simp_all

interpretation nats_engine: storage_engine crc "nats_check crc" "nats_append_block crc publish" nats_unsure
  "nats_stores crc publish view" for crc publish view
proof unfold_locales
  fix ps a p n and s s' :: "NatsEngine \<times> 'a"
  assume "nats_stores crc publish view ps s" "nats_append_block crc publish a s (frame_bytes crc p) = (Inr (Landed n), s')"
    "length p \<le> U32_MAX"
  then show "nats_stores crc publish view (ps @ [p]) s' \<and> nats_unsure s' = nats_unsure s"
    using nats_append_stores [of crc publish view ps "fst s" "snd s" a p n "fst s'" "snd s'"] by simp
next
  fix ps a block f and s s' :: "NatsEngine \<times> 'a"
  assume st: "nats_stores crc publish view ps s" "nats_append_block crc publish a s block = (Inl f, s')"
  then have app: "nats_append_block crc publish a (fst s, snd s) block = (Inl f, (fst s', snd s'))" by simp
  have kept: "prefix (view (snd s) stream) (view (snd s') stream)" for stream
    using nats_append_world [OF app] st(1) by (simp add: nats_stores_def)
  from app show "nats_unsure s' \<or> nats_stores crc publish view ps s' \<and> nats_unsure s' = nats_unsure s"
  proof (cases rule: nats_append_cases)
    case refused
    then have "s' = (fst s, snd s')" by (metis prod.collapse)
    then show ?thesis using nats_stores_kept [of crc publish view ps "fst s" "snd s" "snd s'"] st(1) kept refused(2) by simp
  qed simp_all
qed

section \<open>Recovery\<close>

lemma nats_deliver_deliver:
  "nats_deliver cb (of_nat n) xs s =
    (case deliver cb n xs s of (Inl f, s1) \<Rightarrow> (Inl f, s1) | (Inr _, s1) \<Rightarrow> (Inr (of_nat (n + length xs)), s1))"
proof (induction xs arbitrary: n s)
  case Nil
  then show ?case by simp
next
  case (Cons x xs)
  have "of_nat n + 1 = (of_nat (n + 1) :: u64)" by simp
  then show ?case using Cons.IH [of "n + 1"]
    by (auto simp del: of_nat_add of_nat_Suc split: sum.splits prod.splits)
qed

text \<open>One round of the loop on natural numbers: the chunk from \<open>a\<close> to \<open>min (a + c - 1) b\<close>.\<close>

lemma recover_loop_round:
  assumes "0 < a" and "a \<le> b" and "b < 2 ^ 64" and "0 < c" and "c < 2 ^ 64"
  shows "nats_recover_loop crc open_at raw cb (of_nat c) (of_nat b) (of_nat a) n s =
    (let e = min (a + c - 1) b in
     case read_range_async crc (open_at (of_nat a)) raw (of_nat a) (of_nat e) of
       Inl f \<Rightarrow> (Inl f, s)
     | Inr frames \<Rightarrow>
         if length frames \<noteq> e + 1 - a then (Inl (PrecursorChainBroken None), s)
         else (case nats_deliver cb n frames s of
                 (Inl f, s1) \<Rightarrow> (Inl f, s1)
               | (Inr n', s1) \<Rightarrow> if e = b then (Inr n', s1)
                   else nats_recover_loop crc open_at raw cb (of_nat c) (of_nat b) (of_nat (e + 1)) n' s1))"
proof -
  define e where "e = min (a + c - 1) b"
  have e: "a \<le> e" "e \<le> b" "e < 2 ^ 64" "a < 2 ^ 64" using assms by (auto simp: e_def)
  then have words: "unat (of_nat a :: u64) = a" "unat (of_nat b :: u64) = b" "unat (of_nat e :: u64) = e"
    using assms(3) unat_of_nat_u64 by blast+
  have le: "\<not> (of_nat b :: u64) < of_nat a" "(of_nat b :: u64) \<le> of_nat e \<longleftrightarrow> e = b"
    using e assms(2) by (auto simp: word_less_nat_alt word_le_nat_alt words)
  have "e = b" if "(of_nat e :: u64) = - 1"
  proof -
    have "e = 2 ^ 64 - 1" using that words(3) by (simp add: unsigned_minus_1_eq_mask mask_eq_exp_minus_1)
    then show ?thesis using e(2) assms(3) by linarith
  qed
  then have stop: "((of_nat e :: u64) = - 1 \<or> (of_nat b :: u64) \<le> of_nat e) = (e = b)" using le(2) by blast
  have sub: "saturating_sub_u64 (of_nat e) (of_nat a) = of_nat (e - a)" by (simp only: saturating_sub_u64_def words)
  have count: "unat (saturating_add_u64 (saturating_sub_u64 (of_nat e) (of_nat a)) 1) = e + 1 - a"
  proof -
    have "unat (of_nat (e - a) :: u64) = e - a" using e by (intro unat_of_nat_u64) simp
    then show ?thesis using e assms(1) unfolding sub
      by (simp add: saturating_add_u64_def unat_word_ariths del: of_nat_diff) linarith
  qed
  have succ: "of_nat e + 1 = (of_nat (e + 1) :: u64)" by simp
  note chunk = chunk_end_nat [OF assms(2-), folded e_def]
  have "nats_recover_loop crc open_at raw cb (of_nat c) (of_nat b) (of_nat a) n s =
    (case read_range_async crc (open_at (of_nat a)) raw (of_nat a) (of_nat e) of
       Inl f \<Rightarrow> (Inl f, s)
     | Inr frames \<Rightarrow>
         if length frames \<noteq> e + 1 - a then (Inl (PrecursorChainBroken None), s)
         else (case nats_deliver cb n frames s of
                 (Inl f, s1) \<Rightarrow> (Inl f, s1)
               | (Inr n', s1) \<Rightarrow> if e = b then (Inr n', s1)
                   else nats_recover_loop crc open_at raw cb (of_nat c) (of_nat b) (of_nat (e + 1)) n' s1))"
    using le(1) by (subst nats_recover_loop.simps) (unfold Let_def chunk stop count succ, simp)
  then show ?thesis by (simp only: Let_def e_def)
qed

text \<open>When every chunk that is read is the right one, the loop delivers all of them, or stops at a read that failed.\<close>

lemma recover_loop_chunks:
  fixes cb :: "u64 \<Rightarrow> bytes \<Rightarrow> 's \<Rightarrow> unit operation \<times> 's"
  assumes chunks: "\<forall>x y frames. 2 \<le> x \<and> x \<le> y \<and> y \<le> b \<and>
      read_range_async crc (open_at (of_nat x)) raw (of_nat x) (of_nat y) = Inr frames \<longrightarrow>
      frames = take (Suc y - x) (drop (x - 2) ps)"
    and b: "b \<le> Suc (length ps)" "b < 2 ^ 64" and c: "0 < c" "c < 2 ^ 64" and "2 \<le> a" and "a \<le> b"
  shows "nats_recover_loop crc open_at raw cb (of_nat c) (of_nat b) (of_nat a) (of_nat (a - 2)) s =
      (case deliver cb (a - 2) (take (Suc b - a) (drop (a - 2) ps)) s of
         (Inl f, s1) \<Rightarrow> (Inl f, s1) | (Inr _, s1) \<Rightarrow> (Inr (of_nat (b - 1)), s1)) \<or>
    (\<exists>f s1 x y. nats_recover_loop crc open_at raw cb (of_nat c) (of_nat b) (of_nat a) (of_nat (a - 2)) s = (Inl f, s1) \<and>
      2 \<le> x \<and> x \<le> y \<and> y \<le> b \<and> read_range_async crc (open_at (of_nat x)) raw (of_nat x) (of_nat y) = Inl f)"
  using assms(6,7)
proof (induction "b - a" arbitrary: a s rule: less_induct)
  case less
  define e where "e = min (a + c - 1) b"
  have e: "a \<le> e" "e \<le> b" using less.prems c(1) by (auto simp: e_def)
  have "0 < a" using less.prems by simp
  note round = recover_loop_round [OF this less.prems(2) b(2) c, of crc open_at raw cb "of_nat (a - 2)" s, folded e_def, unfolded Let_def]
  show ?case
  proof (cases "read_range_async crc (open_at (of_nat a)) raw (of_nat a) (of_nat e)")
    case (Inl f)
    then show ?thesis using round less.prems(1) e by auto
  next
    case (Inr frames)
    let ?chunk = "take (Suc e - a) (drop (a - 2) ps)" and ?rest = "take (b - e) (drop (e - 1) ps)"
    have frames: "frames = ?chunk" using chunks less.prems(1) e Inr by blast
    have len: "length ?chunk = e + 1 - a" "a - 2 + length ?chunk = e - 1" using e b(1) less.prems(1) by auto
    have "take (Suc b - a) (drop (a - 2) ps) = take ((Suc e - a) + (b - e)) (drop (a - 2) ps)" using e by simp
    also have "\<dots> = ?chunk @ ?rest"
    proof -
      have "Suc e - a + (a - 2) = e - 1" using e less.prems(1) by simp
      then show ?thesis by (simp only: take_add drop_drop)
    qed
    finally have parts: "take (Suc b - a) (drop (a - 2) ps) = ?chunk @ ?rest" .
    obtain r s1 where r: "deliver cb (a - 2) ?chunk s = (r, s1)" by fastforce
    then have nd: "nats_deliver cb (of_nat (a - 2)) ?chunk s =
        (case r of Inl f \<Rightarrow> (Inl f, s1) | Inr _ \<Rightarrow> (Inr (of_nat (e - 1)), s1))"
      using nats_deliver_deliver [of cb "a - 2" ?chunk s] len(2) by (auto split: sum.splits)
    have d: "deliver cb (a - 2) (take (Suc b - a) (drop (a - 2) ps)) s =
        (case r of Inl f \<Rightarrow> (Inl f, s1) | Inr _ \<Rightarrow> deliver cb (e - 1) ?rest s1)"
      using deliver_append [of cb "a - 2" ?chunk ?rest s] r by (cases r) (simp_all add: parts len(2) del: length_take)
    show ?thesis
    proof (cases r)
      case (Inl f)
      then show ?thesis using round Inr frames len(1) nd d by simp
    next
      case ok: (Inr u)
      show ?thesis
      proof (cases "e = b")
        case True
        then show ?thesis using round Inr frames len(1) nd d ok by simp
      next
        case False
        then have "b - (e + 1) < b - a" "2 \<le> e + 1" "e + 1 \<le> b" "e + 1 - 2 = e - 1" "Suc b - (e + 1) = b - e"
          using e less.prems by auto
        with less.hyps [of "e + 1" s1] show ?thesis using round Inr frames len(1) nd d ok False by simp
      qed
    qed
  qed
qed

lemma range_as_messages:
  "x \<le> y \<Longrightarrow> y < 2 ^ 64 \<Longrightarrow> read_range_async crc answer raw (of_nat x) (of_nat y) =
    result_bind (map_err map_nats_stream_open_error answer) (\<lambda>_. read_data_messages crc raw (seq_range (of_nat x) (of_nat y)))"
  by (simp add: read_range_async_def word_less_nat_alt unat_of_nat_u64)

lemma nats_recover_truthful:
  assumes "truthful (stream_messages crc ps) (fst io)" and "list_all (\<lambda>p. length p \<le> U32_MAX) ps" and "Suc (length ps) < 2 ^ 64"
    and "nats_recover_frames crc io e chunk_size cb s = (Inr k, s', e')" and "chunk_size \<le> USIZE_MAX"
  shows "\<exists>j \<le> length ps. deliver cb 0 (take j ps) s = (Inr (), s') \<and> e' = e\<lparr>ne_last_data_seq := of_nat (Suc j)\<rparr>"
proof -
  from assms(4) obtain h first_seq last_seq n where o: "open_data_stream (fst io) = Inr (h, first_seq, last_seq, n)"
    by (auto simp: nats_recover_frames_def split: sum.splits)
  from open_data_stream_truthful [OF assms(1) o]
  have f: "first_seq = 1" "1 \<le> unat last_seq" "unat last_seq \<le> Suc (length ps)" by simp_all
  define b where "b = unat last_seq"
  have start: "checked_add_u64 1 1 = Some (2 :: u64)" by (simp add: checked_add_u64_def)
  have last_seq: "last_seq = of_nat b" "Suc (b - 1) = b" "b \<le> Suc (length ps)" using f(2,3) by (simp_all add: b_def)
  show ?thesis
  proof (cases "(2 :: u64) > last_seq")
    case True
    then have "b - 1 = 0" by (simp add: word_less_nat_alt b_def)
    moreover have "s' = s" "e' = e\<lparr>ne_last_data_seq := last_seq\<rparr>"
      using assms(4) o f(1) start True by (simp_all add: nats_recover_frames_def)
    ultimately show ?thesis using last_seq(1,2) by (intro exI [of _ 0]) simp
  next
    case False
    then have two: "2 \<le> b" by (simp add: word_less_nat_alt b_def)
    let ?loop = "nats_recover_loop crc (snd io) (sr_raw (fst io)) cb (of_nat (max chunk_size 1)) (of_nat b) (of_nat 2) (of_nat (2 - 2)) s"
    have res: "?loop = (Inr k, s')" "e' = e\<lparr>ne_last_data_seq := last_seq\<rparr>"
      using assms(4) o f(1) start False by (auto simp: nats_recover_frames_def last_seq(1) split: sum.splits prod.splits)
    have chunk: "frames = take (Suc y - x) (drop (x - 2) ps)"
      if "2 \<le> x" "x \<le> y" "y \<le> b" "read_range_async crc (snd io (of_nat x)) (sr_raw (fst io)) (of_nat x) (of_nat y) = Inr frames"
      for x y frames
    proof -
      have y: "y \<le> Suc (length ps)" "y < 2 ^ 64" "x < 2 ^ 64" using that(2,3) last_seq(3) assms(3) by linarith+
      then have "read_data_messages crc (sr_raw (fst io)) (seq_range (of_nat x) (of_nat y)) = Inr frames"
        using that(2,4) by (auto simp: range_as_messages result_simps)
      from read_range_truthful [OF assms(1-3) that(1) y(1) this y(3)] show ?thesis .
    qed
    then have chunks: "\<forall>x y frames. 2 \<le> x \<and> x \<le> y \<and> y \<le> b \<and>
        read_range_async crc (snd io (of_nat x)) (sr_raw (fst io)) (of_nat x) (of_nat y) = Inr frames \<longrightarrow>
        frames = take (Suc y - x) (drop (x - 2) ps)" by blast
    have c: "0 < max chunk_size 1" "max chunk_size 1 < 2 ^ 64" using assms(5) by (auto simp: USIZE_bound)
    have "b < 2 ^ 64" using last_seq(3) assms(3) by linarith
    note loop = recover_loop_chunks [of b crc "snd io" "sr_raw (fst io)" ps, OF chunks last_seq(3) this c order.refl two, of cb s]
    obtain r s1 where r: "deliver cb 0 (take (b - 1) ps) s = (r, s1)" by fastforce
    have whole: "take (Suc b - 2) (drop (2 - 2) ps) = take (b - 1) ps" "2 - 2 = (0 :: nat)" by simp_all
    from loop have run: "?loop = (case deliver cb (2 - 2) (take (Suc b - 2) (drop (2 - 2) ps)) s of
        (Inl f, s1) \<Rightarrow> (Inl f, s1) | (Inr _, s1) \<Rightarrow> (Inr (of_nat (b - 1)), s1))"
      unfolding res(1) by blast
    from run [unfolded res(1), unfolded whole(1), unfolded whole(2), unfolded r] have "(Inr k, s') = (case r of Inl f \<Rightarrow> (Inl f, s1) | Inr _ \<Rightarrow> (Inr (of_nat (b - 1)), s1))"
      by simp
    then have "deliver cb 0 (take (b - 1) ps) s = (Inr (), s')" using r by (cases r) auto
    then show ?thesis using res(2) last_seq by (intro exI [of _ "b - 1"]) simp
  qed
qed

lemma nats_recover_serves:
  assumes "serves (stream_messages crc ps) (fst io)" and "list_all (\<lambda>p. length p \<le> U32_MAX) ps" and "Suc (length ps) < 2 ^ 64"
    and "\<forall>seq. snd io seq = Inr ()" and "chunk_size \<le> USIZE_MAX"
  shows "nats_recover_frames crc io e chunk_size cb s =
    (case deliver cb 0 ps s of
       (Inl f, s1) \<Rightarrow> (Inl f, s1, e)
     | (Inr _, s1) \<Rightarrow> (Inr (of_nat (length ps)), s1, e\<lparr>ne_last_data_seq := of_nat (Suc (length ps))\<rparr>))"
proof -
  define b where "b = Suc (length ps)"
  have b: "b \<le> Suc (length ps)" "b < 2 ^ 64" "b - 1 = length ps" using assms(3) by (simp_all add: b_def)
  note o = open_data_stream_serves [OF assms(1,3), folded b_def]
  have start: "checked_add_u64 1 1 = Some (2 :: u64)" by (simp add: checked_add_u64_def)
  show ?thesis
  proof (cases "ps = []")
    case True
    then have "(of_nat b :: u64) < 2" by (simp add: b_def word_less_nat_alt)
    then show ?thesis using o start True by (simp add: nats_recover_frames_def b_def)
  next
    case False
    then have two: "2 \<le> b" by (cases ps) (simp_all add: b_def)
    then have lt: "\<not> (of_nat b :: u64) < 2" using b(2) by (simp add: word_less_nat_alt unat_of_nat_u64)
    let ?loop = "nats_recover_loop crc (snd io) (sr_raw (fst io)) cb (of_nat (max chunk_size 1)) (of_nat b) (of_nat 2) (of_nat (2 - 2)) s"
    have reads: "read_range_async crc (snd io (of_nat x)) (sr_raw (fst io)) (of_nat x) (of_nat y) = Inr (take (Suc y - x) (drop (x - 2) ps))"
      if "2 \<le> x" "x \<le> y" "y \<le> b" for x y
    proof -
      have y: "y \<le> Suc (length ps)" "y < 2 ^ 64" "x < 2 ^ 64" using that b by linarith+
      show ?thesis using read_range_serves [OF assms(1-3) that(1) y(1,3)] range_as_messages [OF that(2) y(2)] assms(4)
        by (simp add: result_bind_def map_err_def)
    qed
    have c: "0 < max chunk_size 1" "max chunk_size 1 < 2 ^ 64" using assms(5) by (auto simp: USIZE_bound)
    have chunks: "\<forall>x y frames. 2 \<le> x \<and> x \<le> y \<and> y \<le> b \<and>
        read_range_async crc (snd io (of_nat x)) (sr_raw (fst io)) (of_nat x) (of_nat y) = Inr frames \<longrightarrow>
        frames = take (Suc y - x) (drop (x - 2) ps)"
      using reads by auto
    have whole: "take (Suc b - 2) (drop (2 - 2) ps) = ps" "2 - 2 = (0 :: nat)" by (simp_all add: b_def)
    note chunkwise = recover_loop_chunks [of b crc "snd io" "sr_raw (fst io)" ps, OF chunks b(1,2) c order.refl two, of cb s]
    have run: "?loop = (case deliver cb (2 - 2) (take (Suc b - 2) (drop (2 - 2) ps)) s of
        (Inl f, s1) \<Rightarrow> (Inl f, s1) | (Inr _, s1) \<Rightarrow> (Inr (of_nat (b - 1)), s1))"
    proof (rule disjE [OF chunkwise], assumption, elim exE conjE)
      fix f s1 x y
      assume "2 \<le> x" "x \<le> y" "y \<le> b"
        "read_range_async crc (snd io (of_nat x)) (sr_raw (fst io)) (of_nat x) (of_nat y) = Inl f"
      then show ?thesis using reads by simp
    qed
    have loop: "nats_recover_loop crc (snd io) (sr_raw (fst io)) cb (of_nat (max chunk_size 1)) (of_nat b) 2 0 s =
        (case deliver cb 0 ps s of (Inl f, s1) \<Rightarrow> (Inl f, s1) | (Inr _, s1) \<Rightarrow> (Inr (of_nat (length ps)), s1))"
      using run [unfolded whole(1), unfolded whole(2) b(3)] by simp
    obtain r s1 where r: "deliver cb 0 ps s = (r, s1)" by fastforce
    show ?thesis unfolding nats_recover_frames_def o
      using start lt loop r by (cases r) (simp_all add: b_def del: of_nat_Suc)
  qed
qed

end
