(* ===== verification/Nats_Session.thy ===== *)
theory Nats_Session
  imports Nats_Engine
begin

text \<open>
  What writer sessions on JetStream streams guarantee under \<open>jetstream_law\<close>: any number of sessions that compete
  for one stream, and one session from opening the stream to the events it lands, through the contract
  \<open>storage_engine\<close> that the JetStream engine keeps as the file engine does.
\<close>

section \<open>Competing sessions\<close>

text \<open>Any number of sessions append to one stream, in any interleaving and with any answers; \<open>others\<close> are clients
  that do not run this code. The list records the acknowledged writes: session, sequence number, block.\<close>

inductive fleet_run :: "crc32c \<Rightarrow> 'w publisher \<Rightarrow> ('w \<Rightarrow> bytes \<Rightarrow> bytes list) \<Rightarrow> (nat \<Rightarrow> NatsEngine) \<Rightarrow> 'w \<Rightarrow>
    (nat \<times> u64 \<times> bytes) list \<Rightarrow> (nat \<Rightarrow> NatsEngine) \<Rightarrow> 'w \<Rightarrow> bool" for crc publish view es w where
  idle: "fleet_run crc publish view es w [] es w"
| acknowledged: "fleet_run crc publish view es w acks es1 w1 \<Longrightarrow>
    nats_append_block crc publish m (es1 i, w1) block = (Inr (Landed n), (e', w2)) \<Longrightarrow>
    fleet_run crc publish view es w (acks @ [(i, n, block)]) (es1(i := e')) w2"
| unacknowledged: "fleet_run crc publish view es w acks es1 w1 \<Longrightarrow>
    nats_append_block crc publish m (es1 i, w1) block = (res, (e', w2)) \<Longrightarrow> \<forall>n. res \<noteq> Inr (Landed n) \<Longrightarrow>
    fleet_run crc publish view es w acks (es1(i := e')) w2"
| others: "fleet_run crc publish view es w acks es1 w1 \<Longrightarrow> \<forall>stream. prefix (view w1 stream) (view w2 stream) \<Longrightarrow>
    fleet_run crc publish view es w acks es1 w2"

abbreviation acks_of :: "nat \<Rightarrow> (nat \<times> u64 \<times> bytes) list \<Rightarrow> (nat \<times> u64 \<times> bytes) list" where
  "acks_of i acks \<equiv> filter (\<lambda>a. fst a = i) acks"

definition uninterrupted :: "(nat \<times> u64 \<times> bytes) list \<Rightarrow> bool" where
  "uninterrupted acks \<longleftrightarrow> (\<forall>p q r. p < q \<and> q < r \<and> r < length acks \<and> fst (acks ! p) = fst (acks ! r) \<longrightarrow>
     fst (acks ! q) = fst (acks ! p))"

definition fleet_inv :: "bytes \<Rightarrow> bytes list \<Rightarrow> (nat \<times> u64 \<times> bytes) list \<Rightarrow> (nat \<Rightarrow> NatsEngine) \<Rightarrow> bool" where
  "fleet_inv name ms acks es \<longleftrightarrow>
     (\<forall>i. ne_data_stream_name (es i) = name) \<and>
     sorted_wrt (<) (map (\<lambda>(i, n, block). unat n) acks) \<and>
     (\<forall>(i, n, block) \<in> set acks. 0 < unat n \<and> unat n \<le> length ms \<and> ms ! (unat n - 1) = block) \<and>
     (\<forall>i. acks_of i acks \<noteq> [] \<longrightarrow> ne_last_data_seq (es i) = fst (snd (last (acks_of i acks)))) \<and>
     uninterrupted acks"

lemma uninterrupted_snoc:
  assumes "uninterrupted acks" and "acks_of (fst a) acks \<noteq> [] \<Longrightarrow> fst (last acks) = fst a"
  shows "uninterrupted (acks @ [a])"
  unfolding uninterrupted_def
proof (intro allI impI)
  fix p q r
  let ?as = "acks @ [a]" and ?l = "length acks - 1"
  assume h: "p < q \<and> q < r \<and> r < length ?as \<and> fst (?as ! p) = fst (?as ! r)"
  show "fst (?as ! q) = fst (?as ! p)"
  proof (cases "r < length acks")
    case True
    then have at: "?as ! x = acks ! x" if "x \<le> r" for x using that by (simp add: nth_append)
    have "p < q \<and> q < r \<and> r < length acks \<and> fst (acks ! p) = fst (acks ! r)" using h True at [of p] at [of r] by auto
    with assms(1) have "fst (acks ! q) = fst (acks ! p)" unfolding uninterrupted_def by blast
    then show ?thesis using h at [of p] at [of q] by simp
  next
    case False
    then have r: "r = length acks" "fst (acks ! p) = fst a" "p < length acks" "q < length acks"
      using h by (auto simp: nth_append)
    then have "acks ! p \<in> set (acks_of (fst a) acks)" by simp
    then have l: "fst (acks ! ?l) = fst a" using assms(2) r(3) last_conv_nth [of acks] by fastforce
    show ?thesis
    proof (cases "q = ?l")
      case True
      then show ?thesis using l r by (simp add: nth_append)
    next
      case False
      then have "p < q \<and> q < ?l \<and> ?l < length acks \<and> fst (acks ! p) = fst (acks ! ?l)" using h r l by auto
      with assms(1) have "fst (acks ! q) = fst (acks ! p)" unfolding uninterrupted_def by blast
      then show ?thesis using r by (simp add: nth_append)
    qed
  qed
qed

lemma fleet_inv_grows:
  assumes "fleet_inv name ms acks es" and "prefix ms ms'"
    and "\<And>i. ne_data_stream_name (es' i) = ne_data_stream_name (es i) \<and> ne_last_data_seq (es' i) = ne_last_data_seq (es i)"
  shows "fleet_inv name ms' acks es'"
proof -
  have "k < length ms \<Longrightarrow> ms' ! k = ms ! k" for k using assms(2) by (auto simp: prefix_def nth_append)
  moreover have "length ms \<le> length ms'" using assms(2) by (simp add: prefix_length_le)
  ultimately have "\<forall>(i, n, block) \<in> set acks. 0 < unat n \<and> unat n \<le> length ms' \<and> ms' ! (unat n - 1) = block"
    using assms(1) unfolding fleet_inv_def by fastforce
  then show ?thesis using assms(1,3) by (simp add: fleet_inv_def)
qed

text \<open>A session that lands sits at the end of the stream, so if it has landed before, nobody has since.\<close>

lemma fleet_inv_lands:
  assumes inv: "fleet_inv name ms acks es"
    and "length ms \<le> unat (ne_last_data_seq (es i))" and "unat n = unat (ne_last_data_seq (es i)) + 1"
    and "prefix ms ms'" and "unat n \<le> length ms'" and "ms' ! (unat n - 1) = block"
    and e': "ne_last_data_seq e' = n" "ne_data_stream_name e' = name"
  shows "fleet_inv name ms' (acks @ [(i, n, block)]) (es(i := e'))"
proof -
  let ?acks = "acks @ [(i, n, block)]"
  have old: "0 < unat k \<and> unat k \<le> length ms \<and> ms ! (unat k - 1) = b" if "(j, k, b) \<in> set acks" for j k b
  proof -
    have "\<forall>(j, k, b) \<in> set acks. 0 < unat k \<and> unat k \<le> length ms \<and> ms ! (unat k - 1) = b" using inv by (simp add: fleet_inv_def)
    from bspec [OF this that] show ?thesis by simp
  qed
  have sorted: "sorted_wrt (<) (map (\<lambda>(i, n, block). unat n) ?acks)"
  proof -
    have "unat (fst (snd a)) < unat n" if "a \<in> set acks" for a
      using old [of "fst a" "fst (snd a)" "snd (snd a)"] that assms(2,3) by simp
    then show ?thesis using inv by (auto simp: fleet_inv_def sorted_wrt_append)
  qed
  have "fst (last acks) = i" if "acks_of i acks \<noteq> []"
  proof -
    let ?l = "last (acks_of i acks)"
    have l: "?l \<in> set acks" "fst ?l = i" using last_in_set [OF that] by auto
    then have "acks \<noteq> []" by auto
    then obtain bs where acks: "acks = bs @ [last acks]" by (metis append_butlast_last_id)
    have last_seq: "fst (snd ?l) = ne_last_data_seq (es i)" using inv that by (simp add: fleet_inv_def)
    have "unat (fst (snd (last acks))) \<le> length ms"
      using old [of "fst (last acks)" "fst (snd (last acks))" "snd (snd (last acks))"] \<open>acks \<noteq> []\<close> by simp
    then have le: "unat (fst (snd (last acks))) \<le> unat (fst (snd ?l))" using assms(2) last_seq by simp
    have "unat (fst (snd a)) < unat (fst (snd (last acks)))" if "a \<in> set bs" for a
    proof -
      have "sorted_wrt (<) (map (\<lambda>(i, n, block). unat n) (bs @ [last acks]))" using inv acks by (simp add: fleet_inv_def)
      then show ?thesis using that by (simp add: sorted_wrt_append case_prod_beta)
    qed
    then have "?l \<notin> set bs" using le by fastforce
    then have "?l = last acks" using l(1) acks by (metis Un_iff empty_iff insert_iff list.set(1) list.set(2) set_append)
    then show ?thesis using l(2) by simp
  qed
  then have "uninterrupted ?acks" using inv by (intro uninterrupted_snoc) (simp_all add: fleet_inv_def)
  moreover have "\<forall>(j, k, b) \<in> set ?acks. 0 < unat k \<and> unat k \<le> length ms' \<and> ms' ! (unat k - 1) = b"
  proof -
    have "fleet_inv name ms' acks es" using fleet_inv_grows [OF inv assms(4), of es] by simp
    then show ?thesis using assms(3,5,6) by (auto simp: fleet_inv_def)
  qed
  ultimately show ?thesis using sorted inv e' by (simp add: fleet_inv_def)
qed

lemma fleet_run_inv:
  assumes "fleet_run crc publish view es w acks es' w'" and "jetstream_law publish view" and "\<forall>i. ne_data_stream_name (es i) = name"
  shows "fleet_inv name (view w' name) acks es'"
  using assms(1)
proof (induction rule: fleet_run.induct)
  case idle
  then show ?case using assms(3) by (simp add: fleet_inv_def uninterrupted_def)
next
  case (acknowledged acks es1 w1 m i block n e' w2)
  have name: "ne_data_stream_name (es1 i) = name" using acknowledged.IH by (simp add: fleet_inv_def)
  from acknowledged.hyps(2) show ?case
  proof (cases rule: nats_append_cases)
    case (landed k)
    note ack = jetstream_acknowledged [OF assms(2) landed(4)]
    show ?thesis
      by (rule fleet_inv_lands [OF acknowledged.IH])
        (use ack landed name jetstream_kept [OF assms(2) landed(4)] in auto)
  qed simp_all
next
  case (unacknowledged acks es1 w1 m i block res e' w2)
  have "ne_data_stream_name e' = ne_data_stream_name (es1 i) \<and> ne_last_data_seq e' = ne_last_data_seq (es1 i)"
    using unacknowledged.hyps(2)
    by (cases rule: nats_append_cases) (use unacknowledged.hyps(3) in auto)
  then show ?case
    by (intro fleet_inv_grows [OF unacknowledged.IH nats_append_world [OF unacknowledged.hyps(2) assms(2)]]) simp
next
  case (others acks es1 w1 w2)
  then show ?case by (intro fleet_inv_grows [OF others.IH]) simp_all
qed

section \<open>One session\<close>

text \<open>The engine methods act on the engine alone; the world is carried along.\<close>

definition on_world :: "('e, 's) recover_method \<Rightarrow> ('e \<times> 'w, 's) recover_method" where
  "on_world recover s chunk_size cb a = (case recover (fst s) chunk_size cb a of (res, a', e') \<Rightarrow> (res, a', (e', snd s)))"

abbreviation nats_holds :: "blake3 \<Rightarrow> crc32c \<Rightarrow> 'w publisher \<Rightarrow> ('w \<Rightarrow> bytes \<Rightarrow> bytes list) \<Rightarrow> EventEnvelope list \<Rightarrow>
    (NatsEngine \<times> 'w) Store \<Rightarrow> bool" where
  "nats_holds H crc publish view log st \<equiv> store_holds (nats_stores crc publish view) nats_unsure H crc log st"

lemma nats_writer_opens:
  assumes "jetstream_law publish view" and "valid_log H log" and "log_fits log" and "list_all EventEnvelope_wf log"
    and "list_all (\<lambda>p. length p \<le> U32_MAX) (map envelope_bytes log)" and "Suc (length log) < 2 ^ 64"
    and "ne_uncertain_diagnostic e = None"
    and "view w (ne_data_stream_name e) = stream_messages crc (map envelope_bytes log)"
    and "serves (view w (ne_data_stream_name e)) (fst io)" and "\<forall>seq. snd io seq = Inr ()"
  shows "\<exists>st. open_writer H crc (on_world (nats_recover_frames crc io)) (e, w) = Inr st \<and>
    nats_holds H crc publish view log st \<and>
    st_engine st = (e\<lparr>ne_last_data_seq := of_nat (Suc (length log))\<rparr>, w)"
proof -
  let ?ps = "map envelope_bytes log"
  obtain idx where idx: "process_frames H SessionIndex_new ?ps = Inr idx" "indexes H log idx"
    using log_processed [OF assms(2-5)] .
  have "nats_recover_frames crc io e 64 (writer_on_frame H crc) (RollingCommitment_new, SessionIndex_new) =
      (Inr (of_nat (length log)), (rolled crc ?ps, idx), e\<lparr>ne_last_data_seq := of_nat (Suc (length log))\<rparr>)"
    using nats_recover_serves [of crc ?ps io 64 e "writer_on_frame H crc"] assms(5,6,8-10)
      deliver_writer [OF assms(5) idx(1), of crc 0 RollingCommitment_new]
    by (simp add: USIZE_bound rolled_def del: of_nat_Suc)
  then show ?thesis
    using idx(2) assms unat_of_nat_u64 [OF assms(6)]
    by (simp add: open_writer_def on_world_def store_holds_def nats_stores_def session_unsure_def del: of_nat_Suc)
qed

text \<open>Whatever a session opens on a stream of which the answers are true is a prefix of what the stream holds.\<close>

lemma nats_writer_opened:
  assumes "open_writer H crc (on_world (nats_recover_frames crc io)) (e, w) = Inr st"
    and "truthful (stream_messages crc ps) (fst io)" and "list_all (\<lambda>p. length p \<le> U32_MAX) ps" and "Suc (length ps) < 2 ^ 64"
  obtains j where "j \<le> length ps" and "st_engine st = (e\<lparr>ne_last_data_seq := of_nat (Suc j)\<rparr>, w)"
    and "deliver (writer_on_frame H crc) 0 (take j ps) (RollingCommitment_new, SessionIndex_new) =
      (Inr (), (st_rolling_commitment st, st_fiber_index st))"
proof -
  from assms(1) obtain k r idx e' where
    "nats_recover_frames crc io e 64 (writer_on_frame H crc) (RollingCommitment_new, SessionIndex_new) = (Inr k, (r, idx), e')"
    "st_engine st = (e', w)" "st_rolling_commitment st = r" "st_fiber_index st = idx"
    by (auto simp: open_writer_def on_world_def split: prod.splits sum.splits)
  moreover have "(64 :: nat) \<le> USIZE_MAX" by (simp add: USIZE_bound)
  ultimately show thesis using nats_recover_truthful [OF assms(2-4), of e 64 "writer_on_frame H crc"] that by metis
qed

text \<open>A fiber operation changes the engine by at most one append.\<close>

lemma append_frame_engine:
  "append_frame_verdict H crc unsure chk app st pl = (res, st') \<Longrightarrow>
    st_engine st' = st_engine st \<or> (\<exists>block r. app (st_engine st) block = (r, st_engine st'))"
  by (auto simp: append_frame_verdict_def Let_def split: if_splits sum.splits prod.splits WriteLandingVerdict.splits)

lemma fiber_operation_engine:
  assumes "fiber_operation oper H crc unsure chk chk' app st f i pl = (res, st')"
  shows "st_engine st' = st_engine st \<or> (\<exists>block r. app (st_engine st) block = (r, st_engine st'))"
proof (cases "result_bind (check_session_authority unsure chk st) (\<lambda>_. result_bind (store_fiber H unsure st f)
    (\<lambda>handle. handle_step H oper handle i pl))")
  case (Inl err)
  then show ?thesis using assms by (simp add: fiber_operation_def)
next
  case (Inr r)
  obtain verdict st1 where v: "append_envelope_verdict H crc unsure chk' app st (fst r) = (verdict, st1)" by fastforce
  then have "st' = st1" using assms Inr
    by (cases r) (auto simp: fiber_operation_def split: sum.splits WriteLandingVerdict.splits)
  with v show ?thesis
    by (auto simp: append_envelope_verdict_def split: sum.splits dest: append_frame_engine)
qed

definition stream_of :: "('w \<Rightarrow> bytes \<Rightarrow> bytes list) \<Rightarrow> (NatsEngine \<times> 'w) Store \<Rightarrow> bytes list" where
  "stream_of view st = view (snd (st_engine st)) (ne_data_stream_name (fst (st_engine st)))"

lemma stream_of_appended:
  assumes "jetstream_law publish view"
    and "st_engine st' = st_engine st \<or> (\<exists>block r. nats_append_block crc publish a (st_engine st) block = (r, st_engine st'))"
  shows "prefix (stream_of view st) (stream_of view st')"
  using assms(2)
proof (elim disjE exE)
  fix block r
  assume app: "nats_append_block crc publish a (st_engine st) block = (r, st_engine st')"
  obtain e w e' w' where s: "st_engine st = (e, w)" "st_engine st' = (e', w')" by fastforce
  from app [unfolded s] have "ne_data_stream_name e' = ne_data_stream_name e"
    by (cases rule: nats_append_cases) simp_all
  with nats_append_world [OF app [unfolded s] assms(1)] show ?thesis by (simp add: stream_of_def s)
qed (simp add: stream_of_def)

lemma stream_of_grows:
  assumes "jetstream_law publish view"
    and "fiber_operation oper H crc unsure chk chk' (nats_append_block crc publish a) st f i pl = (res, st')"
  shows "prefix (stream_of view st) (stream_of view st')"
  by (rule stream_of_appended [OF assms(1) fiber_operation_engine [OF assms(2)]])

lemma stream_of_frame_grows:
  assumes "jetstream_law publish view"
    and "append_frame_verdict H crc unsure chk (nats_append_block crc publish a) st frame = (res, st')"
  shows "prefix (stream_of view st) (stream_of view st')"
  by (rule stream_of_appended [OF assms(1) append_frame_engine [OF assms(2)]])

lemma take_grows: "prefix xs zs \<Longrightarrow> take n xs = ys \<Longrightarrow> length ys = n \<Longrightarrow> take n zs = ys"
  using prefix_take by blast

text \<open>Every event that landed is in the stream at its place, also when the session has become uncertain.\<close>

lemma nats_session_stored:
  assumes "session_run H crc nats_unsure (nats_check crc) (nats_append_block crc publish) st es st'"
    and "nats_holds H crc publish view log st" and "digest H" and "jetstream_law publish view"
  shows "take (Suc (length (log @ es))) (stream_of view st') = stream_messages crc (map envelope_bytes (log @ es))"
  using assms
proof (induction rule: session_run.induct)
  case (finished st)
  then show ?case by (simp add: store_holds_def nats_stores_def stream_of_def)
next
  case (landed st es st1 f i oper c1 c2 a pl env st2)
  have "\<not> session_unsure nats_unsure st1" using nats_engine.fiber_operation_unsure landed.hyps(4) by fastforce
  with nats_engine.session_run_holds [OF landed.hyps(1) landed.prems(1,2)]
  have "nats_holds H crc publish view (log @ es) st1" by blast
  from nats_engine.fiber_operation_landed [OF landed.hyps(4) this landed.prems(2) landed.hyps(2,3)]
  have "nats_holds H crc publish view ((log @ es) @ [env]) st2" by blast
  then show ?case by (simp add: store_holds_def nats_stores_def stream_of_def)
next
  case (undetermined st es st1 oper c1 c2 a f i pl n st2)
  show ?case by (rule take_grows [OF stream_of_grows [OF undetermined.prems(3) undetermined.hyps(2)] undetermined.IH [OF undetermined.prems]]) simp
next
  case (refused st es st1 oper c1 c2 a f i pl err st2)
  show ?case by (rule take_grows [OF stream_of_grows [OF refused.prems(3) refused.hyps(2)] refused.IH [OF refused.prems]]) simp
next
  case (frame_landed st es st1 c a frame n st2 env)
  have "\<not> session_unsure nats_unsure st1" using append_frame_unsure frame_landed.hyps(2) by fastforce
  with nats_engine.session_run_holds [OF frame_landed.hyps(1) frame_landed.prems(1,2)]
  have "nats_holds H crc publish view (log @ es) st1" by blast
  from nats_engine.frame_appended [OF frame_landed.hyps(2) this frame_landed.hyps(3)]
  have "nats_holds H crc publish view ((log @ es) @ [env]) st2" by blast
  then show ?case by (simp add: store_holds_def nats_stores_def stream_of_def)
next
  case (frame_undetermined st es st1 c a frame n st2)
  show ?case
    by (rule take_grows [OF stream_of_frame_grows [OF frame_undetermined.prems(3) frame_undetermined.hyps(2)]
          frame_undetermined.IH [OF frame_undetermined.prems]]) simp
next
  case (frame_refused st es st1 c a frame err st2)
  show ?case
    by (rule take_grows [OF stream_of_frame_grows [OF frame_refused.prems(3) frame_refused.hyps(2)]
          frame_refused.IH [OF frame_refused.prems]]) simp
qed

section \<open>A sample server\<close>

text \<open>A server with a single stream, whose state is the list of its messages, and answers of a server that holds a
  given stream; the witnesses run on them.\<close>

definition single_stream :: "bytes list publisher" where
  "single_stream req ms =
    (case pr_expected_last req of
       Some n \<Rightarrow>
         if unat n = length ms \<and> Suc (length ms) < 2 ^ 64 then (Ack (pr_expected_stream req) (n + 1), ms @ [pr_payload req])
         else (Ack_error \<lparr>pe_wrong_last_sequence_kind = True, pe_source = None\<rparr>, ms)
     | None \<Rightarrow> (Ack (pr_expected_stream req) (of_nat (Suc (length ms))), ms @ [pr_payload req]))"

abbreviation the_stream :: "bytes list \<Rightarrow> bytes \<Rightarrow> bytes list" where
  "the_stream ms name \<equiv> ms"

lemma single_stream_law: "jetstream_law single_stream the_stream"
  by (auto simp: jetstream_law_def single_stream_def unat_word_ariths nth_append split: option.splits if_splits)

definition reads_of :: "bytes list \<Rightarrow> StreamReads" where
  "reads_of ms = \<lparr>sr_get_stream = Inr (),
     sr_info = Inr \<lparr>in_messages = of_nat (length ms), in_first_sequence = 1, in_last_sequence = of_nat (length ms), in_subjects = []\<rparr>,
     sr_raw = (\<lambda>seq. if 0 < seq \<and> unat seq \<le> length ms then Inr (ms ! (unat seq - 1)) else Inl NoMessageFound)\<rparr>"

lemma reads_of_serves: "length ms < 2 ^ 64 \<Longrightarrow> serves ms (reads_of ms)"
proof -
  assume len: "length ms < 2 ^ 64"
  then have "unat (of_nat (k + 1) :: u64) = k + 1" if "k < length ms" for k using that by (intro unat_of_nat_u64) simp
  then have "(of_nat (k + 1) :: u64) \<noteq> 0" if "k < length ms" for k using that by fastforce
  with \<open>\<And>k. k < length ms \<Longrightarrow> unat (of_nat (k + 1) :: u64) = k + 1\<close> show ?thesis
    using len unat_of_nat_u64 [OF len]
    by (auto simp: serves_def truthful_def reads_of_def word_gt_0 simp del: of_nat_add of_nat_Suc split: if_splits)
qed

definition sample_nats_engine :: NatsEngine where
  "sample_nats_engine = \<lparr>ne_stem = ascii ''s'', ne_meta_stream_name = ascii ''s_meta'', ne_data_stream_name = ascii ''s_data'',
     ne_meta_subject = ascii ''s.meta'', ne_data_subject = ascii ''s.data'', ne_carried_epoch = 4, ne_claim = None,
     ne_meta_records = MetaRecords_default, ne_admission = Ready, ne_last_data_seq = 1, ne_data_events_landed = False,
     ne_read_all_count = 0, ne_publish_timeout = 5, ne_simulate_indeterminate = False, ne_uncertain = False,
     ne_uncertain_diagnostic = None\<rparr>"

definition sample_claim_bytes :: bytes where
  "sample_claim_bytes = the (OwnershipRecord_encode (OwnershipClaim sample_claim_record))"

abbreviation sample_meta_reads :: StreamReads where
  "sample_meta_reads \<equiv> reads_of (stream_messages sample_crc [sample_claim_bytes])"

lemma sample_claim_encoded:
  "OwnershipRecord_encode (OwnershipClaim sample_claim_record) = Some sample_claim_bytes" "length sample_claim_bytes = 69"
  by (simp_all add: sample_claim_bytes_def sample_claim_record_def OwnershipRecord_encode_def u32_try_from_def U32_bound)

lemma sample_meta_authorises: "nats_authorised sample_crc sample_meta_reads sample_nats_engine"
proof -
  have "serves (stream_messages sample_crc [sample_claim_bytes]) sample_meta_reads" by (rule reads_of_serves) simp
  from meta_records_serves [OF this] have "read_meta_records_async sample_crc sample_meta_reads =
      read_meta_frames MetaRecords_default [sample_claim_bytes]"
    by (simp add: sample_claim_encoded(2) U32_bound)
  also have "\<dots> = apply_meta_record MetaRecords_default (OwnershipClaim sample_claim_record)"
    by (rule read_meta_frames_record [OF _ sample_claim_encoded(1)]) (simp add: sample_claim_record_def)
  finally show ?thesis
    by (auto simp: nats_authorised_def sample_nats_engine_def sample_claim_record_def MetaRecords_default_def)
qed

lemma sample_nats_lands:
  "nats_append_block sample_crc single_stream sample_meta_reads (sample_nats_engine, [m]) block =
    (Inr (Landed 2), (sample_nats_engine\<lparr>ne_last_data_seq := 2, ne_data_events_landed := True\<rparr>, [m, block]))"
proof -
  have "nats_check_authority sample_crc sample_meta_reads sample_nats_engine = Inr ()"
    using sample_meta_authorises by (simp add: nats_check_authority_iff)
  then show ?thesis
    by (simp add: nats_append_block_def publish_request_def single_stream_def settle_publish_def sample_nats_engine_def)
qed

text \<open>The session opened on a stream that holds the container header alone, and a genesis event that lands in it.\<close>

definition sample_nats_store :: "(NatsEngine \<times> bytes list) Store" where
  "sample_nats_store = \<lparr>st_engine = (sample_nats_engine, stream_messages sample_crc []),
     st_rolling_commitment = RollingCommitment_new, st_fiber_index = SessionIndex_new, st_broken_reader_cause = None,
     st_uncertain = False, st_has_diagnostic = False\<rparr>"

abbreviation sample_answers :: "StreamReads \<times> (u64 \<Rightarrow> GetStreamError + unit)" where
  "sample_answers \<equiv> (reads_of (stream_messages sample_crc []), \<lambda>seq. Inr ())"

lemma sample_nats_opens:
  "open_writer sample_hash sample_crc (on_world (nats_recover_frames sample_crc sample_answers))
    (sample_nats_engine, stream_messages sample_crc []) = Inr sample_nats_store"
proof -
  have "serves (stream_messages sample_crc []) (fst sample_answers)" using reads_of_serves by simp
  from nats_recover_serves [OF this, of 64 sample_nats_engine "writer_on_frame sample_hash sample_crc" "(RollingCommitment_new, SessionIndex_new)"]
  show ?thesis by (simp add: open_writer_def on_world_def USIZE_bound sample_nats_store_def sample_nats_engine_def)
qed

lemma sample_nats_run:
  "\<exists>st'. session_run sample_hash sample_crc nats_unsure (nats_check sample_crc) (nats_append_block sample_crc single_stream)
    sample_nats_store [sample_event] st'"
proof -
  have holds: "nats_holds sample_hash sample_crc single_stream the_stream [] sample_nats_store"
    using session.keeps_start [of sample_hash] single_stream_law
    by (simp add: store_holds_def sample_nats_store_def nats_stores_def sample_nats_engine_def rolled_Nil session_unsure_def)
  have chk: "nats_check sample_crc sample_meta_reads (st_engine sample_nats_store) = Inr ()"
    using sample_meta_authorises by (simp add: sample_nats_store_def nats_check_authority_iff)
  have fiber: "store_fiber sample_hash nats_unsure sample_nats_store zero_id = Inr (FiberHandle_new zero_id)"
    by (simp add: store_fiber_def session_unsure_def sample_nats_store_def sample_nats_engine_def index_fiber_def SessionIndex_new_def)
  obtain h' where step: "handle_step sample_hash Append (FiberHandle_new zero_id) (replicate 16 1) [] = Inr (sample_event, h')"
    using sample_handle(2) by blast
  have "nats_append_block sample_crc single_stream sample_meta_reads (st_engine sample_nats_store) block =
      (Inr (Landed 2), (sample_nats_engine\<lparr>ne_last_data_seq := 2, ne_data_events_landed := True\<rparr>,
        [ContainerHeader_to_bytes ContainerHeader_new, block]))" for block
    using sample_nats_lands by (simp add: sample_nats_store_def stream_messages_def)
  from nats_engine.fiber_operation_lands_on [where chk = "nats_check sample_crc sample_meta_reads" and
      chk' = "nats_check sample_crc sample_meta_reads", OF holds sample_digest _ _ chk chk fiber step sample_event_new sample_event_valid(3) sample_event_fits this]
  obtain st' where "fiber_operation Append sample_hash sample_crc nats_unsure (nats_check sample_crc sample_meta_reads)
      (nats_check sample_crc sample_meta_reads) (nats_append_block sample_crc single_stream sample_meta_reads)
      sample_nats_store zero_id (replicate 16 1) [] = (Inr (Landed sample_event), st')" by auto
  from session_run.landed [where check = "nats_check sample_crc" and app = "nats_append_block sample_crc single_stream" and
      a = sample_meta_reads and ?c1.0 = sample_meta_reads and ?c2.0 = sample_meta_reads, OF session_run.finished _ _ this]
  show ?thesis by auto
qed

section \<open>Agreement of the engines\<close>

lemma container_room: "length (container_bytes crc ps) \<le> USIZE_MAX \<Longrightarrow> Suc (length ps) < 2 ^ 64"
proof -
  have "length (container_bytes crc ps) \<ge> length ps + 12"
    by (induction ps rule: rev_induct) (simp_all add: container_bytes_snoc, simp add: container_bytes_def frames_bytes_def ContainerHeader_to_bytes_def)
  then show "length (container_bytes crc ps) \<le> USIZE_MAX \<Longrightarrow> Suc (length ps) < 2 ^ 64" by (simp add: USIZE_bound)
qed

lemma read_all_stored:
  assumes "engine_stores crc ps e" and "all_ok io" and "length (container_bytes crc ps) \<le> USIZE_MAX"
  shows "fst (read_all crc io e) = Inr ps"
  using scan_container_stored(1) [OF _ assms(2,3)] assms(1) by (simp add: read_all_def engine_stores_def Let_def)

lemma read_chunk_any:
  assumes "engine_stores crc ps e" and "all_ok io" and "length (container_bytes crc ps) \<le> USIZE_MAX"
  shows "fst (read_chunk crc io e start_index c) = Inr (take c (drop (unat start_index) ps))"
proof -
  have small: "length ps \<le> USIZE_MAX" using frames_in_container [of ps crc] assms(3) by linarith
  obtain e1 where "read_all crc io e = (Inr ps, e1)" using read_all_stored [OF assms] by (metis prod.collapse)
  moreover have "subslice k (min (saturating_add k c) (length ps)) ps = take c (drop k ps)" if "k < length ps" for k
    using that small by (auto simp: subslice_def saturating_add_def min_def)
  ultimately show ?thesis by (auto simp: read_chunk_def Let_def)
qed

section \<open>Properties\<close>

text \<open>C16: the two storage engines are interchangeable for readers. When a file and an event stream hold the same
  payloads and the operating system and the server answer, reading everything, reading any chunk (empty chunks and
  starts beyond the end included) and recovering in chunks of any size give the same results, and the callback of
  the recovery is called with the same frames and the same numbers in the same order.\<close>

theorem engines_agree:
  assumes "engine_stores crc ps fe" and "all_ok fio" and "length (container_bytes crc ps) \<le> USIZE_MAX"
    and "serves (stream_messages crc ps) (fst io)" and "\<forall>seq. snd io seq = Inr ()" and "c \<le> USIZE_MAX"
  shows "fst (nats_read_all crc (fst io) ne) = fst (read_all crc fio fe) \<and>
    fst (nats_read_chunk crc (fst io) ne start_index c) = fst (read_chunk crc fio fe start_index c) \<and>
    (case nats_recover_frames crc io ne c cb s of (res, s1, _) \<Rightarrow> (res, s1)) =
      (case recover_frames crc fio fe c' cb s of (res, s1, _) \<Rightarrow> (res, s1))"
proof (intro conjI)
  have small: "list_all (\<lambda>p. length p \<le> U32_MAX) ps" and len: "Suc (length ps) < 2 ^ 64"
    using assms(1) container_room [OF assms(3)] by (simp_all add: engine_stores_def)
  show "fst (nats_read_all crc (fst io) ne) = fst (read_all crc fio fe)"
    using data_frames_serves [OF assms(4) small len] read_all_stored [OF assms(1-3)] by (simp add: nats_read_all_def)
  show "fst (nats_read_chunk crc (fst io) ne start_index c) = fst (read_chunk crc fio fe start_index c)"
    using read_chunk_serves [OF assms(4) small len assms(6)] read_chunk_any [OF assms(1-3)] by (simp add: nats_read_chunk_def)
  have "scan_container crc fio (container_bytes crc ps) = Inr ps" using scan_container_stored(1) [OF small assms(2,3)] .
  moreover obtain r s1 where "deliver cb 0 ps s = (r, s1)" by fastforce
  ultimately show "(case nats_recover_frames crc io ne c cb s of (res, s1, _) \<Rightarrow> (res, s1)) =
      (case recover_frames crc fio fe c' cb s of (res, s1, _) \<Rightarrow> (res, s1))"
    using nats_recover_serves [OF assms(4) small len assms(5,6), of ne cb s] assms(1)
    by (cases r) (simp_all add: recover_frames_def engine_stores_def Let_def)
qed

theorem engines_agree_witness:
  "fst (nats_read_chunk (\<lambda>b. 0) (reads_of (stream_messages (\<lambda>b. 0) [[1], [2, 3], [4]])) sample_nats_engine 1 2) =
    fst (read_chunk (\<lambda>b. 0)
      \<lparr>ri_seek_ok = True, ri_scan_seek_ok = True, ri_len_ok = True, ri_read_ok = True, ri_restore_ok = True\<rparr>
      (sample_engine\<lparr>fe_file := Some (container_bytes (\<lambda>b. 0) [[1], [2, 3], [4]])\<rparr>) 1 2)"
proof -
  let ?ps = "[[1], [2, 3], [4]]" and ?io = "\<lparr>ri_seek_ok = True, ri_scan_seek_ok = True, ri_len_ok = True, ri_read_ok = True, ri_restore_ok = True\<rparr>"
  let ?answers = "(reads_of (stream_messages (\<lambda>b. 0) ?ps), \<lambda>seq. Inr ())"
  have stored: "engine_stores (\<lambda>b. 0) ?ps (sample_engine\<lparr>fe_file := Some (container_bytes (\<lambda>b. 0) ?ps)\<rparr>)" "all_ok ?io"
    "length (container_bytes (\<lambda>b. 0) ?ps) \<le> USIZE_MAX"
    by (simp_all add: engine_stores_def all_ok_def U32_bound USIZE_bound container_bytes_def frames_bytes_def ContainerHeader_to_bytes_def)
  have answers: "serves (stream_messages (\<lambda>b. 0) ?ps) (fst ?answers)" "\<forall>seq. snd ?answers seq = Inr ()" "2 \<le> USIZE_MAX"
    using reads_of_serves by (simp_all add: USIZE_bound)
  show ?thesis
    using engines_agree [OF stored answers, THEN conjunct2, THEN conjunct1, of sample_nats_engine 1] by simp
qed

text \<open>C6: however many writer sessions compete for one event stream, whatever the server answers them and whatever
  other clients append, the acknowledged writes have increasing sequence numbers, each one is still stored under its
  number at the end, and the sessions never alternate: once another session has been acknowledged, an earlier one
  never is again.\<close>

theorem acknowledged_writes_kept:
  assumes "jetstream_law publish view" and "fleet_run crc publish view es w acks es' w'"
    and "\<forall>i. ne_data_stream_name (es i) = name"
  shows "sorted_wrt (<) (map (\<lambda>(i, n, block). unat n) acks) \<and>
    (\<forall>(i, n, block) \<in> set acks. 0 < unat n \<and> unat n \<le> length (view w' name) \<and> view w' name ! (unat n - 1) = block) \<and>
    (\<forall>p q r. p < q \<and> q < r \<and> r < length acks \<and> fst (acks ! p) = fst (acks ! r) \<longrightarrow> fst (acks ! q) = fst (acks ! p))"
  using fleet_run_inv [OF assms(2,1,3)] unfolding fleet_inv_def uninterrupted_def by (elim conjE, intro conjI)

theorem acknowledged_writes_kept_witness:
  "\<exists>es'. fleet_run sample_crc single_stream the_stream (\<lambda>i. sample_nats_engine) [[0]] [(7, 2, [9])] es' [[0], [9]] \<and>
    [[0], [9]] ! (unat (2 :: u64) - 1) = [9 :: byte]"
proof -
  let ?es = "\<lambda>i :: nat. sample_nats_engine"
  have "fleet_run sample_crc single_stream the_stream ?es [[0]] ([] @ [(7, 2, [9])])
      (?es(7 := sample_nats_engine\<lparr>ne_last_data_seq := 2, ne_data_events_landed := True\<rparr>)) [[0], [9]]"
    by (rule fleet_run.acknowledged [OF fleet_run.idle]) (rule sample_nats_lands)
  then have run: "fleet_run sample_crc single_stream the_stream ?es [[0]] [(7, 2, [9])]
      (?es(7 := sample_nats_engine\<lparr>ne_last_data_seq := 2, ne_data_events_landed := True\<rparr>)) [[0], [9]]" by simp
  have "\<forall>i :: nat. ne_data_stream_name (?es i) = ascii ''s_data''" by (simp add: sample_nats_engine_def)
  from acknowledged_writes_kept [OF single_stream_law run this]
  have "\<forall>(i, n, block) \<in> set [(7 :: nat, 2 :: u64, [9 :: byte])]. 0 < unat n \<and> unat n \<le> length [[0 :: byte], [9]] \<and> [[0], [9]] ! (unat n - 1) = block"
    by (elim conjE)
  with run show ?thesis by (intro exI conjI) simp_all
qed

text \<open>C10: a writer session on an event stream that holds a valid log opens, and whatever fiber operations it performs
  and whatever the server answers, the envelopes that land extend the log to a valid one whose frames are stored
  right behind the earlier ones, with nothing in between; that stays so when the session has become uncertain, and
  then every further operation is refused.\<close>

theorem nats_session_extends_log:
  assumes "jetstream_law publish view" and "digest H" and "valid_log H log" and "log_fits log" and "list_all EventEnvelope_wf log"
    and "list_all (\<lambda>p. length p \<le> U32_MAX) (map envelope_bytes log)" and "Suc (length log) < 2 ^ 64"
    and "ne_uncertain_diagnostic e = None"
    and "view w (ne_data_stream_name e) = stream_messages crc (map envelope_bytes log)"
    and "serves (view w (ne_data_stream_name e)) (fst io)" and "\<forall>seq. snd io seq = Inr ()"
  shows "\<exists>st. open_writer H crc (on_world (nats_recover_frames crc io)) (e, w) = Inr st \<and>
    (session_run H crc nats_unsure (nats_check crc) (nats_append_block crc publish) st es st' \<longrightarrow>
       valid_log H (log @ es) \<and>
       take (Suc (length (log @ es))) (stream_of view st') = stream_messages crc (map envelope_bytes (log @ es)) \<and>
       (session_unsure nats_unsure st' \<longrightarrow>
          fiber_operation oper H crc nats_unsure chk chk' (nats_append_block crc publish a) st' f i pl =
            (Inl OwnershipRecordUnreadable, st')))"
proof -
  obtain st where st: "open_writer H crc (on_world (nats_recover_frames crc io)) (e, w) = Inr st"
    "nats_holds H crc publish view log st"
    using nats_writer_opens [OF assms(1,3-11)] by blast
  have "valid_log H (log @ es)"
    if "session_run H crc nats_unsure (nats_check crc) (nats_append_block crc publish) st es st'"
    using nats_engine.session_run_holds [OF that st(2) assms(2)] by (auto simp: store_holds_def indexes_def)
  then show ?thesis
    using st nats_session_stored [OF _ st(2) assms(2,1)] nats_engine.fiber_operation_unsure by blast
qed

theorem nats_session_extends_log_witness:
  "\<exists>st'. session_run sample_hash sample_crc nats_unsure (nats_check sample_crc) (nats_append_block sample_crc single_stream)
      sample_nats_store [sample_event] st' \<and> valid_log sample_hash ([] @ [sample_event]) \<and>
    take 2 (stream_of the_stream st') = stream_messages sample_crc [envelope_bytes sample_event]"
proof -
  obtain st' where run: "session_run sample_hash sample_crc nats_unsure (nats_check sample_crc)
      (nats_append_block sample_crc single_stream) sample_nats_store [sample_event] st'"
    using sample_nats_run by blast
  have "valid_log sample_hash []" "log_fits []"
    using session.keeps_start [of sample_hash] indexes_fits by (auto simp: indexes_def)
  then have "\<exists>st. Inr sample_nats_store = (Inr st :: (NatsEngine \<times> bytes list) Store operation) \<and>
      (session_run sample_hash sample_crc nats_unsure (nats_check sample_crc) (nats_append_block sample_crc single_stream)
        st [sample_event] st' \<longrightarrow> valid_log sample_hash ([] @ [sample_event]) \<and>
        take (Suc (length ([] @ [sample_event]))) (stream_of the_stream st') =
          stream_messages sample_crc (map envelope_bytes ([] @ [sample_event])))"
    using nats_session_extends_log [OF single_stream_law sample_digest, of "[]" sample_nats_engine "stream_messages sample_crc []"
        sample_crc sample_answers "[sample_event]" st'] sample_nats_opens reads_of_serves
    by (auto simp: sample_nats_engine_def)
  with run show ?thesis by (auto simp: numeral_2_eq_2)
qed

end
