(* ===== verification/Nats_Locator.thy ===== *)
theory Nats_Locator
  imports Nats_Client Admission
begin

text \<open>
  The naming layer of \<open>pardosa-nats/src/adapter.rs\<close>: \<open>NatsLocator\<close>, which derives stream names and subjects from
  a hierarchy of tokens, the adapter with the names it works under, and the inspection of the subjects that existing
  streams bind. Strings are their UTF-8 bytes. A panic is \<open>None\<close>.
\<close>

section \<open>Locators\<close>

record NatsLocator =
  nl_tokens :: "bytes list"
  nl_stream_stem :: bytes
  nl_subject_prefix :: bytes
  nl_meta_stream_name :: bytes
  nl_data_stream_name :: bytes
  nl_meta_subject :: bytes
  nl_data_subject :: bytes

fun join :: "bytes \<Rightarrow> bytes list \<Rightarrow> bytes" where
  "join sep [] = []"
| "join sep [t] = t"
| "join sep (t # u # rest) = t @ sep @ join sep (u # rest)"

definition is_ascii_alphanumeric :: "byte \<Rightarrow> bool" where
  "is_ascii_alphanumeric b \<longleftrightarrow> 48 \<le> b \<and> b \<le> 57 \<or> 65 \<le> b \<and> b \<le> 90 \<or> 97 \<le> b \<and> b \<le> 122"

definition nats_safe :: "byte \<Rightarrow> bool" where
  "nats_safe b \<longleftrightarrow> is_ascii_alphanumeric b \<or> b = 95 \<or> b = 45"

definition verify_token :: "bytes \<Rightarrow> unit operation" where
  "verify_token token =
    (if token = [] then Inl (ValueConstraintViolated_fc Empty)
     else if \<not> list_all nats_safe token then Inl (ValueConstraintViolated_fc InvalidChar)
     else Inr ())"

fun verify_tokens :: "bytes list \<Rightarrow> unit operation" where
  "verify_tokens [] = Inr ()"
| "verify_tokens (token # rest) = result_bind (verify_token token) (\<lambda>_. verify_tokens rest)"

definition from_tokens :: "bytes list \<Rightarrow> NatsLocator operation" where
  "from_tokens tokens =
    (if tokens = [] then Inl (ValueConstraintViolated_fc Empty)
     else result_bind (verify_tokens tokens) (\<lambda>_.
       let subject_prefix = join [46] tokens;
           stream_stem = join [45] tokens in
       if length stream_stem > 128 then Inl (ValueConstraintViolated_fc TooLong)
       else Inr \<lparr>nl_tokens = tokens, nl_stream_stem = stream_stem, nl_subject_prefix = subject_prefix,
         nl_meta_stream_name = stream_stem @ ascii ''_meta'', nl_data_stream_name = stream_stem @ ascii ''_data'',
         nl_meta_subject = subject_prefix @ ascii ''.meta'', nl_data_subject = subject_prefix @ ascii ''.data''\<rparr>))"

definition NatsLocator_new :: "bytes list \<Rightarrow> NatsLocator operation" where
  "NatsLocator_new tokens = from_tokens tokens"

definition from_stem :: "bytes \<Rightarrow> NatsLocator operation" where
  "from_stem stem = NatsLocator_new [stem]"

definition child :: "NatsLocator \<Rightarrow> bytes \<Rightarrow> NatsLocator operation" where
  "child locator token = from_tokens (nl_tokens locator @ [token])"

definition legacy_meta_subject :: "NatsLocator \<Rightarrow> bytes" where
  "legacy_meta_subject locator = nl_stream_stem locator @ ascii ''_meta''"

definition legacy_data_subject :: "NatsLocator \<Rightarrow> bytes" where
  "legacy_data_subject locator = nl_stream_stem locator @ ascii ''_data''"

definition sanitize :: "bytes \<Rightarrow> bytes" where
  "sanitize stem =
    (let replaced = map (\<lambda>b. if nats_safe b then b else 45) stem in
     take 128 (if replaced = [] then [95] else replaced))"

definition from_synthetic_stem :: "bytes \<Rightarrow> NatsLocator option" where
  "from_synthetic_stem stem = (case from_tokens [sanitize stem] of Inr locator \<Rightarrow> Some locator | Inl _ \<Rightarrow> None)"

section \<open>The adapter and its names\<close>

record ResolvedSubjects =
  rs_meta_subject :: "bytes option"
  rs_data_subject :: "bytes option"

definition ResolvedSubjects_default :: ResolvedSubjects where
  "ResolvedSubjects_default = \<lparr>rs_meta_subject = None, rs_data_subject = None\<rparr>"

datatype SubjectKind = Meta_kind | Data_kind

text \<open>The URL, the client, its context and the runtime hold no state of the artefact.\<close>

record NatsStorageAdapter =
  na_stem :: bytes
  na_locator :: NatsLocator
  na_meta_stream_name :: bytes
  na_data_stream_name :: bytes
  na_meta_subject :: bytes
  na_data_subject :: bytes
  na_custom_subjects_for_test :: bool
  na_resolved_subjects :: ResolvedSubjects

definition subjects_for_stem :: "bytes \<Rightarrow> (NatsLocator \<times> bytes \<times> bytes) option" where
  "subjects_for_stem stem =
    (case from_stem stem of
       Inr locator \<Rightarrow> Some (locator, nl_meta_subject locator, nl_data_subject locator)
     | Inl _ \<Rightarrow> map_option (\<lambda>locator. (locator, stem @ ascii ''_meta'', stem @ ascii ''_data'')) (from_synthetic_stem stem))"

definition into_instance :: "bytes \<Rightarrow> NatsLocator \<Rightarrow> bytes \<Rightarrow> bytes \<Rightarrow> NatsStorageAdapter" where
  "into_instance stem locator meta_subject data_subject =
    \<lparr>na_stem = stem, na_locator = locator, na_meta_stream_name = stem @ ascii ''_meta'',
     na_data_stream_name = stem @ ascii ''_data'', na_meta_subject = meta_subject, na_data_subject = data_subject,
     na_custom_subjects_for_test = False, na_resolved_subjects = ResolvedSubjects_default\<rparr>"

definition from_client_internal :: "bytes \<Rightarrow> NatsStorageAdapter option" where
  "from_client_internal stem =
    map_option (\<lambda>(locator, meta_subject, data_subject). into_instance stem locator meta_subject data_subject)
      (subjects_for_stem stem)"

definition from_client_internal_with_locator :: "NatsLocator \<Rightarrow> NatsStorageAdapter" where
  "from_client_internal_with_locator locator =
    into_instance (nl_stream_stem locator) locator (nl_meta_subject locator) (nl_data_subject locator)"

text \<open>A copy of an adapter forgets what was resolved.\<close>

definition adapter_clone :: "NatsStorageAdapter \<Rightarrow> NatsStorageAdapter" where
  "adapter_clone ad = ad\<lparr>na_resolved_subjects := ResolvedSubjects_default\<rparr>"

definition inspect_stream_subject :: "GetStreamError + unit \<Rightarrow> RequestError + StreamInfo \<Rightarrow> bytes \<Rightarrow> bytes \<Rightarrow> SubjectKind \<Rightarrow>
    bytes operation" where
  "inspect_stream_subject stream info canonical legacy kind =
    result_bind (map_err map_nats_stream_open_error stream) (\<lambda>_.
    result_bind (map_err map_nats_info_error info) (\<lambda>i.
      if in_subjects i = [canonical] then Inr canonical
      else if in_subjects i = [legacy] then Inr legacy
      else Inl (case kind of Meta_kind \<Rightarrow> OwnershipRecordUnreadable | Data_kind \<Rightarrow> PrecursorChainBroken None)))"

definition resolve_open_subjects :: "StreamReads \<Rightarrow> StreamReads \<Rightarrow> NatsStorageAdapter \<Rightarrow> ArtefactPresence \<Rightarrow>
    ResolvedSubjects operation" where
  "resolve_open_subjects meta_reads data_reads ad pres =
    (if na_custom_subjects_for_test ad
     then Inr \<lparr>rs_meta_subject = Some (na_meta_subject ad), rs_data_subject = Some (na_data_subject ad)\<rparr>
     else
       result_bind
         (case pres of
            OwnershipRecordOnly \<Rightarrow> map_sum id Some (inspect_stream_subject (sr_get_stream meta_reads) (sr_info meta_reads)
              (na_meta_subject ad) (na_stem ad @ ascii ''_meta'') Meta_kind)
          | Both \<Rightarrow> map_sum id Some (inspect_stream_subject (sr_get_stream meta_reads) (sr_info meta_reads)
              (na_meta_subject ad) (na_stem ad @ ascii ''_meta'') Meta_kind)
          | Presence_None \<Rightarrow> Inr None
          | EventDataOnly \<Rightarrow> Inr None) (\<lambda>meta_subject.
       result_bind
         (case pres of
            Both \<Rightarrow> map_sum id Some (inspect_stream_subject (sr_get_stream data_reads) (sr_info data_reads)
              (na_data_subject ad) (na_stem ad @ ascii ''_data'') Data_kind)
          | EventDataOnly \<Rightarrow> map_sum id Some (inspect_stream_subject (sr_get_stream data_reads) (sr_info data_reads)
              (na_data_subject ad) (na_stem ad @ ascii ''_data'') Data_kind)
          | Presence_None \<Rightarrow> Inr None
          | OwnershipRecordOnly \<Rightarrow> Inr None) (\<lambda>data_subject.
         Inr \<lparr>rs_meta_subject = meta_subject, rs_data_subject = data_subject\<rparr>)))"

definition cache_resolved_subjects :: "NatsStorageAdapter \<Rightarrow> ResolvedSubjects \<Rightarrow> NatsStorageAdapter" where
  "cache_resolved_subjects ad resolved = ad\<lparr>na_resolved_subjects := resolved\<rparr>"

definition resolved_meta_subject :: "NatsStorageAdapter \<Rightarrow> bytes" where
  "resolved_meta_subject ad =
    (case rs_meta_subject (na_resolved_subjects ad) of Some s \<Rightarrow> s | None \<Rightarrow> na_meta_subject ad)"

section \<open>What a locator guarantees\<close>

lemma verify_tokens_iff: "verify_tokens ts = Inr u \<longleftrightarrow> list_all (\<lambda>t. t \<noteq> [] \<and> list_all nats_safe t) ts"
  by (induction ts) (auto simp: verify_token_def result_simps result_bind_def split: if_splits)

lemma from_tokens_iff:
  "from_tokens ts = Inr l \<longleftrightarrow> ts \<noteq> [] \<and> list_all (\<lambda>t. t \<noteq> [] \<and> list_all nats_safe t) ts \<and> length (join [45] ts) \<le> 128 \<and>
    l = \<lparr>nl_tokens = ts, nl_stream_stem = join [45] ts, nl_subject_prefix = join [46] ts,
         nl_meta_stream_name = join [45] ts @ ascii ''_meta'', nl_data_stream_name = join [45] ts @ ascii ''_data'',
         nl_meta_subject = join [46] ts @ ascii ''.meta'', nl_data_subject = join [46] ts @ ascii ''.data''\<rparr>"
  by (auto simp: from_tokens_def result_simps verify_tokens_iff Let_def split: if_splits)

lemma safe_no_dot: "nats_safe b \<Longrightarrow> b \<noteq> 46"
  by (auto simp: nats_safe_def is_ascii_alphanumeric_def)

lemma join_Cons: "join sep (t # ts) = (if ts = [] then t else t @ sep @ join sep ts)"
  by (cases ts) simp_all

lemma separator_split: "sep \<notin> set t \<Longrightarrow> sep \<notin> set u \<Longrightarrow> t @ sep # r = u @ sep # r' \<longleftrightarrow> t = u \<and> r = r'"
proof (induction t arbitrary: u)
  case Nil
  then show ?case by (cases u) auto
next
  case (Cons x t)
  then show ?case by (cases u) auto
qed

lemma join_inject:
  assumes "\<forall>t \<in> set xs. sep \<notin> set t" and "\<forall>t \<in> set ys. sep \<notin> set t" and "xs \<noteq> []" and "ys \<noteq> []"
    and "join [sep] xs = join [sep] ys"
  shows "xs = ys"
  using assms
proof (induction xs arbitrary: ys)
  case Nil
  then show ?case by simp
next
  case (Cons t xs)
  then obtain u us where ys: "ys = u # us" by (cases ys) auto
  have sep: "sep \<notin> set t" "sep \<notin> set u" using Cons.prems(1,2) ys by simp_all
  show ?case
  proof (cases "xs = [] \<or> us = []")
    case True
    then have "xs = []" "us = []" using Cons.prems(5) sep by (auto simp: ys join_Cons split: if_splits)
    then show ?thesis using Cons.prems(5) ys by simp
  next
    case False
    then have "t = u \<and> join [sep] xs = join [sep] us"
      using Cons.prems(5) sep by (simp add: ys join_Cons separator_split)
    then show ?thesis using Cons.IH [of us] Cons.prems(1,2) False ys by simp
  qed
qed

lemma join_safe:
  "list_all (list_all nats_safe) ts \<Longrightarrow> list_all nats_safe (join [45] ts)"
  by (induction ts) (auto simp: join_Cons nats_safe_def)

lemma safe_tokens_no_dot: "list_all (\<lambda>t. t \<noteq> [] \<and> list_all nats_safe t) ts \<Longrightarrow> \<forall>t \<in> set ts. 46 \<notin> set t"
  using safe_no_dot by (fastforce simp: list_all_iff)

section \<open>Properties\<close>

text \<open>C29: token hierarchies are not confused. Different hierarchies may share their stream names (\<open>a-b\<close> and \<open>a\<close>,
  \<open>b\<close> do), but a stream that was created through one validated locator is accepted through another only if both
  have the same tokens; otherwise it is refused as damaged, and so is the ownership stream.\<close>

theorem locators_not_confused:
  assumes "NatsLocator_new ts = Inr l" and "NatsLocator_new ts' = Inr l'"
    and "in_subjects data_info = [nl_data_subject l]" and "in_subjects meta_info = [nl_meta_subject l]"
  shows "inspect_stream_subject (Inr ()) (Inr data_info) (nl_data_subject l') (legacy_data_subject l') Data_kind =
      (if ts = ts' then Inr (nl_data_subject l) else Inl (PrecursorChainBroken None)) \<and>
    inspect_stream_subject (Inr ()) (Inr meta_info) (nl_meta_subject l') (legacy_meta_subject l') Meta_kind =
      (if ts = ts' then Inr (nl_meta_subject l) else Inl OwnershipRecordUnreadable)"
proof -
  have l: "ts \<noteq> []" "list_all (\<lambda>t. t \<noteq> [] \<and> list_all nats_safe t) ts"
    "nl_data_subject l = join [46] ts @ ascii ''.data''" "nl_meta_subject l = join [46] ts @ ascii ''.meta''"
    using assms(1) by (simp_all add: NatsLocator_new_def from_tokens_iff)
  have l': "ts' \<noteq> []" "list_all (\<lambda>t. t \<noteq> [] \<and> list_all nats_safe t) ts'"
    "nl_data_subject l' = join [46] ts' @ ascii ''.data''" "nl_meta_subject l' = join [46] ts' @ ascii ''.meta''"
    "nl_stream_stem l' = join [45] ts'"
    using assms(2) by (simp_all add: NatsLocator_new_def from_tokens_iff)
  have "join [46] ts = join [46] ts' \<longleftrightarrow> ts = ts'"
    using join_inject [OF safe_tokens_no_dot [OF l(2)] safe_tokens_no_dot [OF l'(2)] l(1) l'(1)] by auto
  then have canonical: "nl_data_subject l = nl_data_subject l' \<longleftrightarrow> ts = ts'" "nl_meta_subject l = nl_meta_subject l' \<longleftrightarrow> ts = ts'"
    using l l' by simp_all
  have "46 \<notin> set (legacy_data_subject l')" "46 \<notin> set (legacy_meta_subject l')"
  proof -
    have "list_all nats_safe (join [45] ts')" using l'(2) by (intro join_safe) (auto simp: list_all_iff)
    then have "46 \<notin> set (join [45] ts')" using safe_no_dot by (fastforce simp: list_all_iff)
    then show "46 \<notin> set (legacy_data_subject l')" "46 \<notin> set (legacy_meta_subject l')"
      by (simp_all add: legacy_data_subject_def legacy_meta_subject_def l'(5) ascii_def)
  qed
  moreover have "46 \<in> set (nl_data_subject l)" "46 \<in> set (nl_meta_subject l)" by (simp_all add: l ascii_def)
  ultimately have "nl_data_subject l \<noteq> legacy_data_subject l'" "nl_meta_subject l \<noteq> legacy_meta_subject l'" by metis+
  with canonical show ?thesis
    using assms(3,4) by (auto simp: inspect_stream_subject_def result_bind_def map_err_def)
qed

theorem locators_not_confused_witness:
  "\<exists>l l'. NatsLocator_new [ascii ''a-b''] = Inr l \<and> NatsLocator_new [ascii ''a'', ascii ''b''] = Inr l' \<and>
    nl_data_stream_name l = nl_data_stream_name l' \<and>
    inspect_stream_subject (Inr ()) (Inr \<lparr>in_messages = 1, in_first_sequence = 1, in_last_sequence = 1, in_subjects = [nl_data_subject l]\<rparr>)
      (nl_data_subject l') (legacy_data_subject l') Data_kind = Inl (PrecursorChainBroken None)"
proof -
  obtain l l' where l: "NatsLocator_new [ascii ''a-b''] = Inr l" "NatsLocator_new [ascii ''a'', ascii ''b''] = Inr l'"
    "nl_data_stream_name l = nl_data_stream_name l'"
    by (simp add: NatsLocator_new_def from_tokens_iff nats_safe_def is_ascii_alphanumeric_def ascii_def)
  have "[ascii ''a-b''] \<noteq> [ascii ''a'', ascii ''b'']" by simp
  with locators_not_confused [OF l(1,2),
      of "\<lparr>in_messages = 1, in_first_sequence = 1, in_last_sequence = 1, in_subjects = [nl_data_subject l]\<rparr>"
         "\<lparr>in_messages = 1, in_first_sequence = 1, in_last_sequence = 1, in_subjects = [nl_meta_subject l]\<rparr>"] l
  show ?thesis by auto
qed

text \<open>Every stem gives an adapter: deriving the names never panics, whatever bytes and length the stem has. The
  locator behind it, like every validated one, has a stem of 1 to 128 bytes that are all letters, digits, hyphens or
  underscores, and stream names of at most 133.\<close>

lemma adapter_names_bounded:
  "\<exists>ad. from_client_internal stem = Some ad \<and>
    0 < length (nl_stream_stem (na_locator ad)) \<and> length (nl_stream_stem (na_locator ad)) \<le> 128 \<and>
    list_all nats_safe (nl_stream_stem (na_locator ad)) \<and>
    length (nl_meta_stream_name (na_locator ad)) \<le> 133 \<and> length (nl_data_stream_name (na_locator ad)) \<le> 133"
proof -
  have good: "0 < length (nl_stream_stem l) \<and> length (nl_stream_stem l) \<le> 128 \<and> list_all nats_safe (nl_stream_stem l) \<and>
      length (nl_meta_stream_name l) \<le> 133 \<and> length (nl_data_stream_name l) \<le> 133" if "from_tokens [t] = Inr l" for t l
    using that by (simp add: from_tokens_iff)
  have "sanitize stem \<noteq> []" "length (sanitize stem) \<le> 128" by (simp_all add: sanitize_def Let_def)
  moreover have "list_all nats_safe (sanitize stem)"
  proof -
    have "list_all nats_safe (if map (\<lambda>b. if nats_safe b then b else 45) stem = [] then [95] else map (\<lambda>b. if nats_safe b then b else 45) stem)"
      by (auto simp: list_all_iff nats_safe_def)
    then show ?thesis unfolding sanitize_def Let_def list_all_iff by (meson in_set_takeD)
  qed
  ultimately obtain l where "from_tokens [sanitize stem] = Inr l" by (simp add: from_tokens_iff)
  then show ?thesis
    using good by (auto simp: from_client_internal_def subjects_for_stem_def from_synthetic_stem_def into_instance_def
        from_stem_def NatsLocator_new_def split: sum.splits)
qed

end
