(* ===== verification/Nats_Adapter.thy ===== *)
theory Nats_Adapter
  imports Nats_Session Nats_Locator File_Adapter
begin

text \<open>
  \<open>NatsStorageAdapter\<close> of \<open>pardosa-nats/src/adapter.rs\<close>: creating an artefact as two streams, completing a creation
  that stopped early, opening it for writing and reading, recording ownership records, deleting it. As in
  \<open>Nats_Engine\<close>, calls that change the server (\<open>publish\<close>, \<open>create_stream\<close>, \<open>delete_stream\<close>) are parameters that
  act on the world, and the answers to reads are inputs. The checks that the code shares with the file adapter,
  line by line (\<open>admit_completion\<close>, \<open>require_descriptor\<close>, \<open>admit_write\<close>), are the definitions of \<open>File_Adapter\<close>.
\<close>

section \<open>Steps on the server\<close>

type_synonym ('a, 'w) server_call = "'w \<Rightarrow> 'a operation \<times> 'w"

definition andThen :: "('a, 'w) server_call \<Rightarrow> ('a \<Rightarrow> ('b, 'w) server_call) \<Rightarrow> ('b, 'w) server_call" where
  "andThen p k w = (case p w of (Inl f, w') \<Rightarrow> (Inl f, w') | (Inr a, w') \<Rightarrow> k a w')"

definition pureCall :: "'a operation \<Rightarrow> ('a, 'w) server_call" where
  "pureCall r w = (r, w)"

type_synonym 'w stream_creator = "bytes \<Rightarrow> bytes list \<Rightarrow> 'w \<Rightarrow> (CreateStreamError + unit) \<times> 'w"
type_synonym 'w stream_deleter = "bytes \<Rightarrow> 'w \<Rightarrow> (GetStreamError + unit) \<times> 'w"

definition create_stream_step :: "'w stream_creator \<Rightarrow> (CreateStreamError \<Rightarrow> failure_condition) \<Rightarrow> bytes \<Rightarrow> bytes \<Rightarrow>
    (unit, 'w) server_call" where
  "create_stream_step create_stream to_failure name subject w =
    (case create_stream name [subject] w of (answer, w') \<Rightarrow> (map_err to_failure answer, w'))"

text \<open>Publishing with an expected sequence number and waiting for the acknowledgement, without a time limit of its
  own. The result is the sequence number.\<close>

definition publish_failure :: "failure_condition \<Rightarrow> PublishError \<Rightarrow> failure_condition" where
  "publish_failure cond err = (if is_wrong_last_sequence err then StoreAlreadyExists else cond)"

definition publish_step :: "'w publisher \<Rightarrow> failure_condition \<Rightarrow> bytes \<Rightarrow> bytes \<Rightarrow> u64 \<Rightarrow> bytes \<Rightarrow> (u64, 'w) server_call" where
  "publish_step publish cond name subject expected pl w =
    (case publish \<lparr>pr_subject = subject, pr_expected_last = Some expected, pr_expected_stream = name, pr_payload = pl\<rparr> w of
       (Publish_failed err, w') \<Rightarrow> (Inl (publish_failure cond err), w')
     | (Ack_error err, w') \<Rightarrow> (Inl (publish_failure cond err), w')
     | (Ack_timeout, w') \<Rightarrow> (Inl cond, w')
     | (Ack ack_stream seq, w') \<Rightarrow> (if ack_stream \<noteq> name then Inl cond else Inr seq, w'))"

definition encode_frame :: "crc32c \<Rightarrow> bytes \<Rightarrow> bytes operation" where
  "encode_frame crc pl = map_err (\<lambda>_. ValueConstraintViolated_fc TooLong) (try_encode_payload crc pl)"

section \<open>Presence and identity\<close>

definition nats_try_presence :: "GetStreamError + unit \<Rightarrow> GetStreamError + unit \<Rightarrow> ArtefactPresence operation" where
  "nats_try_presence meta_answer data_answer =
    result_bind (stream_exists meta_answer) (\<lambda>meta_exists.
    result_bind (stream_exists data_answer) (\<lambda>data_exists.
      Inr (case (meta_exists, data_exists) of
         (False, False) \<Rightarrow> Presence_None
       | (True, False) \<Rightarrow> OwnershipRecordOnly
       | (False, True) \<Rightarrow> EventDataOnly
       | (True, True) \<Rightarrow> Both)))"

definition nats_locator_id :: "blake3 \<Rightarrow> NatsStorageAdapter \<Rightarrow> bytes" where
  "nats_locator_id H ad = subslice 0 16 (H (na_stem ad))"

definition nats_current_epoch :: "crc32c \<Rightarrow> StreamReads \<Rightarrow> u64 operation" where
  "nats_current_epoch crc reads =
    result_bind (read_meta_records_async crc reads) (\<lambda>meta.
      Inr (case mr_latest_claim meta of None \<Rightarrow> 0 | Some c \<Rightarrow> claim_epoch c))"

section \<open>Creation\<close>

definition nats_engine_for :: "NatsStorageAdapter \<Rightarrow> bytes \<Rightarrow> bytes \<Rightarrow> u64 \<Rightarrow> OwnershipClaimRecord option \<Rightarrow> MetaRecords \<Rightarrow>
    OpenAdmission \<Rightarrow> u64 \<Rightarrow> bool \<Rightarrow> NatsEngine" where
  "nats_engine_for ad meta_subject data_subject carried_epoch claim meta admission last_seq landed =
    \<lparr>ne_stem = na_stem ad, ne_meta_stream_name = na_meta_stream_name ad, ne_data_stream_name = na_data_stream_name ad,
     ne_meta_subject = meta_subject, ne_data_subject = data_subject, ne_carried_epoch = carried_epoch, ne_claim = claim,
     ne_meta_records = meta, ne_admission = admission, ne_last_data_seq = last_seq, ne_data_events_landed = landed,
     ne_read_all_count = 0, ne_publish_timeout = 5, ne_simulate_indeterminate = False, ne_uncertain = False,
     ne_uncertain_diagnostic = None\<rparr>"

type_synonym recover_answers = "StreamReads \<times> (u64 \<Rightarrow> GetStreamError + unit)"

definition nats_open_writer :: "blake3 \<Rightarrow> crc32c \<Rightarrow> recover_answers \<Rightarrow> NatsEngine \<Rightarrow> ((NatsEngine \<times> 'w) Store, 'w) server_call" where
  "nats_open_writer H crc io e w = (open_writer H crc (on_world (nats_recover_frames crc io)) (e, w), w)"

text \<open>The new ownership stream: the container header, the claim, the descriptor. As in the file adapter, the panic of
  \<open>OwnershipRecord::encode\<close> for an over-long label is excluded by the length check before.\<close>

definition create_meta_stream :: "crc32c \<Rightarrow> 'w stream_creator \<Rightarrow> 'w publisher \<Rightarrow> NatsStorageAdapter \<Rightarrow>
    OwnershipClaimRecord \<Rightarrow> AdmittedDescriptor \<Rightarrow> (unit, 'w) server_call" where
  "create_meta_stream crc create_stream publish ad claim descr =
    (let name = na_meta_stream_name ad; subject = na_meta_subject ad;
         post = publish_step publish OwnershipRecordUnreadable name subject in
     andThen (create_stream_step create_stream (\<lambda>_. OwnershipRecordUnreadable) name subject) (\<lambda>_.
     andThen (post 0 (ContainerHeader_to_bytes ContainerHeader_new)) (\<lambda>_.
     andThen (pureCall (result_bind (ok_or (ValueConstraintViolated_fc TooLong) (OwnershipRecord_encode (OwnershipClaim claim)))
       (encode_frame crc))) (\<lambda>claim_frame.
     andThen (post 1 claim_frame) (\<lambda>_.
     andThen (pureCall (encode_frame crc (ad_encoded_record descr))) (\<lambda>desc_frame.
     andThen (post 2 desc_frame) (\<lambda>_. pureCall (Inr ()))))))))"

text \<open>The new event stream with its container header, in \<open>create\<close> and in \<open>complete_creation\<close>.\<close>

definition create_data_stream :: "'w stream_creator \<Rightarrow> 'w publisher \<Rightarrow> (CreateStreamError \<Rightarrow> failure_condition) \<Rightarrow>
    NatsStorageAdapter \<Rightarrow> (u64, 'w) server_call" where
  "create_data_stream create_stream publish to_failure ad =
    andThen (create_stream_step create_stream to_failure (na_data_stream_name ad) (na_data_subject ad)) (\<lambda>_.
      publish_step publish (PrecursorChainBroken None) (na_data_stream_name ad) (na_data_subject ad) 0
        (ContainerHeader_to_bytes ContainerHeader_new))"

record NatsCreateIo =
  nc_presence_meta :: "GetStreamError + unit"
  nc_presence_data :: "GetStreamError + unit"
  nc_recover :: recover_answers

definition nats_create_with_limit :: "blake3 \<Rightarrow> crc32c \<Rightarrow> 'w stream_creator \<Rightarrow> 'w publisher \<Rightarrow> NatsCreateIo \<Rightarrow>
    NatsStorageAdapter \<Rightarrow> OwnershipClaimRecord \<Rightarrow> AdmittedDescriptor \<Rightarrow> nat \<Rightarrow> ((NatsEngine \<times> 'w) Store, 'w) server_call" where
  "nats_create_with_limit H crc create_stream publish io ad initial_claim descr max_wire_len =
    andThen (pureCall (result_bind (nats_try_presence (nc_presence_meta io) (nc_presence_data io)) (\<lambda>p.
      result_bind (admit_create p) (\<lambda>_.
        compute_claim_wire_len_bounded (length (claim_operator_label initial_claim)) max_wire_len)))) (\<lambda>_.
    andThen (create_meta_stream crc create_stream publish ad initial_claim descr) (\<lambda>_.
    andThen (create_data_stream create_stream publish (\<lambda>_. PrecursorChainBroken None) ad) (\<lambda>data_ack.
      nats_open_writer H crc (nc_recover io)
        (nats_engine_for ad (na_meta_subject ad) (na_data_subject ad) (claim_epoch initial_claim) (Some initial_claim)
          (MetaRecords_default\<lparr>mr_latest_claim := Some initial_claim, mr_schema_descriptor := Some (ad_descriptor descr)\<rparr>)
          Ready data_ack False))))"

definition nats_create :: "blake3 \<Rightarrow> crc32c \<Rightarrow> 'w stream_creator \<Rightarrow> 'w publisher \<Rightarrow> NatsCreateIo \<Rightarrow>
    NatsStorageAdapter \<Rightarrow> OwnershipClaimRecord \<Rightarrow> AdmittedDescriptor \<Rightarrow> ((NatsEngine \<times> 'w) Store, 'w) server_call" where
  "nats_create H crc create_stream publish io ad initial_claim descr =
    nats_create_with_limit H crc create_stream publish io ad initial_claim descr U32_MAX"

record NatsCompleteIo =
  nk_presence_meta :: "GetStreamError + unit"
  nk_presence_data :: "GetStreamError + unit"
  nk_inspect :: StreamReads
  nk_meta :: StreamReads
  nk_recover :: recover_answers

text \<open>The result also holds the adapter, which remembers the subjects it resolved. No event stream is inspected here,
  so the answers for one do not matter.\<close>

definition nats_complete_creation :: "blake3 \<Rightarrow> crc32c \<Rightarrow> 'w stream_creator \<Rightarrow> 'w publisher \<Rightarrow> NatsCompleteIo \<Rightarrow>
    NatsStorageAdapter \<Rightarrow> OwnershipClaimRecord \<Rightarrow> 'w \<Rightarrow> (NatsEngine \<times> 'w) Store operation \<times> NatsStorageAdapter \<times> 'w" where
  "nats_complete_creation H crc create_stream publish io ad claim w =
    (case result_bind (nats_try_presence (nk_presence_meta io) (nk_presence_data io)) (\<lambda>p.
            result_bind (admit_completion p) (\<lambda>_. resolve_open_subjects (nk_inspect io) (nk_inspect io) ad p)) of
       Inl f \<Rightarrow> (Inl f, ad, w)
     | Inr resolved \<Rightarrow>
         let ad' = cache_resolved_subjects ad resolved;
             meta_subject = (case rs_meta_subject resolved of Some s \<Rightarrow> s | None \<Rightarrow> na_meta_subject ad) in
         (case andThen (pureCall (result_bind (read_meta_records_async crc (nk_meta io)) (\<lambda>meta.
                 result_bind (require_descriptor H meta) (\<lambda>_.
                 result_bind (ok_or OwnershipRecordUnreadable (mr_latest_claim meta)) (\<lambda>durable_claim.
                   if durable_claim \<noteq> claim then Inl OwnershipUnestablished else Inr meta))))) (\<lambda>meta.
               andThen (create_data_stream create_stream publish nats_completion_create_error ad) (\<lambda>data_ack.
                 nats_open_writer H crc (nk_recover io)
                   (nats_engine_for ad meta_subject (na_data_subject ad) (claim_epoch claim) (Some claim) meta Ready data_ack False))) w of
            (res, w') \<Rightarrow> (res, ad', w')))"

section \<open>Opening\<close>

record NatsOpenIo =
  no_presence_meta :: "GetStreamError + unit"
  no_presence_data :: "GetStreamError + unit"
  no_incomplete_meta :: StreamReads
  no_complete :: NatsCompleteIo
  no_inspect_meta :: StreamReads
  no_inspect_data :: StreamReads
  no_meta :: StreamReads
  no_data :: StreamReads
  no_recover :: recover_answers

definition nats_open_write_present :: "blake3 \<Rightarrow> crc32c \<Rightarrow> NatsOpenIo \<Rightarrow> NatsStorageAdapter \<Rightarrow> u64 \<Rightarrow> 'w \<Rightarrow>
    (NatsEngine \<times> 'w) Store operation \<times> NatsStorageAdapter \<times> 'w" where
  "nats_open_write_present H crc io ad carried_epoch w =
    (case resolve_open_subjects (no_inspect_meta io) (no_inspect_data io) ad Both of
       Inl f \<Rightarrow> (Inl f, ad, w)
     | Inr resolved \<Rightarrow>
         let ad' = cache_resolved_subjects ad resolved;
             meta_subject = (case rs_meta_subject resolved of Some s \<Rightarrow> s | None \<Rightarrow> na_meta_subject ad);
             data_subject = (case rs_data_subject resolved of Some s \<Rightarrow> s | None \<Rightarrow> na_data_subject ad) in
         (result_bind (read_meta_records_async crc (no_meta io)) (\<lambda>meta.
          result_bind (admit_write H meta carried_epoch) (\<lambda>claim.
          result_bind (open_data_stream (no_data io)) (\<lambda>(_, _, last_seq, messages).
            fst (nats_open_writer H crc (no_recover io)
              (nats_engine_for ad meta_subject data_subject carried_epoch (Some claim) meta Ready last_seq (messages > 1)) w)))),
          ad', w))"

definition nats_open_write :: "blake3 \<Rightarrow> crc32c \<Rightarrow> 'w stream_creator \<Rightarrow> 'w publisher \<Rightarrow> NatsOpenIo \<Rightarrow>
    NatsStorageAdapter \<Rightarrow> u64 \<Rightarrow> 'w \<Rightarrow> (NatsEngine \<times> 'w) Store operation \<times> NatsStorageAdapter \<times> 'w" where
  "nats_open_write H crc create_stream publish io ad carried_epoch w =
    (case nats_try_presence (no_presence_meta io) (no_presence_data io) of
       Inl f \<Rightarrow> (Inl f, ad, w)
     | Inr Presence_None \<Rightarrow> (Inl NoArtefactExists, ad, w)
     | Inr EventDataOnly \<Rightarrow> (Inl OwnershipUnestablished, ad, w)
     | Inr OwnershipRecordOnly \<Rightarrow>
         (case result_bind (read_meta_records_async crc (no_incomplete_meta io)) (\<lambda>meta.
                 if mr_outbound_pointer meta \<noteq> None then Inl RetiredMigrationSource
                 else result_bind (ok_or OwnershipUnestablished (mr_latest_claim meta)) (\<lambda>claim.
                   if claim_epoch claim \<noteq> carried_epoch then Inl StaleEpoch else Inr claim)) of
            Inl f \<Rightarrow> (Inl f, ad, w)
          | Inr claim \<Rightarrow> nats_complete_creation H crc create_stream publish (no_complete io) ad claim w)
     | Inr Both \<Rightarrow> nats_open_write_present H crc io ad carried_epoch w)"

record NatsOpenReadIo =
  nr_presence_meta :: "GetStreamError + unit"
  nr_presence_data :: "GetStreamError + unit"
  nr_meta :: StreamReads
  nr_inspect_meta :: StreamReads
  nr_inspect_data :: StreamReads
  nr_recover :: recover_answers

definition nats_open_read :: "blake3 \<Rightarrow> crc32c \<Rightarrow> NatsOpenReadIo \<Rightarrow> NatsStorageAdapter \<Rightarrow>
    NatsEngine Store operation \<times> NatsStorageAdapter" where
  "nats_open_read H crc io ad =
    (case result_bind (nats_try_presence (nr_presence_meta io) (nr_presence_data io)) (\<lambda>p.
            if p = Presence_None then Inl NoArtefactExists
            else result_bind (read_meta_records_async crc (nr_meta io)) (\<lambda>meta_records.
              result_bind (admit_open p (mr_latest_claim meta_records) False) (\<lambda>admission.
              result_bind (resolve_open_subjects (nr_inspect_meta io) (nr_inspect_data io) ad p) (\<lambda>resolved.
                Inr (meta_records, admission, resolved))))) of
       Inl f \<Rightarrow> (Inl f, ad)
     | Inr (meta_records, admission, resolved) \<Rightarrow>
         let meta_subject = (case rs_meta_subject resolved of Some s \<Rightarrow> s | None \<Rightarrow> na_meta_subject ad);
             data_subject = (case rs_data_subject resolved of Some s \<Rightarrow> s | None \<Rightarrow> na_data_subject ad) in
         (Inr (open_reader H crc (nats_recover_frames crc (nr_recover io))
            (nats_engine_for ad meta_subject data_subject
              (case mr_latest_claim meta_records of None \<Rightarrow> 0 | Some c \<Rightarrow> claim_epoch c) (mr_latest_claim meta_records)
              meta_records admission 0 False)),
          cache_resolved_subjects ad resolved))"

section \<open>Records, queries and deletion\<close>

text \<open>The outer \<open>None\<close> is the panic of \<open>OwnershipRecord::encode\<close>. No sequence number is expected here.\<close>

definition record_ownership_record_internal :: "crc32c \<Rightarrow> 'w publisher \<Rightarrow> NatsStorageAdapter \<Rightarrow> OwnershipRecord \<Rightarrow> 'w \<Rightarrow>
    unit operation option \<times> 'w" where
  "record_ownership_record_internal crc publish ad record w =
    (case OwnershipRecord_encode record of
       None \<Rightarrow> (None, w)
     | Some record_bytes \<Rightarrow>
         (case encode_frame crc record_bytes of
            Inl f \<Rightarrow> (Some (Inl f), w)
          | Inr record_frame \<Rightarrow>
              (case publish \<lparr>pr_subject = resolved_meta_subject ad, pr_expected_last = None,
                      pr_expected_stream = na_meta_stream_name ad, pr_payload = record_frame\<rparr> w of
                 (Ack ack_stream _, w') \<Rightarrow>
                   (Some (if ack_stream \<noteq> na_meta_stream_name ad then Inl OwnershipRecordUnreadable else Inr ()), w')
               | (_, w') \<Rightarrow> (Some (Inl OwnershipRecordUnreadable), w'))))"

definition nats_record_migration_start where
  "nats_record_migration_start crc publish ad start = record_ownership_record_internal crc publish ad (MigrationStart start)"

definition nats_record_migration_end where
  "nats_record_migration_end crc publish ad me = record_ownership_record_internal crc publish ad (MigrationEnd me)"

definition nats_record_rescue_policy_choice where
  "nats_record_rescue_policy_choice crc publish ad choice = record_ownership_record_internal crc publish ad (RescuePolicyChoice choice)"

definition nats_outbound_pointer :: "crc32c \<Rightarrow> StreamReads \<Rightarrow> OutboundPointerRecord option operation" where
  "nats_outbound_pointer crc reads = result_bind (read_meta_records_async crc reads) (\<lambda>meta. Inr (mr_outbound_pointer meta))"

definition nats_inbound_pointer :: "crc32c \<Rightarrow> StreamReads \<Rightarrow> InboundPointerRecord option operation" where
  "nats_inbound_pointer crc reads = result_bind (read_meta_records_async crc reads) (\<lambda>meta. Inr (mr_inbound_pointer meta))"

definition nats_is_retired_source :: "crc32c \<Rightarrow> StreamReads \<Rightarrow> bool operation" where
  "nats_is_retired_source crc reads = result_bind (read_meta_records_async crc reads) (\<lambda>meta. Inr (mr_outbound_pointer meta \<noteq> None))"

definition delete_stream_step :: "'w stream_deleter \<Rightarrow> bytes \<Rightarrow> (unit, 'w) server_call" where
  "delete_stream_step delete_stream name w =
    (case delete_stream name w of
       (Inl err, w') \<Rightarrow> (map_nats_stream_delete_error err, w')
     | (Inr _, w') \<Rightarrow> (Inr (), w'))"

definition delete_streams :: "'w stream_deleter \<Rightarrow> NatsStorageAdapter \<Rightarrow> (unit, 'w) server_call" where
  "delete_streams delete_stream ad =
    andThen (delete_stream_step delete_stream (na_meta_stream_name ad)) (\<lambda>_.
      delete_stream_step delete_stream (na_data_stream_name ad))"

text \<open>\<open>MigrationSource::read_envelopes\<close>: a read session of its own, read tolerating broken fibers.\<close>

definition nats_read_envelopes :: "blake3 \<Rightarrow> crc32c \<Rightarrow> NatsOpenReadIo \<Rightarrow> StreamReads \<Rightarrow> NatsStorageAdapter \<Rightarrow>
    EventEnvelope list operation" where
  "nats_read_envelopes H crc io reads ad =
    result_bind (fst (nats_open_read H crc io ad)) (\<lambda>st.
      fst (read_all_envelopes_for_migration H crc (nats_read_all crc reads) st))"

section \<open>What calls on the server leave behind\<close>

text \<open>Creating a stream does not touch messages either; a stream that exists already is left as it is.\<close>

definition creator_law :: "'w stream_creator \<Rightarrow> ('w \<Rightarrow> bytes \<Rightarrow> bytes list) \<Rightarrow> bool" where
  "creator_law create_stream view \<longleftrightarrow> (\<forall>name subjects w answer w'. create_stream name subjects w = (answer, w') \<longrightarrow>
     (\<forall>stream. prefix (view w stream) (view w' stream)))"

definition grows :: "('w \<Rightarrow> bytes \<Rightarrow> bytes list) \<Rightarrow> ('a, 'w) server_call \<Rightarrow> bool" where
  "grows view p \<longleftrightarrow> (\<forall>w r w' stream. p w = (r, w') \<longrightarrow> prefix (view w stream) (view w' stream))"

lemma growsD: "grows view p \<Longrightarrow> p w = (r, w') \<Longrightarrow> prefix (view w stream) (view w' stream)"
  unfolding grows_def by blast

lemma andThen_eq_Inr [result_simps]:
  "andThen p k w = (Inr b, w') \<longleftrightarrow> (\<exists>a w1. p w = (Inr a, w1) \<and> k a w1 = (Inr b, w'))"
  by (auto simp: andThen_def split: prod.splits sum.splits)

lemma pureCall_eq [result_simps]: "pureCall r w = (r', w') \<longleftrightarrow> r = r' \<and> w' = w"
  by (auto simp: pureCall_def)

lemma grows_andThen:
  assumes "grows view p" and "\<And>a. grows view (k a)"
  shows "grows view (andThen p k)"
  unfolding grows_def
proof (intro allI impI)
  fix w r w' stream
  assume run: "andThen p k w = (r, w')"
  obtain r1 w1 where p: "p w = (r1, w1)" by fastforce
  then have first: "prefix (view w stream) (view w1 stream)" using assms(1) growsD by fastforce
  show "prefix (view w stream) (view w' stream)"
  proof (cases r1)
    case (Inl f)
    then show ?thesis using run p first by (simp add: andThen_def)
  next
    case (Inr a)
    then have "k a w1 = (r, w')" using run p by (simp add: andThen_def)
    then show ?thesis using first growsD [OF assms(2)] prefix_order.trans by blast
  qed
qed

lemma grows_pure: "grows view (pureCall r)"
  by (simp add: grows_def pureCall_def)

lemma grows_create_stream: "creator_law create_stream view \<Longrightarrow> grows view (create_stream_step create_stream h name subject)"
  unfolding grows_def creator_law_def create_stream_step_def by (auto split: prod.splits)

lemma grows_publish: "jetstream_law publish view \<Longrightarrow> grows view (publish_step publish cond name subject n pl)"
  unfolding grows_def publish_step_def by (auto dest: jetstream_kept split: prod.splits PublishAnswer.splits)

lemma grows_open_writer: "grows view (nats_open_writer H crc io e)"
  by (simp add: grows_def nats_open_writer_def)

lemmas grows_intros = grows_andThen grows_pure grows_create_stream grows_publish grows_open_writer

lemma grows_create_streams:
  assumes "jetstream_law publish view" and "creator_law create_stream view"
  shows "grows view (create_meta_stream crc create_stream publish ad claim a)"
    and "grows view (create_data_stream create_stream publish h ad)"
  using assms by (auto simp: create_meta_stream_def create_data_stream_def Let_def intro!: grows_intros)

text \<open>A publish step that succeeds has stored its message at the expected place.\<close>

lemma publish_step_stored:
  assumes "jetstream_law publish view" and "publish_step publish cond name subject n pl w = (Inr seq, w')"
  shows "length (view w name) \<le> unat n" and "unat n < length (view w' name)" and "view w' name ! unat n = pl"
    and "unat seq = unat n + 1"
proof -
  have "publish \<lparr>pr_subject = subject, pr_expected_last = Some n, pr_expected_stream = name, pr_payload = pl\<rparr> w = (Ack name seq, w')"
    using assms(2) by (auto simp: publish_step_def split: prod.splits PublishAnswer.splits if_splits)
  with assms(1) show "length (view w name) \<le> unat n" "unat n < length (view w' name)" "view w' name ! unat n = pl"
    "unat seq = unat n + 1"
    unfolding jetstream_law_def by fastforce+
qed

lemma nth_prefix: "prefix xs ys \<Longrightarrow> i < length xs \<Longrightarrow> ys ! i = xs ! i"
  by (auto simp: prefix_def nth_append)

lemma create_meta_stream_stored:
  assumes laws: "jetstream_law publish view" "creator_law create_stream view"
    and run: "create_meta_stream crc create_stream publish ad claim a w = (Inr (), w')"
  defines "name \<equiv> na_meta_stream_name ad"
  shows "view w name = []" and "take 3 (view w' name) = stream_messages crc [claim_bytes claim, ad_encoded_record a]"
proof -
  from run obtain w1 w2 w3 s0 s1 s2 bs where steps:
    "create_stream_step create_stream (\<lambda>_. OwnershipRecordUnreadable) name (na_meta_subject ad) w = (Inr (), w1)"
    "publish_step publish OwnershipRecordUnreadable name (na_meta_subject ad) 0 (ContainerHeader_to_bytes ContainerHeader_new) w1 = (Inr s0, w2)"
    "OwnershipRecord_encode (OwnershipClaim claim) = Some bs"
    "publish_step publish OwnershipRecordUnreadable name (na_meta_subject ad) 1 (frame_bytes crc bs) w2 = (Inr s1, w3)"
    "publish_step publish OwnershipRecordUnreadable name (na_meta_subject ad) 2 (frame_bytes crc (ad_encoded_record a)) w3 = (Inr s2, w')"
    unfolding create_meta_stream_def name_def
    by (auto simp: Let_def result_simps encode_frame_def try_encode_payload_eq_Inr)
  note p0 = publish_step_stored [OF laws(1) steps(2)] and p1 = publish_step_stored [OF laws(1) steps(4)]
    and p2 = publish_step_stored [OF laws(1) steps(5)]
  have g: "prefix (view w name) (view w1 name)" "prefix (view w2 name) (view w3 name)" "prefix (view w3 name) (view w' name)"
    using growsD [OF grows_create_stream [OF laws(2)] steps(1)] growsD [OF grows_publish [OF laws(1)] steps(4)]
      growsD [OF grows_publish [OF laws(1)] steps(5)] by blast+
  show "view w name = []" using p0(1) prefix_length_le [OF g(1)] by simp
  have m0: "view w' name ! 0 = ContainerHeader_to_bytes ContainerHeader_new"
    using p0(2,3) nth_prefix [OF g(2), of 0] nth_prefix [OF g(3), of 0] prefix_length_le [OF g(2)] by fastforce
  have m1: "view w' name ! 1 = frame_bytes crc (claim_bytes claim)"
    using p1(2,3) nth_prefix [OF g(3), of 1] steps(3) by (simp add: claim_bytes_def)
  have m2: "view w' name ! 2 = frame_bytes crc (ad_encoded_record a)" "2 < length (view w' name)" using p2(2,3) by simp_all
  have "take 3 xs = [xs ! 0, xs ! 1, xs ! 2]" if "2 < length xs" for xs :: "bytes list"
    using that by (cases xs rule: list.exhaust; cases "List.tl xs"; cases "List.tl (List.tl xs)") (auto simp: numeral_3_eq_3 numeral_2_eq_2)
  from this [OF m2(2)] m0 m1 m2(1) show "take 3 (view w' name) = stream_messages crc [claim_bytes claim, ad_encoded_record a]"
    by (simp add: stream_messages_def)
qed

lemma create_data_stream_stored:
  assumes laws: "jetstream_law publish view" "creator_law create_stream view"
    and run: "create_data_stream create_stream publish h ad w = (Inr seq, w')"
  defines "name \<equiv> na_data_stream_name ad"
  shows "view w name = []" and "take 1 (view w' name) = stream_messages crc []" and "seq = 1"
proof -
  from run obtain w1 where steps: "create_stream_step create_stream h name (na_data_subject ad) w = (Inr (), w1)"
    "publish_step publish (PrecursorChainBroken None) name (na_data_subject ad) 0 (ContainerHeader_to_bytes ContainerHeader_new) w1 = (Inr seq, w')"
    unfolding create_data_stream_def name_def by (auto simp: result_simps)
  note p0 = publish_step_stored [OF laws(1) steps(2)]
  have "prefix (view w name) (view w1 name)" using growsD [OF grows_create_stream [OF laws(2)] steps(1)] by blast
  then show "view w name = []" using p0(1) prefix_length_le by fastforce
  show "take 1 (view w' name) = stream_messages crc []"
    using p0(2,3) by (cases "view w' name") (simp_all add: stream_messages_def)
  show "seq = 1" using p0(4) by (simp add: word_unat_eq_iff)
qed

section \<open>Creation is exclusive\<close>

text \<open>What a successful creation establishes about the two streams: both were empty, the ownership stream starts with
  the header, the claim and the descriptor, the event stream with the header.\<close>

definition created_streams :: "crc32c \<Rightarrow> ('w \<Rightarrow> bytes \<Rightarrow> bytes list) \<Rightarrow> NatsStorageAdapter \<Rightarrow> OwnershipClaimRecord \<Rightarrow>
    AdmittedDescriptor \<Rightarrow> 'w \<Rightarrow> bool" where
  "created_streams crc view ad claim a w \<longleftrightarrow>
     take 3 (view w (na_meta_stream_name ad)) = stream_messages crc [claim_bytes claim, ad_encoded_record a] \<and>
     take 1 (view w (na_data_stream_name ad)) = stream_messages crc []"


lemma nats_create_stored:
  assumes laws: "jetstream_law publish view" "creator_law create_stream view"
    and run: "nats_create H crc create_stream publish io ad claim a w = (Inr st, w')"
  shows "view w (na_meta_stream_name ad) = []" and "view w (na_data_stream_name ad) = []"
    and "created_streams crc view ad claim a w'"
    and "open_writer H crc (on_world (nats_recover_frames crc (nc_recover io)))
      (nats_engine_for ad (na_meta_subject ad) (na_data_subject ad) (claim_epoch claim) (Some claim)
        (MetaRecords_default\<lparr>mr_latest_claim := Some claim, mr_schema_descriptor := Some (ad_descriptor a)\<rparr>) Ready 1 False, w') = Inr st"
proof -
  from run obtain w1 seq where steps: "create_meta_stream crc create_stream publish ad claim a w = (Inr (), w1)"
    "create_data_stream create_stream publish (\<lambda>_. PrecursorChainBroken None) ad w1 = (Inr seq, w')"
    "open_writer H crc (on_world (nats_recover_frames crc (nc_recover io)))
      (nats_engine_for ad (na_meta_subject ad) (na_data_subject ad) (claim_epoch claim) (Some claim)
        (MetaRecords_default\<lparr>mr_latest_claim := Some claim, mr_schema_descriptor := Some (ad_descriptor a)\<rparr>) Ready seq False, w') = Inr st"
    by (auto simp: nats_create_def nats_create_with_limit_def nats_open_writer_def result_simps)
  note m = create_meta_stream_stored [OF laws steps(1)] and d = create_data_stream_stored [OF laws steps(2)]
  have g: "prefix (view w stream) (view w1 stream)" "prefix (view w1 stream) (view w' stream)" for stream
    using growsD [OF grows_create_streams(1) [OF laws] steps(1)] growsD [OF grows_create_streams(2) [OF laws] steps(2)] by blast+
  show "view w (na_meta_stream_name ad) = []" by (rule m(1))
  show "view w (na_data_stream_name ad) = []" using d(1) g(1) [of "na_data_stream_name ad"] by simp
  show "created_streams crc view ad claim a w'"
    using m(2) d(2) prefix_take [OF g(2), of 3 "na_meta_stream_name ad"] by (simp add: created_streams_def stream_messages_def)
  show "open_writer H crc (on_world (nats_recover_frames crc (nc_recover io)))
      (nats_engine_for ad (na_meta_subject ad) (na_data_subject ad) (claim_epoch claim) (Some claim)
        (MetaRecords_default\<lparr>mr_latest_claim := Some claim, mr_schema_descriptor := Some (ad_descriptor a)\<rparr>) Ready 1 False, w') = Inr st"
    using steps(3) d(3) by simp
qed

section \<open>Opening what is stored\<close>

text \<open>The answers of a server that holds the two streams, each bound to the subject the adapter expects.\<close>

definition open_serves :: "NatsStorageAdapter \<Rightarrow> bytes list \<Rightarrow> bytes list \<Rightarrow> NatsOpenIo \<Rightarrow> bool" where
  "open_serves ad meta_messages data_messages io \<longleftrightarrow>
     no_presence_meta io = Inr () \<and> no_presence_data io = Inr () \<and>
     resolve_open_subjects (no_inspect_meta io) (no_inspect_data io) ad Both =
       Inr \<lparr>rs_meta_subject = Some (na_meta_subject ad), rs_data_subject = Some (na_data_subject ad)\<rparr> \<and>
     serves meta_messages (no_meta io) \<and> serves data_messages (no_data io) \<and>
     serves data_messages (fst (no_recover io)) \<and> (\<forall>seq. snd (no_recover io) seq = Inr ())"

lemma nats_open_write_opens:
  assumes "jetstream_law publish view" and "valid_log H log" and "log_fits log" and "list_all EventEnvelope_wf log"
    and "list_all (\<lambda>p. length p \<le> U32_MAX) (map envelope_bytes log)" and "Suc (length log) < 2 ^ 64"
    and "list_all (\<lambda>p. length p \<le> U32_MAX) rs" and "Suc (length rs) < 2 ^ 64"
    and "read_meta_frames MetaRecords_default rs = Inr meta" and "admit_write H meta epoch = Inr claim"
    and "view w (na_data_stream_name ad) = stream_messages crc (map envelope_bytes log)"
    and "open_serves ad (stream_messages crc rs) (stream_messages crc (map envelope_bytes log)) io"
  shows "\<exists>st ad'. nats_open_write H crc create_stream publish io ad epoch w = (Inr st, ad', w) \<and>
    nats_holds H crc publish view log st \<and> ne_carried_epoch (fst (st_engine st)) = epoch \<and>
    snd (st_engine st) = w \<and> ne_data_stream_name (fst (st_engine st)) = na_data_stream_name ad"
proof -
  let ?e = "nats_engine_for ad (na_meta_subject ad) (na_data_subject ad) epoch (Some claim) meta Ready
    (of_nat (Suc (length (map envelope_bytes log)))) ((1 :: u64) < of_nat (Suc (length (map envelope_bytes log))))"
  note s = assms(12) [unfolded open_serves_def]
  have m: "read_meta_records_async crc (no_meta io) = Inr meta" using meta_records_serves [OF _ assms(7,8)] s assms(9) by simp
  have d: "open_data_stream (no_data io) = Inr (ContainerHeader_new, 1, of_nat (Suc (length (map envelope_bytes log))),
      of_nat (Suc (length (map envelope_bytes log))))"
    using open_data_stream_serves [of crc "map envelope_bytes log"] s assms(6) by simp
  obtain st where st: "open_writer H crc (on_world (nats_recover_frames crc (no_recover io))) (?e, w) = Inr st"
    "nats_holds H crc publish view log st" "st_engine st = (?e\<lparr>ne_last_data_seq := of_nat (Suc (length log))\<rparr>, w)"
    using nats_writer_opens [OF assms(1-6), of ?e w crc "no_recover io"] assms(11) s
    by (auto simp: nats_engine_for_def)
  have "nats_try_presence (no_presence_meta io) (no_presence_data io) = Inr Both"
    using s by (simp add: nats_try_presence_def stream_exists_def)
  then have "nats_open_write H crc create_stream publish io ad epoch w = (Inr st, cache_resolved_subjects ad
      \<lparr>rs_meta_subject = Some (na_meta_subject ad), rs_data_subject = Some (na_data_subject ad)\<rparr>, w)"
    using s m d assms(10) st(1)
    by (simp add: nats_open_write_def nats_open_write_present_def nats_open_writer_def del: of_nat_Suc)
  then show ?thesis using st by (auto simp: nats_engine_for_def)
qed

lemma nats_holds_parts:
  assumes "nats_holds H crc publish view log st"
  shows "valid_log H log" and "log_fits log" and "list_all EventEnvelope_wf log"
    and "list_all (\<lambda>p. length p \<le> U32_MAX) (map envelope_bytes log)"
  using assms indexes_fits by (auto simp: store_holds_def indexes_def nats_stores_def)

text \<open>The ownership records of a created artefact, as a server that holds them lets them be read.\<close>

lemma created_records:
  assumes "creatable H claim a"
  shows "list_all (\<lambda>p. length p \<le> U32_MAX) [claim_bytes claim, ad_encoded_record a]"
    and "read_meta_frames MetaRecords_default [claim_bytes claim, ad_encoded_record a] =
      Inr (MetaRecords_default\<lparr>mr_latest_claim := Some claim, mr_schema_descriptor := Some (ad_descriptor a)\<rparr>)"
    and "admit_write H (MetaRecords_default\<lparr>mr_latest_claim := Some claim, mr_schema_descriptor := Some (ad_descriptor a)\<rparr>)
      (claim_epoch claim) = Inr claim"
  using created_meta_small(1) [OF assms] creatable_frames(2) [OF assms] assms
  by (auto simp: admit_write_eq_Inr creatable_def MetaRecords_default_def)

section \<open>A creation that stops before the header of the event stream\<close>

text \<open>Once both streams exist but the event stream is empty, no operation but deletion gets on: creating and completing
  are refused because the artefact exists, opening for writing because the container header is missing.\<close>

lemma headerless_event_stream_stuck:
  assumes "sr_info data = Inr info" and "in_messages info = 0"
  shows "nc_presence_meta cio = Inr () \<Longrightarrow> nc_presence_data cio = Inr () \<Longrightarrow>
      nats_create H crc create_stream publish cio ad claim a w = (Inl StoreAlreadyExists, w)"
    and "nk_presence_meta kio = Inr () \<Longrightarrow> nk_presence_data kio = Inr () \<Longrightarrow>
      nats_complete_creation H crc create_stream publish kio ad claim w = (Inl StoreAlreadyExists, ad, w)"
    and "no_presence_meta io = Inr () \<Longrightarrow> no_presence_data io = Inr () \<Longrightarrow> no_data io = data \<Longrightarrow>
      \<exists>f ad'. nats_open_write H crc create_stream publish io ad epoch w = (Inl f, ad', w)"
proof -
  have both: "nats_try_presence (Inr ()) (Inr ()) = Inr Both" by (simp add: nats_try_presence_def stream_exists_def)
  then show "nc_presence_meta cio = Inr () \<Longrightarrow> nc_presence_data cio = Inr () \<Longrightarrow>
      nats_create H crc create_stream publish cio ad claim a w = (Inl StoreAlreadyExists, w)"
    by (simp add: nats_create_def nats_create_with_limit_def andThen_def pureCall_def)
  from both show "nk_presence_meta kio = Inr () \<Longrightarrow> nk_presence_data kio = Inr () \<Longrightarrow>
      nats_complete_creation H crc create_stream publish kio ad claim w = (Inl StoreAlreadyExists, ad, w)"
    by (simp add: nats_complete_creation_def)
  have "\<nexists>r. open_data_stream data = Inr r" using assms by (auto simp: open_data_stream_def result_simps)
  with both show "no_presence_meta io = Inr () \<Longrightarrow> no_presence_data io = Inr () \<Longrightarrow> no_data io = data \<Longrightarrow>
      \<exists>f ad'. nats_open_write H crc create_stream publish io ad epoch w = (Inl f, ad', w)"
    by (auto simp: nats_open_write_def nats_open_write_present_def result_bind_def Let_def split: sum.splits)
qed

section \<open>A sample artefact on a server\<close>

text \<open>A server with named streams that always answers, and one that stores what it is sent but whose acknowledgements
  are lost.\<close>

definition named_streams :: "(bytes \<Rightarrow> bytes list) publisher" where
  "named_streams req w =
    (case single_stream req (w (pr_expected_stream req)) of (answer, ms) \<Rightarrow> (answer, w(pr_expected_stream req := ms)))"

definition deaf_stream :: "bytes list publisher" where
  "deaf_stream req ms = (Ack_timeout, ms @ [pr_payload req])"

definition fresh_stream :: "'w stream_creator" where
  "fresh_stream name subjects w = (Inr (), w)"

lemma sample_server_laws: "jetstream_law named_streams (\<lambda>w. w)" "jetstream_law deaf_stream the_stream" "creator_law fresh_stream view"
proof -
  show "jetstream_law named_streams (\<lambda>w. w)"
    using single_stream_law unfolding jetstream_law_def named_streams_def by (fastforce split: prod.splits)
qed (auto simp: jetstream_law_def deaf_stream_def creator_law_def fresh_stream_def)

definition sample_nats_adapter :: NatsStorageAdapter where
  "sample_nats_adapter = into_instance (ascii ''s'') \<lparr>nl_tokens = [ascii ''s''], nl_stream_stem = ascii ''s'',
     nl_subject_prefix = ascii ''s'', nl_meta_stream_name = ascii ''s_meta'', nl_data_stream_name = ascii ''s_data'',
     nl_meta_subject = ascii ''s.meta'', nl_data_subject = ascii ''s.data''\<rparr> (ascii ''s.meta'') (ascii ''s.data'')"

lemma sample_nats_adapter_is: "from_client_internal (ascii ''s'') = Some sample_nats_adapter"
  by (simp add: from_client_internal_def subjects_for_stem_def from_stem_def NatsLocator_new_def from_tokens_def result_bind_def
      verify_token_def nats_safe_def is_ascii_alphanumeric_def sample_nats_adapter_def ascii_def Let_def)

lemma sample_nats_adapter_names [simp]:
  "na_meta_stream_name sample_nats_adapter = ascii ''s_meta''" "na_data_stream_name sample_nats_adapter = ascii ''s_data''"
  by (simp_all add: sample_nats_adapter_def into_instance_def ascii_def)

definition absent_stream :: "GetStreamError + unit" where
  "absent_stream = Inl (GetStream_JetStream STREAM_NOT_FOUND)"

definition sample_create_io :: NatsCreateIo where
  "sample_create_io = \<lparr>nc_presence_meta = absent_stream, nc_presence_data = absent_stream, nc_recover = sample_answers\<rparr>"

abbreviation created_meta_messages :: "bytes list" where
  "created_meta_messages \<equiv> stream_messages sample_crc [claim_bytes sample_claim_record, ad_encoded_record sample_descriptor]"

definition sample_created_world :: "bytes \<Rightarrow> bytes list" where
  "sample_created_world = (\<lambda>_. [])(ascii ''s_meta'' := created_meta_messages, ascii ''s_data'' := stream_messages sample_crc [])"

definition bound_to :: "bytes \<Rightarrow> StreamReads" where
  "bound_to subject = (reads_of [])\<lparr>sr_info := Inr \<lparr>in_messages = 0, in_first_sequence = 0, in_last_sequence = 0, in_subjects = [subject]\<rparr>\<rparr>"

definition sample_open_io :: "bytes list \<Rightarrow> NatsOpenIo" where
  "sample_open_io data_messages = \<lparr>no_presence_meta = Inr (), no_presence_data = Inr (), no_incomplete_meta = reads_of [],
     no_complete = \<lparr>nk_presence_meta = absent_stream, nk_presence_data = absent_stream, nk_inspect = reads_of [],
       nk_meta = reads_of [], nk_recover = sample_answers\<rparr>,
     no_inspect_meta = bound_to (ascii ''s.meta''), no_inspect_data = bound_to (ascii ''s.data''),
     no_meta = reads_of created_meta_messages, no_data = reads_of data_messages,
     no_recover = (reads_of data_messages, \<lambda>_. Inr ())\<rparr>"

lemma sample_open_serves:
  "length ms < 2 ^ 64 \<Longrightarrow> open_serves sample_nats_adapter created_meta_messages ms (sample_open_io ms)"
  using reads_of_serves [of ms] reads_of_serves [of created_meta_messages]
  by (simp add: open_serves_def sample_open_io_def sample_nats_adapter_def into_instance_def resolve_open_subjects_def
      inspect_stream_subject_def bound_to_def reads_of_def map_err_def result_bind_def)

definition sample_created_engine :: NatsEngine where
  "sample_created_engine = nats_engine_for sample_nats_adapter (na_meta_subject sample_nats_adapter)
     (na_data_subject sample_nats_adapter) (claim_epoch sample_claim_record) (Some sample_claim_record)
     (MetaRecords_default\<lparr>mr_latest_claim := Some sample_claim_record,
        mr_schema_descriptor := Some (ad_descriptor sample_descriptor)\<rparr>) Ready 1 False"

lemma sample_nats_create:
  obtains st where "nats_create sample_hash sample_crc fresh_stream named_streams sample_create_io sample_nats_adapter
      sample_claim_record sample_descriptor (\<lambda>_. []) = (Inr st, sample_created_world)"
    and "nats_holds sample_hash sample_crc named_streams (\<lambda>w. w) [] st" and "st_engine st = (sample_created_engine, sample_created_world)"
proof -
  let ?meta = "create_meta_stream sample_crc fresh_stream named_streams sample_nats_adapter sample_claim_record sample_descriptor"
  let ?data = "create_data_stream fresh_stream named_streams (\<lambda>_. PrecursorChainBroken None) sample_nats_adapter"
  obtain bs where bs: "OwnershipRecord_encode (OwnershipClaim sample_claim_record) = Some bs" "length bs = 69"
    using sample_claim_encoded by blast
  have frames: "try_encode_payload sample_crc bs = Inr (frame_bytes sample_crc bs)"
    "try_encode_payload sample_crc (ad_encoded_record sample_descriptor) = Inr (frame_bytes sample_crc (ad_encoded_record sample_descriptor))"
    using bs(2) by (simp_all add: try_encode_payload_eq_Inr sample_descriptor_def U32_bound)
  have meta: "?meta (\<lambda>_. []) = (Inr (), (\<lambda>_. [])(ascii ''s_meta'' := created_meta_messages))"
    using bs frames
    by (simp add: ascii_def create_meta_stream_def andThen_def create_stream_step_def publish_step_def pureCall_def named_streams_def
        single_stream_def fresh_stream_def sample_nats_adapter_def into_instance_def Let_def result_bind_def map_err_def
        encode_frame_def stream_messages_def claim_bytes_def)
  have data: "?data ((\<lambda>_. [])(ascii ''s_meta'' := created_meta_messages)) = (Inr 1, sample_created_world)"
    by (simp add: create_data_stream_def andThen_def create_stream_step_def publish_step_def named_streams_def ascii_def
        single_stream_def fresh_stream_def sample_nats_adapter_def into_instance_def map_err_def sample_created_world_def stream_messages_def)
  have nil: "valid_log sample_hash []" "log_fits []" using session.keeps_start [of sample_hash] indexes_fits by (auto simp: indexes_def)
  obtain st where st: "open_writer sample_hash sample_crc (on_world (nats_recover_frames sample_crc sample_answers))
      (sample_created_engine, sample_created_world) = Inr st"
    "nats_holds sample_hash sample_crc named_streams (\<lambda>w. w) [] st" "st_engine st = (sample_created_engine, sample_created_world)"
    using nats_writer_opens [OF sample_server_laws(1) nil, of sample_created_engine sample_created_world sample_crc sample_answers] reads_of_serves
    by (auto simp: sample_created_engine_def nats_engine_for_def sample_created_world_def)
  obtain n where "compute_claim_wire_len_bounded (length (claim_operator_label sample_claim_record)) U32_MAX = Inr n"
    by (simp add: compute_claim_wire_len_bounded_def checked_add_def u32_try_from_def sample_claim_record_def U32_bound USIZE_bound)
  then have "nats_create sample_hash sample_crc fresh_stream named_streams sample_create_io sample_nats_adapter
      sample_claim_record sample_descriptor (\<lambda>_. []) = (Inr st, sample_created_world)"
    using meta data st(1) [unfolded sample_created_engine_def]
    by (simp add: nats_create_def nats_create_with_limit_def andThen_def pureCall_def nats_open_writer_def sample_create_io_def
        nats_try_presence_def stream_exists_def absent_stream_def)
  with st show thesis using that by blast
qed

lemma empty_log_fiber: "nats_holds H crc publish view [] st \<Longrightarrow> store_fiber H nats_unsure st f = Inr (FiberHandle_new f)"
  by (simp add: store_fiber_def store_holds_def index_fiber_def indexes_def log_slot_def fiber_events_def)

text \<open>A genesis event lands in the created artefact.\<close>

lemma sample_created_run:
  assumes "nats_holds sample_hash sample_crc named_streams (\<lambda>w. w) [] st" and "st_engine st = (sample_created_engine, sample_created_world)"
  obtains st' where "session_run sample_hash sample_crc nats_unsure (nats_check sample_crc) (nats_append_block sample_crc named_streams)
      st [sample_event] st'" and "\<not> session_unsure nats_unsure st'"
    and "stream_of (\<lambda>w. w) st' = stream_messages sample_crc [envelope_bytes sample_event]"
proof -
  let ?m = "reads_of created_meta_messages" and ?b = "frame_bytes sample_crc (envelope_bytes sample_event)"
  have "read_meta_records_async sample_crc ?m = read_meta_frames MetaRecords_default [claim_bytes sample_claim_record, ad_encoded_record sample_descriptor]"
    using meta_records_serves [OF reads_of_serves created_records(1) [OF sample_creatable]] by simp
  with created_records(2) [OF sample_creatable] have chk: "nats_check sample_crc ?m (st_engine st) = Inr ()"
    by (simp add: assms(2) nats_check_authority_iff nats_authorised_def MetaRecords_default_def sample_created_engine_def nats_engine_for_def)
  have fiber: "store_fiber sample_hash nats_unsure st zero_id = Inr (FiberHandle_new zero_id)"
    using empty_log_fiber [OF assms(1)] .
  obtain h' where step: "handle_step sample_hash Append (FiberHandle_new zero_id) (replicate 16 1) [] = Inr (sample_event, h')"
    using sample_handle(2) by blast
  let ?e = "sample_created_engine\<lparr>ne_last_data_seq := 2, ne_data_events_landed := True\<rparr>"
  let ?w = "sample_created_world(ascii ''s_data'' := stream_messages sample_crc [envelope_bytes sample_event])"
  have app: "nats_append_block sample_crc named_streams ?m (st_engine st) ?b = (Inr (Landed 2), (?e, ?w))"
    using chk assms(2) by (simp add: nats_append_block_def publish_request_def named_streams_def single_stream_def settle_publish_def
        sample_created_engine_def nats_engine_for_def sample_created_world_def stream_messages_def)
  note reach = nats_engine.fiber_operation_reaches [where chk = "nats_check sample_crc ?m" and chk' = "nats_check sample_crc ?m",
      OF assms(1) sample_digest _ _ chk chk fiber step sample_event_new sample_event_valid(3) sample_event_fits app]
  then obtain st' where op: "fiber_operation Append sample_hash sample_crc nats_unsure (nats_check sample_crc ?m) (nats_check sample_crc ?m)
      (nats_append_block sample_crc named_streams ?m) st zero_id (replicate 16 1) [] = (Inr (Landed sample_event), st')"
    and e: "st_engine st' = (?e, ?w)" by simp
  from session_run.landed [where check = "nats_check sample_crc" and app = "nats_append_block sample_crc named_streams" and
      a = ?m and ?c1.0 = ?m and ?c2.0 = ?m, OF session_run.finished _ _ op]
  have run: "session_run sample_hash sample_crc nats_unsure (nats_check sample_crc) (nats_append_block sample_crc named_streams)
      st [sample_event] st'" by simp
  have "nats_holds sample_hash sample_crc named_streams (\<lambda>w. w) [sample_event] st'"
    using nats_engine.fiber_operation_landed [OF op assms(1) sample_digest] by simp
  then have "\<not> session_unsure nats_unsure st'" by (simp add: store_holds_def)
  moreover have "stream_of (\<lambda>w. w) st' = stream_messages sample_crc [envelope_bytes sample_event]"
    by (simp add: stream_of_def e sample_created_engine_def nats_engine_for_def)
  ultimately show thesis using that run by blast
qed

section \<open>Properties\<close>



text \<open>C8: the life of an artefact on a server. An artefact that is created, written to by one session under any answers of
  the server, and whose event stream is opened again as that session left it, with nothing stored behind its last
  landed event, is opened with the epoch of its claim, and the new session holds exactly the events that landed, also
  when the session that wrote them had become uncertain. A write stored without having landed is the subject of C7.\<close>

theorem nats_artefact_lifecycle:
  assumes "jetstream_law publish view" and "creator_law create_stream view" and "digest H" and "creatable H claim a"
    and "nats_create H crc create_stream publish cio ad claim a w = (Inr st, w1)"
    and "view w1 (na_data_stream_name ad) = stream_messages crc []" and "serves (stream_messages crc []) (fst (nc_recover cio))"
    and "\<forall>seq. snd (nc_recover cio) seq = Inr ()"
    and "session_run H crc nats_unsure (nats_check crc) (nats_append_block crc publish) st es st'"
    and "Suc (length es) < 2 ^ 64"
    and "view w2 (na_data_stream_name ad) = stream_of view st'" and "length (stream_of view st') = Suc (length es)"
    and "open_serves ad (stream_messages crc [claim_bytes claim, ad_encoded_record a]) (stream_of view st') io"
  shows "\<exists>st2 ad'. nats_open_write H crc create_stream publish io ad (claim_epoch claim) w2 = (Inr st2, ad', w2) \<and>
    nats_holds H crc publish view es st2 \<and> valid_log H es"
proof -
  let ?e = "nats_engine_for ad (na_meta_subject ad) (na_data_subject ad) (claim_epoch claim) (Some claim)
        (MetaRecords_default\<lparr>mr_latest_claim := Some claim, mr_schema_descriptor := Some (ad_descriptor a)\<rparr>) Ready 1 False"
  note r = created_records [OF assms(4)]
  have nil: "valid_log H []" "log_fits []" using session.keeps_start [of H] indexes_fits by (auto simp: indexes_def)
  have "open_writer H crc (on_world (nats_recover_frames crc (nc_recover cio))) (?e, w1) = Inr st"
    using nats_create_stored(4) [OF assms(1,2,5)] .
  moreover obtain st0 where "open_writer H crc (on_world (nats_recover_frames crc (nc_recover cio))) (?e, w1) = Inr st0"
    "nats_holds H crc publish view [] st0"
    using nats_writer_opens [OF assms(1) nil, of ?e w1 crc "nc_recover cio"] assms(6-8) by (auto simp: nats_engine_for_def)
  ultimately have start: "nats_holds H crc publish view [] st" by simp
  obtain stx where held: "nats_holds H crc publish view es stx"
    using nats_engine.session_run_held [OF assms(9) start assms(3)] by auto
  note parts = nats_holds_parts [OF held]
  have stream: "stream_of view st' = stream_messages crc (map envelope_bytes es)"
    using nats_session_stored [OF assms(9) start assms(3,1)] assms(12) by simp
  from nats_open_write_opens [OF assms(1) parts assms(10) r(1) _ r(2,3), of w2 ad crc io create_stream] assms(11,13) stream parts(1)
  show ?thesis by auto
qed

theorem nats_artefact_lifecycle_witness:
  "\<exists>st st' w2 st2 ad'. nats_create sample_hash sample_crc fresh_stream named_streams sample_create_io sample_nats_adapter
      sample_claim_record sample_descriptor (\<lambda>_. []) = (Inr st, sample_created_world) \<and>
    session_run sample_hash sample_crc nats_unsure (nats_check sample_crc) (nats_append_block sample_crc named_streams)
      st [sample_event] st' \<and>
    nats_open_write sample_hash sample_crc fresh_stream named_streams
      (sample_open_io (stream_messages sample_crc [envelope_bytes sample_event]))
      sample_nats_adapter (claim_epoch sample_claim_record) w2 = (Inr st2, ad', w2) \<and>
    nats_holds sample_hash sample_crc named_streams (\<lambda>w. w) [sample_event] st2"
proof -
  let ?ms = "stream_messages sample_crc [envelope_bytes sample_event]" and ?w2 = "\<lambda>_. stream_messages sample_crc [envelope_bytes sample_event]"
  obtain st where c: "nats_create sample_hash sample_crc fresh_stream named_streams sample_create_io sample_nats_adapter
      sample_claim_record sample_descriptor (\<lambda>_. []) = (Inr st, sample_created_world)"
    "nats_holds sample_hash sample_crc named_streams (\<lambda>w. w) [] st" "st_engine st = (sample_created_engine, sample_created_world)"
    using sample_nats_create by blast
  obtain st' where run: "session_run sample_hash sample_crc nats_unsure (nats_check sample_crc) (nats_append_block sample_crc named_streams)
      st [sample_event] st'" "\<not> session_unsure nats_unsure st'" "stream_of (\<lambda>w. w) st' = ?ms"
    using sample_created_run [OF c(2,3)] by blast
  have answers: "serves (stream_messages sample_crc []) (fst (nc_recover sample_create_io))"
      "\<forall>seq. snd (nc_recover sample_create_io) seq = Inr ()"
    using reads_of_serves by (simp_all add: sample_create_io_def)
  have stream: "sample_created_world (na_data_stream_name sample_nats_adapter) = stream_messages sample_crc []"
    by (simp add: sample_created_world_def)
  have "\<exists>st2 ad'. nats_open_write sample_hash sample_crc fresh_stream named_streams (sample_open_io ?ms)
      sample_nats_adapter (claim_epoch sample_claim_record) ?w2 = (Inr st2, ad', ?w2) \<and>
    nats_holds sample_hash sample_crc named_streams (\<lambda>w. w) [sample_event] st2 \<and> valid_log sample_hash [sample_event]"
    by (rule nats_artefact_lifecycle [where view = "\<lambda>w. w", OF sample_server_laws(1,3) sample_digest sample_creatable c(1) stream answers run(1)])
      (simp_all add: run(3) sample_open_serves)
  with c(1) run(1) show ?thesis by blast
qed



end
