(* ===== verification/Nats_Reader.thy ===== *)
theory Nats_Reader
  imports Nats_Adapter Read_Contract
begin

text \<open>
  What sessions on a server read back: the NATS engine keeps the contract of \<open>Read_Contract\<close> as long as the server
  answers from a stream that holds the frames, so the read sessions of \<open>adapter.rs\<close> (\<open>open_read\<close>, \<open>read_envelopes\<close>)
  return exactly the log of the stream, in whatever batches the messages arrive.
\<close>

text \<open>An engine on a server keeps no frames itself: what it stores is what the server answers.\<close>

abbreviation nats_reader_holds :: "blake3 \<Rightarrow> crc32c \<Rightarrow> EventEnvelope list \<Rightarrow> NatsEngine Store \<Rightarrow> bool" where
  "nats_reader_holds H crc \<equiv> reader_keeps (\<lambda>ps e. list_all (\<lambda>p. length p \<le> U32_MAX) ps) H crc"

definition answers_frames :: "crc32c \<Rightarrow> recover_answers \<Rightarrow> bytes list \<Rightarrow> bool" where
  "answers_frames crc io ps \<longleftrightarrow> serves (stream_messages crc ps) (fst io) \<and> (\<forall>seq. snd io seq = Inr ()) \<and> Suc (length ps) < 2 ^ 64"

lemma nats_recover_answered:
  assumes "list_all (\<lambda>p. length p \<le> U32_MAX) ps" and "answers_frames crc io ps"
  shows "\<exists>e'. nats_recover_frames crc io e 64 cb s = recovered ps (deliver cb 0 ps s) e' \<and> list_all (\<lambda>p. length p \<le> U32_MAX) ps"
proof -
  obtain r s' where d: "deliver cb 0 ps s = (r, s')" by fastforce
  have "serves (stream_messages crc ps) (fst io)" "Suc (length ps) < 2 ^ 64" "\<forall>seq. snd io seq = Inr ()" "64 \<le> USIZE_MAX"
    using assms(2) by (simp_all add: answers_frames_def USIZE_bound)
  from nats_recover_serves [OF this(1) assms(1) this(2-4), of e cb s] show ?thesis
    using assms(1) d by (cases r) (auto simp: recovered_def)
qed

interpretation nats_reader: readable_engine crc "\<lambda>ps e. list_all (\<lambda>p. length p \<le> U32_MAX) ps" "answers_frames crc"
  "\<lambda>io. nats_read_all crc (fst io)" "nats_recover_frames crc" "nats_recover_frames crc" for crc
proof unfold_locales
  fix ps e io assume "list_all (\<lambda>p. length p \<le> U32_MAX) ps" "answers_frames crc io ps"
  then show "\<exists>e'. nats_read_all crc (fst io) e = (Inr ps, e') \<and> list_all (\<lambda>p. length p \<le> U32_MAX) ps"
    using data_frames_serves [of crc ps "fst io"] by (simp add: nats_read_all_def answers_frames_def)
qed (assumption, (rule nats_recover_answered, assumption+)+)

section \<open>Opening a reader\<close>

text \<open>The answers a read session gets from a server that holds both streams.\<close>

definition read_serves :: "crc32c \<Rightarrow> NatsStorageAdapter \<Rightarrow> MetaRecords \<Rightarrow> bytes list \<Rightarrow> NatsOpenReadIo \<Rightarrow> bool" where
  "read_serves crc ad meta ps io \<longleftrightarrow>
     nr_presence_meta io = Inr () \<and> nr_presence_data io = Inr () \<and> read_meta_records_async crc (nr_meta io) = Inr meta \<and>
     (\<exists>resolved. resolve_open_subjects (nr_inspect_meta io) (nr_inspect_data io) ad Both = Inr resolved) \<and>
     answers_frames crc (nr_recover io) ps"

lemma nats_open_read_holds:
  assumes "valid_log H log" and "log_fits log" and "list_all EventEnvelope_wf log"
    and "list_all (\<lambda>p. length p \<le> U32_MAX) (map envelope_bytes log)"
    and "read_serves crc ad meta (map envelope_bytes log) io"
  shows "\<exists>st ad'. nats_open_read H crc io ad = (Inr st, ad') \<and> nats_reader_holds H crc log st"
proof -
  have "nats_reader_holds H crc log (open_reader H crc (nats_recover_frames crc (nr_recover io)) e)" for e
    using nats_reader.reader_opens [OF assms(1-4), of crc "nr_recover io" e] assms(5) by (simp add: read_serves_def)
  moreover have "nats_try_presence (nr_presence_meta io) (nr_presence_data io) = Inr Both"
    using assms(5) by (simp add: read_serves_def nats_try_presence_def stream_exists_def)
  ultimately show ?thesis
    using assms(5) by (auto simp: read_serves_def nats_open_read_def result_bind_def Let_def)
qed

section \<open>Properties\<close>

text \<open>C14: a reader on a server sees the log: opened on an artefact whose event stream holds the frames of a valid log,
  a read session succeeds, reading all envelopes returns exactly that log, folding a function that may fail over the
  stream gives the fold over the log, and the adapter as a migration source reads the same log. None of it depends
  on how the server splits the messages into batches or on what its inspection of the streams adds.\<close>

theorem nats_reader_reads_log:
  assumes "valid_log H log" and "log_fits log" and "list_all EventEnvelope_wf log"
    and "list_all (\<lambda>p. length p \<le> U32_MAX) (map envelope_bytes log)"
    and "read_serves crc ad meta (map envelope_bytes log) io"
    and "answers_frames crc io2 (map envelope_bytes log)"
  shows "\<exists>st ad' st1 st2. nats_open_read H crc io ad = (Inr st, ad') \<and>
    read_all_envelopes H crc (nats_read_all crc (fst io2)) st = (Inr log, st1) \<and>
    fold_envelopes H crc (nats_recover_frames crc io2) st1 init f = (Some (fold_events f init log), st2) \<and>
    nats_reader_holds H crc log st2 \<and> nats_read_envelopes H crc io (fst io2) ad = Inr log"
proof -
  obtain st ad' where st: "nats_open_read H crc io ad = (Inr st, ad')" "nats_reader_holds H crc log st"
    using nats_open_read_holds [OF assms(1-5)] by blast
  obtain st1 where st1: "read_all_envelopes H crc (nats_read_all crc (fst io2)) st = (Inr log, st1)" "nats_reader_holds H crc log st1"
    using nats_reader.read_all_reads [OF st(2) assms(6)] unfolding read_all_envelopes_def by blast
  obtain st2 where "fold_envelopes H crc (nats_recover_frames crc io2) st1 init f = (Some (fold_events f init log), st2)"
    "nats_reader_holds H crc log st2"
    using nats_reader.for_each_reads [OF st1(2) assms(6), of "fold_visitor f" "(Some init, False)"] fold_envelopes_eq by metis
  moreover have "nats_read_envelopes H crc io (fst io2) ad = Inr log"
    using nats_reader.read_all_reads [OF st(2) assms(6), where b = True] st(1)
    by (auto simp: nats_read_envelopes_def read_all_envelopes_for_migration_def)
  ultimately show ?thesis using st(1) st1(1) by blast
qed

section \<open>A sample stream with one event\<close>

definition sample_read_io :: NatsOpenReadIo where
  "sample_read_io = \<lparr>nr_presence_meta = Inr (), nr_presence_data = Inr (), nr_meta = reads_of created_meta_messages,
     nr_inspect_meta = bound_to (ascii ''s.meta''), nr_inspect_data = bound_to (ascii ''s.data''),
     nr_recover = (reads_of (stream_messages sample_crc [envelope_bytes sample_event]), \<lambda>_. Inr ())\<rparr>"

lemma sample_answers_frames: "answers_frames sample_crc (nr_recover sample_read_io) [envelope_bytes sample_event]"
  using reads_of_serves by (simp add: answers_frames_def sample_read_io_def)

lemma sample_read_serves:
  "\<exists>meta. read_serves sample_crc sample_nats_adapter meta [envelope_bytes sample_event] sample_read_io"
proof -
  have "read_meta_records_async sample_crc (reads_of created_meta_messages) =
      read_meta_frames MetaRecords_default [claim_bytes sample_claim_record, ad_encoded_record sample_descriptor]"
    using meta_records_serves [OF reads_of_serves created_records(1) [OF sample_creatable]] by simp
  then show ?thesis
    using sample_answers_frames created_records(2) [OF sample_creatable]
    by (simp add: read_serves_def sample_read_io_def sample_nats_adapter_def into_instance_def resolve_open_subjects_def
        inspect_stream_subject_def bound_to_def reads_of_def map_err_def result_bind_def)
qed

theorem nats_reader_reads_log_witness:
  "\<exists>st ad' st1 st2. nats_open_read sample_hash sample_crc sample_read_io sample_nats_adapter = (Inr st, ad') \<and>
    read_all_envelopes sample_hash sample_crc (nats_read_all sample_crc (fst (nr_recover sample_read_io))) st = (Inr [sample_event], st1) \<and>
    fold_envelopes sample_hash sample_crc (nats_recover_frames sample_crc (nr_recover sample_read_io)) st1 (0 :: nat)
      (\<lambda>n e. Inr (n + 1)) = (Some (Inr 1), st2)"
proof -
  obtain meta where "read_serves sample_crc sample_nats_adapter meta (map envelope_bytes [sample_event]) sample_read_io"
    using sample_read_serves by auto
  moreover have "EventEnvelope_wf sample_event" "length (envelope_bytes sample_event) \<le> U32_MAX"
    using sample_event_valid(5)
    by (simp_all add: EventEnvelope_wf_def sample_event_def [THEN arg_cong [of _ _ env_payload]] length_sample_event U32_bound)
  ultimately show ?thesis
    using nats_reader_reads_log [OF sample_event_valid(1,2), of sample_crc sample_nats_adapter meta sample_read_io
        "nr_recover sample_read_io" sample_hash "0 :: nat" "\<lambda>n e. Inr (n + 1)"] sample_answers_frames
    by fastforce
qed

end
