(* ===== verification/Floats.thy ===== *)
theory Floats
  imports Event_Values Complex_Main
begin

text \<open>
  The floating-point wrappers of \<open>schema/floats.rs\<close>: \<open>OrderedF32\<close> and \<open>OrderedF64\<close> (finite, no subnormal, one
  zero, totally ordered) and the classification enums \<open>EventF32\<close> and \<open>EventF64\<close>. A float is its IEEE-754 bit
  pattern; classification, equality with zero and \<open>total_cmp\<close> of the standard library are written out on the
  pattern, for both widths at once: \<open>mb\<close> is the number of mantissa bits, 23 or 52.
\<close>

unbundle bit_operations_syntax

section \<open>IEEE-754 bit patterns\<close>

abbreviation sign_index :: "'a::len word \<Rightarrow> nat" where
  "sign_index v \<equiv> LENGTH('a) - 1"

definition sign_bit :: "'a::len word \<Rightarrow> bool" where
  "sign_bit v = bit v (LENGTH('a) - 1)"

definition magnitude :: "'a::len word \<Rightarrow> nat" where
  "magnitude v = unat v mod 2 ^ (LENGTH('a) - 1)"

definition biased_exponent :: "nat \<Rightarrow> 'a::len word \<Rightarrow> nat" where
  "biased_exponent mb v = magnitude v div 2 ^ mb"

definition mantissa :: "nat \<Rightarrow> 'a::len word \<Rightarrow> nat" where
  "mantissa mb v = magnitude v mod 2 ^ mb"

definition special_exponent :: "nat \<Rightarrow> 'a::len word \<Rightarrow> nat" where
  "special_exponent mb v = 2 ^ (LENGTH('a) - 1 - mb) - 1"

definition is_nan :: "nat \<Rightarrow> 'a::len word \<Rightarrow> bool" where
  "is_nan mb v \<longleftrightarrow> biased_exponent mb v = special_exponent mb v \<and> mantissa mb v \<noteq> 0"

definition is_infinite :: "nat \<Rightarrow> 'a::len word \<Rightarrow> bool" where
  "is_infinite mb v \<longleftrightarrow> biased_exponent mb v = special_exponent mb v \<and> mantissa mb v = 0"

definition is_subnormal :: "nat \<Rightarrow> 'a::len word \<Rightarrow> bool" where
  "is_subnormal mb v \<longleftrightarrow> biased_exponent mb v = 0 \<and> mantissa mb v \<noteq> 0"

text \<open>\<open>v == 0.0\<close> holds of both zeros.\<close>

definition equals_zero :: "'a::len word \<Rightarrow> bool" where
  "equals_zero v \<longleftrightarrow> magnitude v = 0"

datatype Ordering = Less | Equal | Greater

text \<open>\<open>total_cmp\<close>: the bits below the sign of a negative pattern are flipped and the patterns compared as
  signed integers.\<close>

definition total_key :: "'a::len word \<Rightarrow> int" where
  "total_key v = sint (v XOR drop_bit 1 (signed_drop_bit (LENGTH('a) - 1) v))"

definition total_cmp :: "'a::len word \<Rightarrow> 'a word \<Rightarrow> Ordering" where
  "total_cmp a b = (if total_key a < total_key b then Less else if total_key a = total_key b then Equal else Greater)"

section \<open>\<open>OrderedF32\<close> and \<open>OrderedF64\<close>\<close>

datatype OrderedF32 = OrderedF32 (inner32: u32)

definition OrderedF32_try_from :: "u32 \<Rightarrow> decode_error + OrderedF32" where
  "OrderedF32_try_from v =
    (if is_nan 23 v \<or> is_infinite 23 v \<or> is_subnormal 23 v then Inl (ValueConstraintViolated NotReal)
     else Inr (OrderedF32 (if equals_zero v then 0 else v)))"

definition OrderedF32_cmp :: "OrderedF32 \<Rightarrow> OrderedF32 \<Rightarrow> Ordering" where
  "OrderedF32_cmp a b = total_cmp (inner32 a) (inner32 b)"

definition OrderedF32_eq :: "OrderedF32 \<Rightarrow> OrderedF32 \<Rightarrow> bool" where
  "OrderedF32_eq a b \<longleftrightarrow> OrderedF32_cmp a b = Equal"

definition OrderedF32_encode_type :: "OrderedF32 \<Rightarrow> encode_error + bytes" where
  "OrderedF32_encode_type a = Inr (u32_to_le (inner32 a))"

definition OrderedF32_decode_type :: "bytes \<Rightarrow> OrderedF32 decoded" where
  "OrderedF32_decode_type buf =
    (if length buf < 4 then Inl (TruncatedPayload 4 (length buf))
     else result_bind (OrderedF32_try_from (u32_from_le (subslice 0 4 buf))) (\<lambda>ordered. Inr (ordered, 4)))"

datatype OrderedF64 = OrderedF64 (inner64: u64)

definition OrderedF64_try_from :: "u64 \<Rightarrow> decode_error + OrderedF64" where
  "OrderedF64_try_from v =
    (if is_nan 52 v \<or> is_infinite 52 v \<or> is_subnormal 52 v then Inl (ValueConstraintViolated NotReal)
     else Inr (OrderedF64 (if equals_zero v then 0 else v)))"

definition OrderedF64_cmp :: "OrderedF64 \<Rightarrow> OrderedF64 \<Rightarrow> Ordering" where
  "OrderedF64_cmp a b = total_cmp (inner64 a) (inner64 b)"

definition OrderedF64_eq :: "OrderedF64 \<Rightarrow> OrderedF64 \<Rightarrow> bool" where
  "OrderedF64_eq a b \<longleftrightarrow> OrderedF64_cmp a b = Equal"

definition OrderedF64_encode_type :: "OrderedF64 \<Rightarrow> encode_error + bytes" where
  "OrderedF64_encode_type a = Inr (u64_to_le (inner64 a))"

definition OrderedF64_decode_type :: "bytes \<Rightarrow> OrderedF64 decoded" where
  "OrderedF64_decode_type buf =
    (if length buf < 8 then Inl (TruncatedPayload 8 (length buf))
     else result_bind (OrderedF64_try_from (u64_from_le (subslice 0 8 buf))) (\<lambda>ordered. Inr (ordered, 8)))"

section \<open>\<open>EventF32\<close> and \<open>EventF64\<close>\<close>

datatype EventF32 = F32_NaN | F32_NegInf | F32_Finite OrderedF32 | F32_PosInf

definition f32_NEG_INFINITY :: u32 where "f32_NEG_INFINITY = 0xff800000"
definition f32_INFINITY :: u32 where "f32_INFINITY = 0x7f800000"

definition EventF32_from_f32 :: "u32 \<Rightarrow> decode_error + EventF32" where
  "EventF32_from_f32 v =
    (if is_nan 23 v then Inr F32_NaN
     else if v = f32_NEG_INFINITY then Inr F32_NegInf
     else if v = f32_INFINITY then Inr F32_PosInf
     else result_bind (OrderedF32_try_from v) (\<lambda>ordered. Inr (F32_Finite ordered)))"

text \<open>The pattern of the constant \<open>NAN\<close> is not fixed by the language: it is an argument.\<close>

fun EventF32_to_f32 :: "u32 \<Rightarrow> EventF32 \<Rightarrow> u32" where
  "EventF32_to_f32 nan F32_NaN = nan"
| "EventF32_to_f32 nan F32_NegInf = f32_NEG_INFINITY"
| "EventF32_to_f32 nan (F32_Finite v) = inner32 v"
| "EventF32_to_f32 nan F32_PosInf = f32_INFINITY"

fun OrderedF32_try_from_event :: "EventF32 \<Rightarrow> decode_error + OrderedF32" where
  "OrderedF32_try_from_event (F32_Finite v) = Inr v"
| "OrderedF32_try_from_event F32_NaN = Inl (ValueConstraintViolated NotReal)"
| "OrderedF32_try_from_event F32_NegInf = Inl (ValueConstraintViolated NotReal)"
| "OrderedF32_try_from_event F32_PosInf = Inl (ValueConstraintViolated NotReal)"

fun EventF32_encode_type :: "EventF32 \<Rightarrow> encode_error + bytes" where
  "EventF32_encode_type F32_NaN = Inr [0x00]"
| "EventF32_encode_type F32_NegInf = Inr [0x01]"
| "EventF32_encode_type (F32_Finite ordered) =
    result_bind (OrderedF32_encode_type ordered) (\<lambda>bs. Inr (0x02 # bs))"
| "EventF32_encode_type F32_PosInf = Inr [0x03]"

definition EventF32_decode_type :: "bytes \<Rightarrow> EventF32 decoded" where
  "EventF32_decode_type buf =
    (if buf = [] then Inl (TruncatedPayload 1 0)
     else if buf ! 0 = 0x00 then Inr (F32_NaN, 1)
     else if buf ! 0 = 0x01 then Inr (F32_NegInf, 1)
     else if buf ! 0 = 0x02 then
       result_bind (OrderedF32_decode_type (drop 1 buf)) (\<lambda>(ordered, consumed). Inr (F32_Finite ordered, 1 + consumed))
     else if buf ! 0 = 0x03 then Inr (F32_PosInf, 1)
     else Inl (UnknownVariantDiscriminant (ucast (buf ! 0))))"

datatype EventF64 = F64_NaN | F64_NegInf | F64_Finite OrderedF64 | F64_PosInf

definition f64_NEG_INFINITY :: u64 where "f64_NEG_INFINITY = 0xfff0000000000000"
definition f64_INFINITY :: u64 where "f64_INFINITY = 0x7ff0000000000000"

definition EventF64_from_f64 :: "u64 \<Rightarrow> decode_error + EventF64" where
  "EventF64_from_f64 v =
    (if is_nan 52 v then Inr F64_NaN
     else if v = f64_NEG_INFINITY then Inr F64_NegInf
     else if v = f64_INFINITY then Inr F64_PosInf
     else result_bind (OrderedF64_try_from v) (\<lambda>ordered. Inr (F64_Finite ordered)))"

fun EventF64_to_f64 :: "u64 \<Rightarrow> EventF64 \<Rightarrow> u64" where
  "EventF64_to_f64 nan F64_NaN = nan"
| "EventF64_to_f64 nan F64_NegInf = f64_NEG_INFINITY"
| "EventF64_to_f64 nan (F64_Finite v) = inner64 v"
| "EventF64_to_f64 nan F64_PosInf = f64_INFINITY"

fun OrderedF64_try_from_event :: "EventF64 \<Rightarrow> decode_error + OrderedF64" where
  "OrderedF64_try_from_event (F64_Finite v) = Inr v"
| "OrderedF64_try_from_event F64_NaN = Inl (ValueConstraintViolated NotReal)"
| "OrderedF64_try_from_event F64_NegInf = Inl (ValueConstraintViolated NotReal)"
| "OrderedF64_try_from_event F64_PosInf = Inl (ValueConstraintViolated NotReal)"

fun EventF64_encode_type :: "EventF64 \<Rightarrow> encode_error + bytes" where
  "EventF64_encode_type F64_NaN = Inr [0x00]"
| "EventF64_encode_type F64_NegInf = Inr [0x01]"
| "EventF64_encode_type (F64_Finite ordered) =
    result_bind (OrderedF64_encode_type ordered) (\<lambda>bs. Inr (0x02 # bs))"
| "EventF64_encode_type F64_PosInf = Inr [0x03]"

definition EventF64_decode_type :: "bytes \<Rightarrow> EventF64 decoded" where
  "EventF64_decode_type buf =
    (if buf = [] then Inl (TruncatedPayload 1 0)
     else if buf ! 0 = 0x00 then Inr (F64_NaN, 1)
     else if buf ! 0 = 0x01 then Inr (F64_NegInf, 1)
     else if buf ! 0 = 0x02 then
       result_bind (OrderedF64_decode_type (drop 1 buf)) (\<lambda>(ordered, consumed). Inr (F64_Finite ordered, 1 + consumed))
     else if buf ! 0 = 0x03 then Inr (F64_PosInf, 1)
     else Inl (UnknownVariantDiscriminant (ucast (buf ! 0))))"

section \<open>The order\<close>

lemma total_key_eq:
  "total_key v = (if sign_bit v then - int (magnitude v) - 1 else int (magnitude v))" for v :: "'a::len word"
proof -
  let ?n = "LENGTH('a) - 1"
  have mag: "int (magnitude v) = take_bit ?n (uint v)"
    by (simp add: magnitude_def take_bit_eq_mod zmod_int)
  have "signed_drop_bit ?n v = (if bit v ?n then - 1 else 0)"
    by (rule bit_word_eqI) (auto simp: bit_signed_drop_bit_iff Suc_le_eq)
  moreover have "drop_bit 1 (- 1 :: 'a word) = mask ?n"
    by (rule bit_word_eqI) (auto simp: bit_simps)
  ultimately have flip: "v XOR drop_bit 1 (signed_drop_bit ?n v) = (if bit v ?n then v XOR mask ?n else v)"
    by (simp only: if_distrib [of "drop_bit 1"] if_distrib [of "\<lambda>w. v XOR w"]) simp
  have sint: "sint w = take_bit ?n (uint w) - 2 ^ ?n * of_bool (bit w ?n)" for w :: "'a word"
  proof -
    have "sint w = signed_take_bit ?n (uint w)" by (simp add: sint_uint)
    also have "\<dots> = take_bit (Suc ?n) (uint w) - 2 ^ Suc ?n * of_bool (bit (uint w) ?n)"
      by (rule signed_take_bit_eq_take_bit_minus)
    also have "\<dots> = take_bit ?n (uint w) - 2 ^ ?n * of_bool (bit w ?n)"
      unfolding take_bit_Suc_from_most power_Suc by (simp add: bit_uint_iff del: Suc_pred)
    finally show ?thesis .
  qed
  show ?thesis
  proof (cases "bit v ?n")
    case False
    then show ?thesis unfolding total_key_def flip using mag by (simp add: sint sign_bit_def)
  next
    case True
    have "take_bit ?n (uint (v XOR mask ?n)) = take_bit ?n (NOT (uint v))"
      by (rule bit_eqI) (auto simp: bit_simps bit_uint_iff)
    also have "\<dots> = mask ?n - take_bit ?n (uint v)" by (rule take_bit_not_eq_mask_diff)
    finally have "take_bit ?n (uint (v XOR mask ?n)) = 2 ^ ?n - 1 - take_bit ?n (uint v)"
      by (simp add: mask_eq_exp_minus_1)
    moreover have "bit (v XOR mask ?n) ?n" using True by (simp add: bit_simps)
    ultimately show ?thesis unfolding total_key_def flip using True mag by (simp add: sint sign_bit_def)
  qed
qed

lemma pattern_eq: "v = w \<longleftrightarrow> sign_bit v = sign_bit w \<and> magnitude v = magnitude w" for v w :: "'a::len word"
proof
  let ?n = "LENGTH('a) - 1"
  have u: "unat x = 2 ^ ?n * of_bool (sign_bit x) + magnitude x" for x :: "'a word"
  proof -
    have "unat x = take_bit (Suc ?n) (unat x)" by (simp add: take_bit_nat_eq_self)
    then show ?thesis
      unfolding take_bit_Suc_from_most by (simp add: sign_bit_def magnitude_def take_bit_eq_mod bit_unsigned_iff del: Suc_pred)
  qed
  assume "sign_bit v = sign_bit w \<and> magnitude v = magnitude w"
  then have "unat v = unat w" using u [of v] u [of w] by simp
  then show "v = w" by (simp only: word_unat_eq_iff)
qed simp

lemma total_key_inject: "total_key v = total_key w \<longleftrightarrow> v = w"
  by (auto simp: pattern_eq total_key_eq split: if_splits)

text \<open>\<open>Ord\<close> on the wrappers is a linear order: \<open>total_cmp\<close> separates all bit patterns.\<close>

instantiation OrderedF32 :: linorder
begin

definition less_eq_OrderedF32 :: "OrderedF32 \<Rightarrow> OrderedF32 \<Rightarrow> bool" where
  "less_eq_OrderedF32 a b \<longleftrightarrow> OrderedF32_cmp a b \<noteq> Greater"

definition less_OrderedF32 :: "OrderedF32 \<Rightarrow> OrderedF32 \<Rightarrow> bool" where
  "less_OrderedF32 a b \<longleftrightarrow> OrderedF32_cmp a b = Less"

instance
  by standard (auto simp: less_eq_OrderedF32_def less_OrderedF32_def OrderedF32_cmp_def total_cmp_def
      total_key_inject OrderedF32.expand split: if_splits)

end

instantiation OrderedF64 :: linorder
begin

definition less_eq_OrderedF64 :: "OrderedF64 \<Rightarrow> OrderedF64 \<Rightarrow> bool" where
  "less_eq_OrderedF64 a b \<longleftrightarrow> OrderedF64_cmp a b \<noteq> Greater"

definition less_OrderedF64 :: "OrderedF64 \<Rightarrow> OrderedF64 \<Rightarrow> bool" where
  "less_OrderedF64 a b \<longleftrightarrow> OrderedF64_cmp a b = Less"

instance
  by standard (auto simp: less_eq_OrderedF64_def less_OrderedF64_def OrderedF64_cmp_def total_cmp_def
      total_key_inject OrderedF64.expand split: if_splits)

end

section \<open>The numbers the patterns denote\<close>

text \<open>The number of a pattern that is zero or normal, from its magnitude and sign.\<close>

definition magnitude_value :: "nat \<Rightarrow> nat \<Rightarrow> nat \<Rightarrow> real" where
  "magnitude_value mb bias n =
    (if n = 0 then 0 else 2 ^ (n div 2 ^ mb) * (1 + real (n mod 2 ^ mb) / 2 ^ mb) / 2 ^ bias)"

definition float_value :: "nat \<Rightarrow> nat \<Rightarrow> 'a::len word \<Rightarrow> real" where
  "float_value mb bias v = (if sign_bit v then -1 else 1) * magnitude_value mb bias (magnitude v)"

definition f32_value :: "u32 \<Rightarrow> real" where "f32_value = float_value 23 127"
definition f64_value :: "u64 \<Rightarrow> real" where "f64_value = float_value 52 1023"

lemma magnitude_value_less:
  assumes "a < b" and "a = 0 \<or> 2 ^ mb \<le> a" and "2 ^ mb \<le> b"
  shows "magnitude_value mb bias a < magnitude_value mb bias b"
proof -
  let ?e = "\<lambda>n. n div 2 ^ mb" and ?m = "\<lambda>n. real (n mod 2 ^ mb) / 2 ^ mb"
  have m: "0 \<le> ?m n" "?m n < 1" for n
  proof -
    have "n mod 2 ^ mb < 2 ^ mb" by simp
    then have "real (n mod 2 ^ mb) < 2 ^ mb" by (metis of_nat_less_iff of_nat_numeral of_nat_power)
    then show "0 \<le> ?m n" "?m n < 1" by simp_all
  qed
  have main: "2 ^ ?e a * (1 + ?m a) < (2 :: real) ^ ?e b * (1 + ?m b)"
  proof (cases "?e a = ?e b")
    case True
    then have "a mod 2 ^ mb < b mod 2 ^ mb" using assms(1) by (metis add_less_cancel_left div_mult_mod_eq)
    then have "?m a < ?m b" by (simp add: divide_strict_right_mono)
    then show ?thesis using True by simp
  next
    case False
    then have "?e a < ?e b" using div_le_mono [of a b "2 ^ mb"] assms(1) by simp
    then have "(2 :: real) * 2 ^ ?e a \<le> 2 ^ ?e b" by (metis Suc_leI one_le_numeral power_Suc power_increasing)
    moreover have "2 ^ ?e a * (1 + ?m a) < (2 :: real) ^ ?e a * 2" using m(2) [of a] by simp
    moreover have "(2 :: real) ^ ?e b * 1 \<le> 2 ^ ?e b * (1 + ?m b)" using m(1) [of b] by (intro mult_left_mono) auto
    ultimately show ?thesis by linarith
  qed
  have "0 < (2 :: real) ^ ?e b * (1 + ?m b)" using m(1) [of b] by (intro mult_pos_pos add_pos_nonneg) simp_all
  moreover have "b \<noteq> 0" using assms(3) by (metis le_zero_eq power_not_zero zero_neq_numeral)
  ultimately show ?thesis using main by (auto simp: magnitude_value_def divide_strict_right_mono)
qed

lemma magnitude_value_less_iff:
  assumes "a = 0 \<or> 2 ^ mb \<le> a" and "b = 0 \<or> 2 ^ mb \<le> b"
  shows "magnitude_value mb bias a < magnitude_value mb bias b \<longleftrightarrow> a < b"
    and "magnitude_value mb bias a = magnitude_value mb bias b \<longleftrightarrow> a = b" and "0 \<le> magnitude_value mb bias a"
proof -
  have lt: "magnitude_value mb bias a < magnitude_value mb bias b"
    if "a < b" "a = 0 \<or> 2 ^ mb \<le> a" "b = 0 \<or> 2 ^ mb \<le> b" for a b
    using magnitude_value_less [of a b mb bias] that by auto
  show "magnitude_value mb bias a < magnitude_value mb bias b \<longleftrightarrow> a < b"
    "magnitude_value mb bias a = magnitude_value mb bias b \<longleftrightarrow> a = b"
    using lt [of a b] lt [of b a] assms by (metis less_irrefl linorder_neqE_nat not_less_iff_gr_or_eq)+
  show "0 \<le> magnitude_value mb bias a" by (simp add: magnitude_value_def)
qed

text \<open>Patterns that are zero or normal, with one zero.\<close>

definition ordered_pattern :: "nat \<Rightarrow> 'a::len word \<Rightarrow> bool" where
  "ordered_pattern mb v \<longleftrightarrow> \<not> is_nan mb v \<and> \<not> is_infinite mb v \<and> \<not> is_subnormal mb v \<and> (equals_zero v \<longrightarrow> v = 0)"

lemma sign_bit_0 [simp]: "\<not> sign_bit 0" "magnitude 0 = 0"
  by (simp_all add: sign_bit_def magnitude_def)

lemma ordered_pattern_magnitude:
  assumes "\<not> is_subnormal mb v"
  shows "magnitude v = 0 \<or> 2 ^ mb \<le> magnitude v"
proof (cases "magnitude v div 2 ^ mb = 0")
  case True
  then have "magnitude v mod 2 ^ mb = 0" using assms by (simp add: is_subnormal_def biased_exponent_def mantissa_def)
  with True show ?thesis by (metis div_mult_mod_eq add.right_neutral mult_zero_left)
next
  case False
  then show ?thesis by (metis div_less not_le)
qed

lemma ordered_pattern_order:
  assumes "ordered_pattern mb v" and "ordered_pattern mb w"
  shows "total_key v < total_key w \<longleftrightarrow> float_value mb bias v < float_value mb bias w"
    and "v = w \<longleftrightarrow> float_value mb bias v = float_value mb bias w"
proof -
  have fin: "magnitude x = 0 \<or> 2 ^ mb \<le> magnitude x" "sign_bit x \<Longrightarrow> magnitude x \<noteq> 0" if "ordered_pattern mb x" for x :: "'a word"
    using that ordered_pattern_magnitude [of mb x] by (auto simp: ordered_pattern_def equals_zero_def)
  note v = fin [OF assms(1)] and w = fin [OF assms(2)]
  note le = magnitude_value_less_iff [OF v(1) w(1), of bias] magnitude_value_less_iff [OF w(1) v(1), of bias]
  have pos: "0 < magnitude_value mb bias (magnitude x)" if "magnitude x \<noteq> 0" "magnitude x = 0 \<or> 2 ^ mb \<le> magnitude x" for x :: "'a word"
    using magnitude_value_less_iff(1) [of 0 mb "magnitude x" bias] that by (simp add: magnitude_value_def)
  show "total_key v < total_key w \<longleftrightarrow> float_value mb bias v < float_value mb bias w"
    "v = w \<longleftrightarrow> float_value mb bias v = float_value mb bias w"
    using le v(2) w(2) pos [of v] pos [of w] v(1) w(1)
    by (cases "sign_bit v"; cases "sign_bit w"; force simp: total_key_eq float_value_def pattern_eq [of v])+
qed

lemma try_from_pattern:
  "OrderedF32_try_from x = Inr a \<longleftrightarrow> \<not> is_nan 23 x \<and> \<not> is_infinite 23 x \<and> \<not> is_subnormal 23 x \<and>
     a = OrderedF32 (if equals_zero x then 0 else x)"
  "OrderedF64_try_from y = Inr b \<longleftrightarrow> \<not> is_nan 52 y \<and> \<not> is_infinite 52 y \<and> \<not> is_subnormal 52 y \<and>
     b = OrderedF64 (if equals_zero y then 0 else y)"
  by (auto simp: OrderedF32_try_from_def OrderedF64_try_from_def)

lemmas pattern_defs = is_nan_def is_infinite_def is_subnormal_def biased_exponent_def mantissa_def special_exponent_def
  equals_zero_def

lemma zero_pattern: "ordered_pattern 23 (0 :: u32)" "ordered_pattern 52 (0 :: u64)"
  by (simp_all add: ordered_pattern_def pattern_defs)

lemma try_from_ordered:
  "OrderedF32_try_from x = Inr a \<Longrightarrow> ordered_pattern 23 (inner32 a) \<and> f32_value (inner32 a) = f32_value x"
  "OrderedF64_try_from y = Inr b \<Longrightarrow> ordered_pattern 52 (inner64 b) \<and> f64_value (inner64 b) = f64_value y"
  using zero_pattern
  by (auto simp: try_from_pattern ordered_pattern_def equals_zero_def f32_value_def f64_value_def float_value_def magnitude_value_def)

section \<open>Properties\<close>

text \<open>C35: the order and equality of \<open>OrderedF32\<close> and \<open>OrderedF64\<close>, which compare bit patterns, are the order and
  equality of the numbers the wrapped floats denote.\<close>

theorem ordered_float_order:
  assumes "OrderedF32_try_from x = Inr a" and "OrderedF32_try_from y = Inr b"
    and "OrderedF64_try_from u = Inr c" and "OrderedF64_try_from v = Inr d"
  shows "(a < b \<longleftrightarrow> f32_value x < f32_value y) \<and> (OrderedF32_eq a b \<longleftrightarrow> f32_value x = f32_value y) \<and>
    (c < d \<longleftrightarrow> f64_value u < f64_value v) \<and> (OrderedF64_eq c d \<longleftrightarrow> f64_value u = f64_value v)"
proof -
  note p = try_from_ordered(1) [OF assms(1)] try_from_ordered(1) [OF assms(2)]
    try_from_ordered(2) [OF assms(3)] try_from_ordered(2) [OF assms(4)]
  note o = ordered_pattern_order [of 23 "inner32 a" "inner32 b" 127] ordered_pattern_order [of 52 "inner64 c" "inner64 d" 1023]
  show ?thesis using p o
    by (auto simp: less_OrderedF32_def less_OrderedF64_def OrderedF32_cmp_def OrderedF64_cmp_def OrderedF32_eq_def
        OrderedF64_eq_def total_cmp_def total_key_inject f32_value_def f64_value_def split: if_splits)
qed

theorem ordered_float_order_witness:
  "OrderedF32 0 < OrderedF32 0x3f800000 \<and> \<not> OrderedF32_eq (OrderedF32 0) (OrderedF32 0x3f800000)"
proof -
  have "OrderedF32_try_from 0x80000000 = Inr (OrderedF32 0)" "OrderedF32_try_from 0x3f800000 = Inr (OrderedF32 0x3f800000)"
    "OrderedF64_try_from 0 = Inr (OrderedF64 0)"
    by (simp_all add: try_from_pattern pattern_defs magnitude_def)
  moreover have "f32_value 0x80000000 = 0" "f32_value 0x3f800000 = 1"
    by (simp_all add: f32_value_def float_value_def magnitude_value_def magnitude_def sign_bit_def)
  ultimately show ?thesis
    using ordered_float_order [of "0x80000000" "OrderedF32 0" "0x3f800000" "OrderedF32 0x3f800000" 0 "OrderedF64 0" 0 "OrderedF64 0"]
    by simp
qed

section \<open>Wire forms\<close>

definition OrderedF32_inv :: "OrderedF32 \<Rightarrow> bool" where
  "OrderedF32_inv a \<longleftrightarrow> ordered_pattern 23 (inner32 a)"

definition OrderedF64_inv :: "OrderedF64 \<Rightarrow> bool" where
  "OrderedF64_inv a \<longleftrightarrow> ordered_pattern 52 (inner64 a)"

fun EventF32_inv :: "EventF32 \<Rightarrow> bool" where
  "EventF32_inv (F32_Finite a) = OrderedF32_inv a"
| "EventF32_inv _ = True"

fun EventF64_inv :: "EventF64 \<Rightarrow> bool" where
  "EventF64_inv (F64_Finite a) = OrderedF64_inv a"
| "EventF64_inv _ = True"

lemma inv_try_from:
  "OrderedF32_inv a \<Longrightarrow> OrderedF32_try_from (inner32 a) = Inr a"
  "OrderedF64_inv b \<Longrightarrow> OrderedF64_try_from (inner64 b) = Inr b"
  by (cases a; cases b; auto simp: OrderedF32_inv_def OrderedF64_inv_def ordered_pattern_def try_from_pattern)+

interpretation ordered_f32: pardosa_type OrderedF32_encode_type OrderedF32_decode_type OrderedF32_inv
  by unfold_locales
    (auto simp: OrderedF32_encode_type_def OrderedF32_decode_type_def bytes_simps inv_try_from OrderedF32_inv_def result_simps
      dest: try_from_ordered split: if_splits)

interpretation ordered_f64: pardosa_type OrderedF64_encode_type OrderedF64_decode_type OrderedF64_inv
  by unfold_locales
    (auto simp: OrderedF64_encode_type_def OrderedF64_decode_type_def bytes_simps inv_try_from OrderedF64_inv_def result_simps
      dest: try_from_ordered split: if_splits)

interpretation event_f32: pardosa_type EventF32_encode_type EventF32_decode_type EventF32_inv
proof
  fix x assume "EventF32_inv x"
  then show "\<exists>bs. EventF32_encode_type x = Inr bs" by (cases x) (auto simp: OrderedF32_encode_type_def)
next
  fix x bs and rest :: bytes assume "EventF32_inv x" "EventF32_encode_type x = Inr bs" "length (bs @ rest) \<le> USIZE_MAX"
  then show "EventF32_decode_type (bs @ rest) = Inr (x, length bs)"
    using ordered_f32.decode_encode by (cases x) (auto simp: EventF32_decode_type_def result_simps)
next
  fix buf x n assume "EventF32_decode_type buf = Inr (x, n)"
  then show "EventF32_inv x \<and> n \<le> length buf"
    using ordered_f32.decode_sound [of "drop 1 buf"]
    by (cases buf) (auto simp: EventF32_decode_type_def result_simps split: if_splits)
qed

interpretation event_f64: pardosa_type EventF64_encode_type EventF64_decode_type EventF64_inv
proof
  fix x assume "EventF64_inv x"
  then show "\<exists>bs. EventF64_encode_type x = Inr bs" by (cases x) (auto simp: OrderedF64_encode_type_def)
next
  fix x bs and rest :: bytes assume "EventF64_inv x" "EventF64_encode_type x = Inr bs" "length (bs @ rest) \<le> USIZE_MAX"
  then show "EventF64_decode_type (bs @ rest) = Inr (x, length bs)"
    using ordered_f64.decode_encode by (cases x) (auto simp: EventF64_decode_type_def result_simps)
next
  fix buf x n assume "EventF64_decode_type buf = Inr (x, n)"
  then show "EventF64_inv x \<and> n \<le> length buf"
    using ordered_f64.decode_sound [of "drop 1 buf"]
    by (cases buf) (auto simp: EventF64_decode_type_def result_simps split: if_splits)
qed

text \<open>Classifying the float an event value stands for gives the value back, whatever pattern \<open>NAN\<close> has.\<close>

lemma event_float_classified:
  "is_nan 23 nan \<Longrightarrow> EventF32_inv e \<Longrightarrow> EventF32_from_f32 (EventF32_to_f32 nan e) = Inr e"
  "is_nan 52 nan' \<Longrightarrow> EventF64_inv e' \<Longrightarrow> EventF64_from_f64 (EventF64_to_f64 nan' e') = Inr e'"
proof -
  have inf: "\<not> is_nan 23 f32_NEG_INFINITY" "\<not> is_nan 23 f32_INFINITY" "is_infinite 23 f32_NEG_INFINITY" "is_infinite 23 f32_INFINITY"
    "f32_NEG_INFINITY \<noteq> f32_INFINITY"
    "\<not> is_nan 52 f64_NEG_INFINITY" "\<not> is_nan 52 f64_INFINITY" "is_infinite 52 f64_NEG_INFINITY" "is_infinite 52 f64_INFINITY"
    "f64_NEG_INFINITY \<noteq> f64_INFINITY"
    by (simp_all add: pattern_defs magnitude_def f32_NEG_INFINITY_def f32_INFINITY_def f64_NEG_INFINITY_def f64_INFINITY_def)
  show "is_nan 23 nan \<Longrightarrow> EventF32_inv e \<Longrightarrow> EventF32_from_f32 (EventF32_to_f32 nan e) = Inr e"
    using inf inv_try_from(1) by (cases e) (auto simp: EventF32_from_f32_def OrderedF32_inv_def ordered_pattern_def)
  show "is_nan 52 nan' \<Longrightarrow> EventF64_inv e' \<Longrightarrow> EventF64_from_f64 (EventF64_to_f64 nan' e') = Inr e'"
    using inf inv_try_from(2) by (cases e') (auto simp: EventF64_from_f64_def OrderedF64_inv_def ordered_pattern_def)
qed

end
