(* ===== verification/Payload_Types.thy ===== *)
theory Payload_Types
  imports Floats Schema_Descriptor
begin

text \<open>
  The implementations of the trait \<open>PardosaType\<close> in \<open>schema.rs\<close>: integers, booleans, the bounded values,
  \<open>Option\<close> and \<open>EventVec\<close>, with encoder, decoder, descriptor and \<open>TYPE_DEPTH\<close> of each. A generic implementation
  takes the encoder and decoder of its parameter type as arguments. A signed integer is an \<open>int\<close> in its range.
  \<open>payload_type\<close> names the types that can be built from these implementations, and \<open>payload\<close> their values, so
  that what holds of every such type can be stated; the values of structs and enums belong to the types of \<open>Derive\<close>.
\<close>

section \<open>Integers and booleans\<close>

definition u8_encode_type :: "byte \<Rightarrow> encode_error + bytes" where
  "u8_encode_type x = Inr [x]"

definition u8_decode_type :: "bytes \<Rightarrow> byte decoded" where
  "u8_decode_type buf = (if buf = [] then Inl (TruncatedPayload 1 0) else Inr (buf ! 0, 1))"

definition u16_encode_type :: "u16 \<Rightarrow> encode_error + bytes" where
  "u16_encode_type x = Inr (u16_to_le x)"

definition u16_decode_type :: "bytes \<Rightarrow> u16 decoded" where
  "u16_decode_type buf =
    (if length buf < 2 then Inl (TruncatedPayload 2 (length buf))
     else Inr (u16_from_le (subslice 0 2 buf), 2))"

definition u32_encode_type :: "u32 \<Rightarrow> encode_error + bytes" where
  "u32_encode_type x = Inr (u32_to_le x)"

definition u32_decode_type :: "bytes \<Rightarrow> u32 decoded" where
  "u32_decode_type buf =
    (if length buf < 4 then Inl (TruncatedPayload 4 (length buf))
     else Inr (u32_from_le (subslice 0 4 buf), 4))"

definition u64_encode_type :: "u64 \<Rightarrow> encode_error + bytes" where
  "u64_encode_type x = Inr (u64_to_le x)"

definition u64_decode_type :: "bytes \<Rightarrow> u64 decoded" where
  "u64_decode_type buf =
    (if length buf < 8 then Inl (TruncatedPayload 8 (length buf))
     else Inr (u64_from_le (subslice 0 8 buf), 8))"

definition i8_encode_type :: "int \<Rightarrow> encode_error + bytes" where
  "i8_encode_type x = Inr [word_of_int x]"

definition i8_decode_type :: "bytes \<Rightarrow> int decoded" where
  "i8_decode_type buf = (if buf = [] then Inl (TruncatedPayload 1 0) else Inr (sint (buf ! 0), 1))"

definition i16_encode_type :: "int \<Rightarrow> encode_error + bytes" where
  "i16_encode_type x = Inr (u16_to_le (word_of_int x))"

definition i16_decode_type :: "bytes \<Rightarrow> int decoded" where
  "i16_decode_type buf =
    (if length buf < 2 then Inl (TruncatedPayload 2 (length buf))
     else Inr (sint (u16_from_le (subslice 0 2 buf)), 2))"

definition i32_encode_type :: "int \<Rightarrow> encode_error + bytes" where
  "i32_encode_type x = Inr (u32_to_le (word_of_int x))"

definition i32_decode_type :: "bytes \<Rightarrow> int decoded" where
  "i32_decode_type buf =
    (if length buf < 4 then Inl (TruncatedPayload 4 (length buf))
     else Inr (sint (u32_from_le (subslice 0 4 buf)), 4))"

definition i64_encode_type :: "int \<Rightarrow> encode_error + bytes" where
  "i64_encode_type x = Inr (u64_to_le (word_of_int x))"

definition i64_decode_type :: "bytes \<Rightarrow> int decoded" where
  "i64_decode_type buf =
    (if length buf < 8 then Inl (TruncatedPayload 8 (length buf))
     else Inr (sint (u64_from_le (subslice 0 8 buf)), 8))"

definition bool_encode_type :: "bool \<Rightarrow> encode_error + bytes" where
  "bool_encode_type x = Inr [if x then 1 else 0]"

definition bool_decode_type :: "bytes \<Rightarrow> bool decoded" where
  "bool_decode_type buf =
    (if buf = [] then Inl (TruncatedPayload 1 0)
     else if buf ! 0 = 0x00 then Inr (False, 1)
     else if buf ! 0 = 0x01 then Inr (True, 1)
     else Inl (InvalidBoolean (buf ! 0)))"

section \<open>Bounded values\<close>

definition Timestamp_encode_type :: "u64 \<Rightarrow> encode_error + bytes" where
  "Timestamp_encode_type = (\<lambda>t. Inr (Timestamp_encode t))"

definition Timestamp_decode_type :: "bytes \<Rightarrow> u64 decoded" where
  "Timestamp_decode_type = Timestamp_decode"

definition Uuid_encode_type :: "bytes \<Rightarrow> encode_error + bytes" where
  "Uuid_encode_type = (\<lambda>u. Inr (Uuid_encode u))"

definition Uuid_decode_type :: "bytes \<Rightarrow> bytes decoded" where
  "Uuid_decode_type = Uuid_decode"

definition EventString_encode_type :: "bytes \<Rightarrow> encode_error + bytes" where
  "EventString_encode_type = (\<lambda>s. Inr (EventString_encode s))"

definition EventString_decode_type :: "nat \<Rightarrow> bytes \<Rightarrow> bytes decoded" where
  "EventString_decode_type mx = EventString_decode mx"

definition NonEmptyEventString_encode_type :: "bytes \<Rightarrow> encode_error + bytes" where
  "NonEmptyEventString_encode_type = (\<lambda>s. Inr (NonEmptyEventString_encode s))"

definition NonEmptyEventString_decode_type :: "nat \<Rightarrow> bytes \<Rightarrow> bytes decoded" where
  "NonEmptyEventString_decode_type mx = NonEmptyEventString_decode mx"

definition EventBytes_encode_type :: "bytes \<Rightarrow> encode_error + bytes" where
  "EventBytes_encode_type = (\<lambda>s. Inr (EventBytes_encode s))"

definition EventBytes_decode_type :: "nat \<Rightarrow> bytes \<Rightarrow> bytes decoded" where
  "EventBytes_decode_type mx = EventBytes_decode mx"

section \<open>\<open>Option\<close> and \<open>EventVec\<close>\<close>

fun option_encode_type :: "('a \<Rightarrow> encode_error + bytes) \<Rightarrow> 'a option \<Rightarrow> encode_error + bytes" where
  "option_encode_type enc None = Inr [0x00]"
| "option_encode_type enc (Some inner) = result_bind (enc inner) (\<lambda>bs. Inr (0x01 # bs))"

definition option_decode_type :: "(bytes \<Rightarrow> 'a decoded) \<Rightarrow> bytes \<Rightarrow> 'a option decoded" where
  "option_decode_type dec buf =
    (if buf = [] then Inl (TruncatedPayload 1 0)
     else if buf ! 0 = 0x00 then Inr (None, 1)
     else if buf ! 0 = 0x01 then
       result_bind (dec (drop 1 buf)) (\<lambda>(val, consumed).
         result_bind (checked_advance 1 consumed (length buf)) (\<lambda>advanced. Inr (Some val, advanced)))
     else Inl (InvalidOptionTag (buf ! 0)))"

fun encode_items :: "('a \<Rightarrow> encode_error + bytes) \<Rightarrow> 'a list \<Rightarrow> encode_error + bytes" where
  "encode_items enc [] = Inr []"
| "encode_items enc (item # items) =
    result_bind (enc item) (\<lambda>bs. result_bind (encode_items enc items) (\<lambda>cs. Inr (bs @ cs)))"

definition EventVec_encode_type :: "('a \<Rightarrow> encode_error + bytes) \<Rightarrow> nat \<Rightarrow> 'a list \<Rightarrow> encode_error + bytes" where
  "EventVec_encode_type enc mx items =
    (if length items > mx then Inl (ItemCountExceeded_enc (length items) mx)
     else result_bind (ok_or (ItemCountExceeded_enc (length items) mx) (u32_try_from (length items))) (\<lambda>count_u32.
       result_bind (encode_items enc items) (\<lambda>bs. Inr (u32_to_le count_u32 @ bs))))"

primrec decode_items :: "(bytes \<Rightarrow> 'a decoded) \<Rightarrow> bytes \<Rightarrow> nat \<Rightarrow> nat \<Rightarrow> decode_error + 'a list \<times> nat" where
  "decode_items dec buf 0 cursor = Inr ([], cursor)"
| "decode_items dec buf (Suc n) cursor =
    result_bind (dec (drop cursor buf)) (\<lambda>(item, consumed).
    result_bind (ok_or (TruncatedPayload USIZE_MAX (length buf)) (checked_add cursor consumed)) (\<lambda>next_cursor.
      if next_cursor > length buf then Inl (TruncatedPayload next_cursor (length buf))
      else result_bind (decode_items dec buf n next_cursor) (\<lambda>(items, cursor'). Inr (item # items, cursor'))))"

definition EventVec_decode_type :: "(bytes \<Rightarrow> 'a decoded) \<Rightarrow> nat \<Rightarrow> bytes \<Rightarrow> 'a list decoded" where
  "EventVec_decode_type dec mx buf =
    (if mx > U32_MAX then Inl (ValueConstraintViolated TooLong)
     else if length buf < 4 then Inl (TruncatedPayload 4 (length buf))
     else
       (let count = unat (u32_from_le (subslice 0 4 buf)) in
        if count > mx then Inl (ItemCountExceeded count mx)
        else if count = 0 then result_bind (EventVec_new mx []) (\<lambda>v. Inr (v, 4))
        else result_bind (decode_items dec buf count 4) (\<lambda>(items, cursor).
          result_bind (EventVec_new mx items) (\<lambda>v. Inr (v, cursor)))))"

section \<open>Laws of the implementations\<close>

text \<open>Fixed-width integers.\<close>

interpretation u8: pardosa_type u8_encode_type u8_decode_type "\<lambda>_. True"
  by unfold_locales (auto simp: u8_encode_type_def u8_decode_type_def Suc_le_eq split: if_splits)

interpretation u16: pardosa_type u16_encode_type u16_decode_type "\<lambda>_. True"
  by unfold_locales (auto simp: u16_encode_type_def u16_decode_type_def bytes_simps split: if_splits)

interpretation u32: pardosa_type u32_encode_type u32_decode_type "\<lambda>_. True"
  by unfold_locales (auto simp: u32_encode_type_def u32_decode_type_def bytes_simps split: if_splits)

interpretation u64: pardosa_type u64_encode_type u64_decode_type "\<lambda>_. True"
  by unfold_locales (auto simp: u64_encode_type_def u64_decode_type_def bytes_simps split: if_splits)

definition signed_range :: "nat \<Rightarrow> int \<Rightarrow> bool" where
  "signed_range w x \<longleftrightarrow> - (2 ^ (w - 1)) \<le> x \<and> x < 2 ^ (w - 1)"

lemma sint_in_range: "signed_range LENGTH('a) (sint w)" for w :: "'a::len word"
  using sint_range_size [of w] by (simp add: signed_range_def word_size)

lemma sint_of_range: "signed_range LENGTH('a) x \<Longrightarrow> sint (word_of_int x :: 'a::len word) = x"
  by (simp add: signed_range_def sint_sbintrunc' signed_take_bit_int_eq_self)

interpretation i8: pardosa_type i8_encode_type i8_decode_type "signed_range 8"
  using sint_in_range [where 'a = 8] sint_of_range [where 'a = 8]
  by unfold_locales (auto simp: i8_encode_type_def i8_decode_type_def Suc_le_eq split: if_splits)

interpretation i16: pardosa_type i16_encode_type i16_decode_type "signed_range 16"
  using sint_in_range [where 'a = 16] sint_of_range [where 'a = 16]
  by unfold_locales (auto simp: i16_encode_type_def i16_decode_type_def bytes_simps split: if_splits)

interpretation i32: pardosa_type i32_encode_type i32_decode_type "signed_range 32"
  using sint_in_range [where 'a = 32] sint_of_range [where 'a = 32]
  by unfold_locales (auto simp: i32_encode_type_def i32_decode_type_def bytes_simps split: if_splits)

interpretation i64: pardosa_type i64_encode_type i64_decode_type "signed_range 64"
  using sint_in_range [where 'a = 64] sint_of_range [where 'a = 64]
  by unfold_locales (auto simp: i64_encode_type_def i64_decode_type_def bytes_simps split: if_splits)

interpretation boolean: pardosa_type bool_encode_type bool_decode_type "\<lambda>_. True"
  by unfold_locales (auto simp: bool_encode_type_def bool_decode_type_def Suc_le_eq split: if_splits)

text \<open>The generic implementations keep the contract of their parameter type.\<close>

fun option_admitted :: "('a \<Rightarrow> bool) \<Rightarrow> 'a option \<Rightarrow> bool" where
  "option_admitted adm None = True"
| "option_admitted adm (Some x) = adm x"

definition vec_admitted :: "('a \<Rightarrow> bool) \<Rightarrow> nat \<Rightarrow> 'a list \<Rightarrow> bool" where
  "vec_admitted adm mx xs \<longleftrightarrow> mx \<le> U32_MAX \<and> length xs \<le> mx \<and> list_all adm xs"

context pardosa_type
begin

lemma option_type:
  "pardosa_type (option_encode_type encode_type) (option_decode_type decode_type) (option_admitted admitted)"
proof
  fix x assume "option_admitted admitted x"
  then show "\<exists>bs. option_encode_type encode_type x = Inr bs"
    using encode_total by (cases x) fastforce+
next
  fix x bs and rest :: bytes
  assume "option_admitted admitted x" "option_encode_type encode_type x = Inr bs" "length (bs @ rest) \<le> USIZE_MAX"
  then show "option_decode_type decode_type (bs @ rest) = Inr (x, length bs)"
    using decode_encode by (cases x) (auto simp: option_decode_type_def result_simps checked_advance_def checked_add_def)
next
  fix buf x n assume "option_decode_type decode_type buf = Inr (x, n)"
  then show "option_admitted admitted x \<and> n \<le> length buf"
    using decode_sound by (auto simp: option_decode_type_def result_simps Suc_le_eq split: if_splits)
qed

lemma encode_items_total: "list_all admitted xs \<Longrightarrow> \<exists>bs. encode_items encode_type xs = Inr bs"
  by (induction xs) (auto dest!: encode_total)

lemma decode_items_encoded:
  "list_all admitted xs \<Longrightarrow> encode_items encode_type xs = Inr bs \<Longrightarrow> drop cursor buf = bs @ rest \<Longrightarrow>
    cursor \<le> length buf \<Longrightarrow> length buf \<le> USIZE_MAX \<Longrightarrow>
    decode_items decode_type buf (length xs) cursor = Inr (xs, cursor + length bs)"
proof (induction xs arbitrary: bs cursor)
  case Nil
  then show ?case by simp
next
  case (Cons x xs)
  then obtain b c where b: "encode_type x = Inr b" "encode_items encode_type xs = Inr c" "bs = b @ c"
    by (auto simp: result_simps)
  have buf: "drop cursor buf = b @ c @ rest" using Cons.prems(3) b(3) by simp
  then have len: "length buf = cursor + length b + length c + length rest"
    using Cons.prems(4) by (metis add.assoc append_take_drop_id length_append length_take min.absorb2)
  have "decode_type (drop cursor buf) = Inr (x, length b)"
    using decode_encode [of x b "c @ rest"] Cons.prems(1,5) b(1) buf len by simp
  moreover have "drop (cursor + length b) buf = c @ rest"
    using buf by (metis add.commute append_eq_conv_conj drop_drop)
  ultimately show ?case
    using Cons.IH [of c "cursor + length b"] Cons.prems(1,5) b(2,3) len by (simp add: checked_add_def)
qed

lemma decode_items_sound:
  "decode_items decode_type buf n cursor = Inr (xs, cursor') \<Longrightarrow> cursor \<le> length buf \<Longrightarrow>
    list_all admitted xs \<and> length xs = n \<and> cursor' \<le> length buf"
proof (induction n arbitrary: cursor xs)
  case 0
  then show ?case by simp
next
  case (Suc n)
  then show ?case
    using decode_sound by (auto simp: result_simps split: if_splits)
qed

lemma vec_type:
  "pardosa_type (EventVec_encode_type encode_type mx) (EventVec_decode_type decode_type mx) (vec_admitted admitted mx)"
proof
  fix xs assume "vec_admitted admitted mx xs"
  then show "\<exists>bs. EventVec_encode_type encode_type mx xs = Inr bs"
    using encode_items_total [of xs] by (auto simp: vec_admitted_def EventVec_encode_type_def u32_try_from_def)
next
  fix xs bs and rest :: bytes
  assume a: "vec_admitted admitted mx xs" "EventVec_encode_type encode_type mx xs = Inr bs" "length (bs @ rest) \<le> USIZE_MAX"
  then obtain cs where cs: "encode_items encode_type xs = Inr cs" "bs = u32_to_le (of_nat (length xs)) @ cs"
    by (auto simp: vec_admitted_def EventVec_encode_type_def u32_try_from_def result_simps split: if_splits)
  have small: "length xs \<le> U32_MAX" using a(1) by (simp add: vec_admitted_def)
  have "decode_items decode_type (bs @ rest) (length xs) 4 = Inr (xs, 4 + length cs)"
    using decode_items_encoded [OF _ cs(1), of 4 "bs @ rest" rest] a(1,3) cs(2) by (simp add: vec_admitted_def)
  moreover have "unat (u32_from_le (subslice 0 4 (bs @ rest))) = length xs"
    using small cs(2) by (simp add: subslice_append_exact unat_of_nat_u32)
  ultimately show "EventVec_decode_type decode_type mx (bs @ rest) = Inr (xs, length bs)"
    using a(1) cs by (auto simp: EventVec_decode_type_def EventVec_new_def vec_admitted_def Let_def)
next
  fix buf xs n assume d: "EventVec_decode_type decode_type mx buf = Inr (xs, n)"
  then show "vec_admitted admitted mx xs \<and> n \<le> length buf"
    using decode_items_sound [of buf _ 4]
    by (auto simp: EventVec_decode_type_def EventVec_new_def vec_admitted_def Let_def result_simps split: if_splits)
qed

end

section \<open>All payload types\<close>

datatype payload_type =
    P_u8 | P_u16 | P_u32 | P_u64 | P_i8 | P_i16 | P_i32 | P_i64 | P_bool
  | P_Timestamp | P_Uuid
  | P_Option payload_type
  | P_EventString nat | P_NonEmptyEventString nat | P_EventBytes nat
  | P_EventVec payload_type nat
  | P_OrderedF32 | P_OrderedF64 | P_EventF32 | P_EventF64

datatype payload =
    V_u8 byte | V_u16 u16 | V_u32 u32 | V_u64 u64 | V_int int | V_bool bool | V_bytes bytes
  | V_option "payload option" | V_vec "payload list"
  | V_OrderedF32 OrderedF32 | V_OrderedF64 OrderedF64 | V_EventF32 EventF32 | V_EventF64 EventF64
  | V_struct "payload list" | V_enum bytes "payload list"

text \<open>An encoder or decoder of one Rust type as one of all payloads. The Rust type system excludes values of
  another type; the model refuses them.\<close>

definition enc_as :: "(payload \<Rightarrow> 'a option) \<Rightarrow> ('a \<Rightarrow> encode_error + bytes) \<Rightarrow> payload \<Rightarrow> encode_error + bytes" where
  "enc_as sel enc v = (case sel v of Some x \<Rightarrow> enc x | None \<Rightarrow> Inl (Custom_enc ''ill-typed''))"

definition dec_as :: "('a \<Rightarrow> payload) \<Rightarrow> (bytes \<Rightarrow> 'a decoded) \<Rightarrow> bytes \<Rightarrow> payload decoded" where
  "dec_as wrap dec buf = result_bind (dec buf) (\<lambda>(x, n). Inr (wrap x, n))"

definition adm_as :: "(payload \<Rightarrow> 'a option) \<Rightarrow> ('a \<Rightarrow> bool) \<Rightarrow> payload \<Rightarrow> bool" where
  "adm_as sel adm v = (case sel v of Some x \<Rightarrow> adm x | None \<Rightarrow> False)"

definition un_u8 :: "payload \<Rightarrow> (byte) option" where "un_u8 v = (case v of V_u8 x \<Rightarrow> Some x | _ \<Rightarrow> None)"
definition un_u16 :: "payload \<Rightarrow> (u16) option" where "un_u16 v = (case v of V_u16 x \<Rightarrow> Some x | _ \<Rightarrow> None)"
definition un_u32 :: "payload \<Rightarrow> (u32) option" where "un_u32 v = (case v of V_u32 x \<Rightarrow> Some x | _ \<Rightarrow> None)"
definition un_u64 :: "payload \<Rightarrow> (u64) option" where "un_u64 v = (case v of V_u64 x \<Rightarrow> Some x | _ \<Rightarrow> None)"
definition un_int :: "payload \<Rightarrow> (int) option" where "un_int v = (case v of V_int x \<Rightarrow> Some x | _ \<Rightarrow> None)"
definition un_bool :: "payload \<Rightarrow> (bool) option" where "un_bool v = (case v of V_bool x \<Rightarrow> Some x | _ \<Rightarrow> None)"
definition un_bytes :: "payload \<Rightarrow> (bytes) option" where "un_bytes v = (case v of V_bytes x \<Rightarrow> Some x | _ \<Rightarrow> None)"
definition un_option :: "payload \<Rightarrow> (payload option) option" where "un_option v = (case v of V_option x \<Rightarrow> Some x | _ \<Rightarrow> None)"
definition un_vec :: "payload \<Rightarrow> (payload list) option" where "un_vec v = (case v of V_vec x \<Rightarrow> Some x | _ \<Rightarrow> None)"
definition un_of32 :: "payload \<Rightarrow> (OrderedF32) option" where "un_of32 v = (case v of V_OrderedF32 x \<Rightarrow> Some x | _ \<Rightarrow> None)"
definition un_of64 :: "payload \<Rightarrow> (OrderedF64) option" where "un_of64 v = (case v of V_OrderedF64 x \<Rightarrow> Some x | _ \<Rightarrow> None)"
definition un_ef32 :: "payload \<Rightarrow> (EventF32) option" where "un_ef32 v = (case v of V_EventF32 x \<Rightarrow> Some x | _ \<Rightarrow> None)"
definition un_ef64 :: "payload \<Rightarrow> (EventF64) option" where "un_ef64 v = (case v of V_EventF64 x \<Rightarrow> Some x | _ \<Rightarrow> None)"

lemmas un_defs = un_u8_def un_u16_def un_u32_def un_u64_def un_int_def un_bool_def un_bytes_def
  un_option_def un_vec_def un_of32_def un_of64_def un_ef32_def un_ef64_def

primrec payload_encode_type :: "payload_type \<Rightarrow> payload \<Rightarrow> encode_error + bytes" where
  "payload_encode_type P_u8 = enc_as un_u8 u8_encode_type"
| "payload_encode_type P_u16 = enc_as un_u16 u16_encode_type"
| "payload_encode_type P_u32 = enc_as un_u32 u32_encode_type"
| "payload_encode_type P_u64 = enc_as un_u64 u64_encode_type"
| "payload_encode_type P_i8 = enc_as un_int i8_encode_type"
| "payload_encode_type P_i16 = enc_as un_int i16_encode_type"
| "payload_encode_type P_i32 = enc_as un_int i32_encode_type"
| "payload_encode_type P_i64 = enc_as un_int i64_encode_type"
| "payload_encode_type P_bool = enc_as un_bool bool_encode_type"
| "payload_encode_type P_Timestamp = enc_as un_u64 Timestamp_encode_type"
| "payload_encode_type P_Uuid = enc_as un_bytes Uuid_encode_type"
| "payload_encode_type (P_Option t) = enc_as un_option (option_encode_type (payload_encode_type t))"
| "payload_encode_type (P_EventString mx) = enc_as un_bytes EventString_encode_type"
| "payload_encode_type (P_NonEmptyEventString mx) = enc_as un_bytes NonEmptyEventString_encode_type"
| "payload_encode_type (P_EventBytes mx) = enc_as un_bytes EventBytes_encode_type"
| "payload_encode_type (P_EventVec t mx) = enc_as un_vec (EventVec_encode_type (payload_encode_type t) mx)"
| "payload_encode_type P_OrderedF32 = enc_as un_of32 OrderedF32_encode_type"
| "payload_encode_type P_OrderedF64 = enc_as un_of64 OrderedF64_encode_type"
| "payload_encode_type P_EventF32 = enc_as un_ef32 EventF32_encode_type"
| "payload_encode_type P_EventF64 = enc_as un_ef64 EventF64_encode_type"

primrec payload_decode_type :: "payload_type \<Rightarrow> bytes \<Rightarrow> payload decoded" where
  "payload_decode_type P_u8 = dec_as V_u8 u8_decode_type"
| "payload_decode_type P_u16 = dec_as V_u16 u16_decode_type"
| "payload_decode_type P_u32 = dec_as V_u32 u32_decode_type"
| "payload_decode_type P_u64 = dec_as V_u64 u64_decode_type"
| "payload_decode_type P_i8 = dec_as V_int i8_decode_type"
| "payload_decode_type P_i16 = dec_as V_int i16_decode_type"
| "payload_decode_type P_i32 = dec_as V_int i32_decode_type"
| "payload_decode_type P_i64 = dec_as V_int i64_decode_type"
| "payload_decode_type P_bool = dec_as V_bool bool_decode_type"
| "payload_decode_type P_Timestamp = dec_as V_u64 Timestamp_decode_type"
| "payload_decode_type P_Uuid = dec_as V_bytes Uuid_decode_type"
| "payload_decode_type (P_Option t) = dec_as V_option (option_decode_type (payload_decode_type t))"
| "payload_decode_type (P_EventString mx) = dec_as V_bytes (EventString_decode_type mx)"
| "payload_decode_type (P_NonEmptyEventString mx) = dec_as V_bytes (NonEmptyEventString_decode_type mx)"
| "payload_decode_type (P_EventBytes mx) = dec_as V_bytes (EventBytes_decode_type mx)"
| "payload_decode_type (P_EventVec t mx) = dec_as V_vec (EventVec_decode_type (payload_decode_type t) mx)"
| "payload_decode_type P_OrderedF32 = dec_as V_OrderedF32 OrderedF32_decode_type"
| "payload_decode_type P_OrderedF64 = dec_as V_OrderedF64 OrderedF64_decode_type"
| "payload_decode_type P_EventF32 = dec_as V_EventF32 EventF32_decode_type"
| "payload_decode_type P_EventF64 = dec_as V_EventF64 EventF64_decode_type"

text \<open>What a value of each type satisfies.\<close>

primrec payload_inv :: "payload_type \<Rightarrow> payload \<Rightarrow> bool" where
  "payload_inv P_u8 = adm_as un_u8 (\<lambda>_. True)"
| "payload_inv P_u16 = adm_as un_u16 (\<lambda>_. True)"
| "payload_inv P_u32 = adm_as un_u32 (\<lambda>_. True)"
| "payload_inv P_u64 = adm_as un_u64 (\<lambda>_. True)"
| "payload_inv P_i8 = adm_as un_int (signed_range 8)"
| "payload_inv P_i16 = adm_as un_int (signed_range 16)"
| "payload_inv P_i32 = adm_as un_int (signed_range 32)"
| "payload_inv P_i64 = adm_as un_int (signed_range 64)"
| "payload_inv P_bool = adm_as un_bool (\<lambda>_. True)"
| "payload_inv P_Timestamp = adm_as un_u64 Timestamp_inv"
| "payload_inv P_Uuid = adm_as un_bytes Uuid_inv"
| "payload_inv (P_Option t) = adm_as un_option (option_admitted (payload_inv t))"
| "payload_inv (P_EventString mx) = adm_as un_bytes (EventString_inv mx)"
| "payload_inv (P_NonEmptyEventString mx) = adm_as un_bytes (NonEmptyEventString_inv mx)"
| "payload_inv (P_EventBytes mx) = adm_as un_bytes (EventBytes_inv mx)"
| "payload_inv (P_EventVec t mx) = adm_as un_vec (vec_admitted (payload_inv t) mx)"
| "payload_inv P_OrderedF32 = adm_as un_of32 OrderedF32_inv"
| "payload_inv P_OrderedF64 = adm_as un_of64 OrderedF64_inv"
| "payload_inv P_EventF32 = adm_as un_ef32 EventF32_inv"
| "payload_inv P_EventF64 = adm_as un_ef64 EventF64_inv"

text \<open>\<open>descriptor_node\<close>, with \<open>None\<close> for the panic of a bound that exceeds \<open>u32::MAX\<close>, and \<open>TYPE_DEPTH\<close>.\<close>

definition float_variants :: "DescriptorNode \<Rightarrow> VariantDescriptor list" where
  "float_variants inner = [VariantDescriptor 0 (ascii ''NaN'') None, VariantDescriptor 1 (ascii ''NegInf'') None,
     VariantDescriptor 2 (ascii ''Finite'') (Some inner), VariantDescriptor 3 (ascii ''PosInf'') None]"

primrec payload_descriptor :: "payload_type \<Rightarrow> DescriptorNode option" where
  "payload_descriptor P_u8 = Some D_U8"
| "payload_descriptor P_u16 = Some D_U16"
| "payload_descriptor P_u32 = Some D_U32"
| "payload_descriptor P_u64 = Some D_U64"
| "payload_descriptor P_i8 = Some D_I8"
| "payload_descriptor P_i16 = Some D_I16"
| "payload_descriptor P_i32 = Some D_I32"
| "payload_descriptor P_i64 = Some D_I64"
| "payload_descriptor P_bool = Some D_Bool"
| "payload_descriptor P_Timestamp = Some D_Timestamp"
| "payload_descriptor P_Uuid = Some D_Uuid"
| "payload_descriptor (P_Option t) = map_option D_Option (payload_descriptor t)"
| "payload_descriptor (P_EventString mx) = map_option D_EventString (u32_try_from mx)"
| "payload_descriptor (P_NonEmptyEventString mx) = map_option D_NonEmptyEventString (u32_try_from mx)"
| "payload_descriptor (P_EventBytes mx) = map_option D_EventBytes (u32_try_from mx)"
| "payload_descriptor (P_EventVec t mx) =
    Option.bind (u32_try_from mx) (\<lambda>max_items. map_option (\<lambda>inner. D_EventVec inner max_items) (payload_descriptor t))"
| "payload_descriptor P_OrderedF32 = Some D_OrderedF32"
| "payload_descriptor P_OrderedF64 = Some D_OrderedF64"
| "payload_descriptor P_EventF32 = Some (D_Enum (ascii ''EventF32'') 1 (float_variants D_OrderedF32))"
| "payload_descriptor P_EventF64 = Some (D_Enum (ascii ''EventF64'') 1 (float_variants D_OrderedF64))"

fun TYPE_DEPTH :: "payload_type \<Rightarrow> nat" where
  "TYPE_DEPTH (P_Option t) = TYPE_DEPTH t + 1"
| "TYPE_DEPTH (P_EventVec t mx) = TYPE_DEPTH t + 1"
| "TYPE_DEPTH P_EventF32 = 1"
| "TYPE_DEPTH P_EventF64 = 1"
| "TYPE_DEPTH _ = 0"

section \<open>Every payload type keeps the contract\<close>

lemmas value_type_defs = Timestamp_encode_type_def Timestamp_decode_type_def Uuid_encode_type_def Uuid_decode_type_def
  EventString_encode_type_def EventString_decode_type_def NonEmptyEventString_encode_type_def
  NonEmptyEventString_decode_type_def EventBytes_encode_type_def EventBytes_decode_type_def

context pardosa_type
begin

lemma as_payload:
  assumes "\<And>x. sel (wrap x) = Some x" and "\<And>v x. sel v = Some x \<Longrightarrow> v = wrap x"
  shows "pardosa_type (enc_as sel encode_type) (dec_as wrap decode_type) (adm_as sel admitted)"
proof
  fix v assume "adm_as sel admitted v"
  then show "\<exists>bs. enc_as sel encode_type v = Inr bs"
    using encode_total by (auto simp: adm_as_def enc_as_def split: option.splits)
next
  fix v bs and rest :: bytes
  assume "adm_as sel admitted v" "enc_as sel encode_type v = Inr bs" "length (bs @ rest) \<le> USIZE_MAX"
  then show "dec_as wrap decode_type (bs @ rest) = Inr (v, length bs)"
    using decode_encode assms(2) by (auto simp: adm_as_def enc_as_def dec_as_def split: option.splits)
next
  fix buf v n assume "dec_as wrap decode_type buf = Inr (v, n)"
  then show "adm_as sel admitted v \<and> n \<le> length buf"
    using decode_sound assms(1) by (auto simp: adm_as_def dec_as_def result_simps)
qed

end

lemma un_wrap:
  "un_u8 (V_u8 x0) = Some x0"
  "un_u16 (V_u16 x1) = Some x1"
  "un_u32 (V_u32 x2) = Some x2"
  "un_u64 (V_u64 x3) = Some x3"
  "un_int (V_int x4) = Some x4"
  "un_bool (V_bool x5) = Some x5"
  "un_bytes (V_bytes x6) = Some x6"
  "un_option (V_option x7) = Some x7"
  "un_vec (V_vec x8) = Some x8"
  "un_of32 (V_OrderedF32 x9) = Some x9"
  "un_of64 (V_OrderedF64 x10) = Some x10"
  "un_ef32 (V_EventF32 x11) = Some x11"
  "un_ef64 (V_EventF64 x12) = Some x12"
  by (simp_all add: un_defs)

lemma un_eq_Some:
  "un_u8 v = Some x0 \<Longrightarrow> v = V_u8 x0"
  "un_u16 v = Some x1 \<Longrightarrow> v = V_u16 x1"
  "un_u32 v = Some x2 \<Longrightarrow> v = V_u32 x2"
  "un_u64 v = Some x3 \<Longrightarrow> v = V_u64 x3"
  "un_int v = Some x4 \<Longrightarrow> v = V_int x4"
  "un_bool v = Some x5 \<Longrightarrow> v = V_bool x5"
  "un_bytes v = Some x6 \<Longrightarrow> v = V_bytes x6"
  "un_option v = Some x7 \<Longrightarrow> v = V_option x7"
  "un_vec v = Some x8 \<Longrightarrow> v = V_vec x8"
  "un_of32 v = Some x9 \<Longrightarrow> v = V_OrderedF32 x9"
  "un_of64 v = Some x10 \<Longrightarrow> v = V_OrderedF64 x10"
  "un_ef32 v = Some x11 \<Longrightarrow> v = V_EventF32 x11"
  "un_ef64 v = Some x12 \<Longrightarrow> v = V_EventF64 x12"
  by (cases v; simp add: un_defs)+

lemma payload_lawful: "pardosa_type (payload_encode_type t) (payload_decode_type t) (payload_inv t)"
proof (induction t)
  case (P_Option t)
  show ?case unfolding payload_encode_type.simps payload_decode_type.simps payload_inv.simps
    by (rule pardosa_type.as_payload [OF pardosa_type.option_type [OF P_Option]]) (fact un_wrap un_eq_Some)+
next
  case (P_EventVec t mx)
  show ?case unfolding payload_encode_type.simps payload_decode_type.simps payload_inv.simps
    by (rule pardosa_type.as_payload [OF pardosa_type.vec_type [OF P_EventVec]]) (fact un_wrap un_eq_Some)+
qed (unfold payload_encode_type.simps payload_decode_type.simps payload_inv.simps value_type_defs,
    (rule u8.as_payload u16.as_payload u32.as_payload u64.as_payload i8.as_payload i16.as_payload
      i32.as_payload i64.as_payload boolean.as_payload timestamp.as_type.as_payload uuid.as_type.as_payload
      event_string.as_type.as_payload non_empty_event_string.as_type.as_payload event_bytes.as_type.as_payload
      ordered_f32.as_payload ordered_f64.as_payload event_f32.as_payload event_f64.as_payload;
      fact un_wrap un_eq_Some)+)

section \<open>Properties\<close>

text \<open>C34: for every payload type, however nested: a value of the type encodes, and its bytes decode to it whatever
  follows them in a buffer; whatever the decoder accepts is a value of the type taken from inside the buffer.\<close>

theorem payload_codec_lawful:
  assumes "payload_inv t v" and "payload_decode_type t buf = Inr (w, n)"
  shows "(\<exists>bs. payload_encode_type t v = Inr bs \<and>
      (\<forall>rest. length (bs @ rest) \<le> USIZE_MAX \<longrightarrow> payload_decode_type t (bs @ rest) = Inr (v, length bs))) \<and>
    payload_inv t w \<and> n \<le> length buf"
proof -
  note laws = payload_lawful [of t]
  show ?thesis
    using pardosa_type.encode_total [OF laws assms(1)] pardosa_type.decode_encode [OF laws assms(1)]
      pardosa_type.decode_sound [OF laws assms(2)] by blast
qed

text \<open>Every bound of the type is positive.\<close>

fun bounds_positive :: "payload_type \<Rightarrow> bool" where
  "bounds_positive (P_Option t) = bounds_positive t"
| "bounds_positive (P_EventVec t mx) = (0 < mx \<and> bounds_positive t)"
| "bounds_positive (P_EventString mx) = (0 < mx)"
| "bounds_positive (P_NonEmptyEventString mx) = (0 < mx)"
| "bounds_positive (P_EventBytes mx) = (0 < mx)"
| "bounds_positive _ = True"

lemma float_enum:
  "nm \<noteq> [] \<Longrightarrow> utf8_valid nm \<Longrightarrow> inner \<in> {D_OrderedF32, D_OrderedF64} \<Longrightarrow>
    node_depth (D_Enum nm 1 (float_variants inner)) = 1 \<and> node_wf (D_Enum nm 1 (float_variants inner)) \<and>
    node_complete (D_Enum nm 1 (float_variants inner))"
  by (auto simp: float_variants_def ascii_def discriminant_fits_def)

lemma u32_try_from_zero: "u32_try_from mx = Some m \<Longrightarrow> m = 0 \<longleftrightarrow> mx = 0"
  using unat_of_nat_u32 [of mx] by (auto simp: u32_try_from_def split: if_splits)

lemma payload_descriptor_shape:
  "payload_descriptor t = Some d \<Longrightarrow>
    node_depth d = TYPE_DEPTH t \<and> node_wf d \<and> (node_complete d \<longleftrightarrow> bounds_positive t)"
proof (induction t arbitrary: d)
  case P_EventF32
  then show ?case using float_enum [of "ascii ''EventF32''" D_OrderedF32] by (auto simp: ascii_def)
next
  case P_EventF64
  then show ?case using float_enum [of "ascii ''EventF64''" D_OrderedF64] by (auto simp: ascii_def)
qed (auto simp: bind_eq_Some_conv dest: u32_try_from_zero)

text \<open>The schema a payload type declares: its descriptor has exactly the nesting depth \<open>TYPE_DEPTH\<close> says and
  is well formed, and it passes structural validation exactly when that depth is within the limit and every
  bound of the type is positive.\<close>

lemma payload_schema_valid:
  assumes "payload_descriptor t = Some d"
  shows "node_depth d = TYPE_DEPTH t \<and> node_wf d \<and>
    (validate_structural_completeness_node d = Inr () \<longleftrightarrow> TYPE_DEPTH t \<le> MAX_DESCRIPTOR_DEPTH \<and> bounds_positive t)"
  using payload_descriptor_shape [OF assms]
  by (auto simp: validate_structural_completeness_node_def validate_mutual)

theorem payload_codec_lawful_witness:
  "payload_decode_type (P_EventVec (P_Option P_i16) 3) ([2, 0, 0, 0, 1, 0xff, 0xff, 0] @ [7]) =
    Inr (V_vec [V_option (Some (V_int (-1))), V_option None], 8)"
proof -
  let ?t = "P_EventVec (P_Option P_i16) 3" and ?v = "V_vec [V_option (Some (V_int (-1))), V_option None]"
  have inv: "payload_inv ?t ?v" by (simp add: adm_as_def un_defs vec_admitted_def signed_range_def U32_bound)
  have "(- 1 :: u16) = 0xffff" by simp
  then have "u16_to_le (- 1) = u16_to_le 0xffff" by (rule arg_cong)
  also have "\<dots> = [0xff, 0xff]" by (simp add: u16_to_le_def)
  finally have minus: "u16_to_le (- 1) = [0xff, 0xff]" .
  have enc: "payload_encode_type ?t ?v = Inr [2, 0, 0, 0, 1, 0xff, 0xff, 0]"
    by (simp add: enc_as_def un_defs EventVec_encode_type_def i16_encode_type_def u32_try_from_def U32_bound u32_to_le_def minus)
  have "payload_decode_type ?t [0, 0, 0, 0] = Inr (V_vec [], 4)"
    by (simp add: dec_as_def EventVec_decode_type_def EventVec_new_def Let_def U32_bound subslice_def u32_from_le_def)
  from payload_codec_lawful [OF inv this] enc show ?thesis by (simp add: USIZE_bound)
qed

end
