(* ===== verification/Derive.thy ===== *)
theory Derive
  imports Payload_Types
begin

text \<open>
  The derive macros of \<open>pardosa-derive/src/lib.rs\<close>. A declaration is the part of the parsed syntax tree that the
  macros inspect; \<open>expand_pardosa_type\<close> and \<open>expand_pardosa_schema\<close> map it to a compile error or to an
  implementation. The tokens they emit are modelled by what they mean: the encoder, the decoder, the descriptor and
  the constants of the generated \<open>impl\<close>, as functions of the implementations of the field types, which the compiler
  finds for the paths in the declaration (the parameter \<open>impl_of\<close>). Assertions in generated constants are compile
  errors. A value of a struct is the list of its fields, a value of an enum the name of its variant with its fields.
  Generic parameters are instantiated; the texts of errors are reduced to their cause.
\<close>

section \<open>Declarations\<close>

datatype rust_type =
    T_Path "bytes list" bytes "generic_arg list"
  | T_Reference rust_type | T_Tuple "rust_type list" | T_Array rust_type bytes | T_Slice rust_type | T_Paren rust_type
  | T_Other bytes
and generic_arg = G_Type rust_type | G_Other bytes

datatype Fields = Unit | Named "(bytes \<times> rust_type) list" | Unnamed "rust_type list"

datatype Expr = Int_literal nat | Other_expr

text \<open>An attribute: whether its path is \<open>pardosa\<close>, and the items in its parentheses if it has any. An item that the
  macro leaves alone must not have a value, or the parser stops at it.\<close>

datatype meta_path = Version_path | Tombstone_path | Other_path

datatype meta_value = No_value | Int_value nat | Other_value

type_synonym nested_meta = "meta_path \<times> meta_value"

record Attribute =
  at_is_pardosa :: bool
  at_items :: "nested_meta list option"

record Variant =
  va_ident :: bytes
  va_attrs :: "Attribute list"
  va_discriminant :: "Expr option"
  va_fields :: Fields

datatype Data = Data_Struct Fields | Data_Enum "Variant list" | Data_Union

record DeriveInput =
  di_ident :: bytes
  di_attrs :: "Attribute list"
  di_data :: Data

datatype compile_error =
    Union_unsupported | Struct_root | Enum_without_variants
  | Missing_discriminant bytes | Discriminant_not_literal | Literal_out_of_range
  | Discriminant_too_large u32 | Duplicate_discriminant u32
  | Floating_point | Unbounded_text | Unbounded_collection | Cycle bytes
  | Attribute_syntax | Version_duplicate | Version_zero | Version_missing | Tombstone_missing
  | Depth_assertion

section \<open>Checks of the macro\<close>

fun check_type_for_issues :: "rust_type \<Rightarrow> bytes \<Rightarrow> compile_error + unit"
and check_types :: "rust_type list \<Rightarrow> bytes \<Rightarrow> compile_error + unit"
and check_args :: "generic_arg list \<Rightarrow> bytes \<Rightarrow> compile_error + unit"
where
  "check_type_for_issues (T_Path _ ident args) enum_name =
    (if ident = ascii ''f32'' \<or> ident = ascii ''f64'' then Inl Floating_point
     else if ident = ascii ''String'' \<or> ident = ascii ''str'' then Inl Unbounded_text
     else if ident = ascii ''Vec'' then Inl Unbounded_collection
     else if ident = enum_name \<or> ident = ascii ''Self'' then Inl (Cycle ident)
     else check_args args enum_name)"
| "check_type_for_issues (T_Reference elem) enum_name = check_type_for_issues elem enum_name"
| "check_type_for_issues (T_Tuple elems) enum_name = check_types elems enum_name"
| "check_type_for_issues (T_Array elem _) enum_name = check_type_for_issues elem enum_name"
| "check_type_for_issues (T_Slice elem) enum_name = check_type_for_issues elem enum_name"
| "check_type_for_issues (T_Paren elem) enum_name = check_type_for_issues elem enum_name"
| "check_type_for_issues (T_Other _) enum_name = Inr ()"
| "check_types [] enum_name = Inr ()"
| "check_types (ty # tys) enum_name = result_bind (check_type_for_issues ty enum_name) (\<lambda>_. check_types tys enum_name)"
| "check_args [] enum_name = Inr ()"
| "check_args (G_Type ty # args) enum_name = result_bind (check_type_for_issues ty enum_name) (\<lambda>_. check_args args enum_name)"
| "check_args (G_Other _ # args) enum_name = check_args args enum_name"

fun parse_discriminant_value :: "Expr \<Rightarrow> compile_error + u32" where
  "parse_discriminant_value (Int_literal n) = (if n < 2 ^ 32 then Inr (of_nat n) else Inl Literal_out_of_range)"
| "parse_discriminant_value Other_expr = Inl Discriminant_not_literal"

fun tombstone_items :: "bool \<Rightarrow> nested_meta list \<Rightarrow> compile_error + bool" where
  "tombstone_items is_tombstone [] = Inr is_tombstone"
| "tombstone_items is_tombstone ((path, val) # items) =
    (if val \<noteq> No_value then Inl Attribute_syntax
     else tombstone_items (if path = Tombstone_path then True else is_tombstone) items)"

fun check_tombstone_attr :: "Attribute list \<Rightarrow> compile_error + bool" where
  "check_tombstone_attr [] = Inr False"
| "check_tombstone_attr (attr # attrs) =
    (if at_is_pardosa attr then
       result_bind (ok_or Attribute_syntax (at_items attr)) (\<lambda>items.
       result_bind (tombstone_items False items) (\<lambda>is_tombstone.
         if is_tombstone then Inr True else check_tombstone_attr attrs))
     else check_tombstone_attr attrs)"

fun version_items :: "u32 option \<Rightarrow> nested_meta list \<Rightarrow> compile_error + u32 option" where
  "version_items found_version [] = Inr found_version"
| "version_items found_version ((path, val) # items) =
    (if path = Version_path then
       (if found_version \<noteq> None then Inl Version_duplicate
        else case val of
               Int_value n \<Rightarrow>
                 if n \<ge> 2 ^ 32 then Inl Literal_out_of_range
                 else if n = 0 then Inl Version_zero
                 else version_items (Some (of_nat n)) items
             | _ \<Rightarrow> Inl Attribute_syntax)
     else if val \<noteq> No_value then Inl Attribute_syntax
     else version_items found_version items)"

fun version_attrs :: "u32 option \<Rightarrow> Attribute list \<Rightarrow> compile_error + u32 option" where
  "version_attrs found_version [] = Inr found_version"
| "version_attrs found_version (attr # attrs) =
    (if at_is_pardosa attr then
       result_bind (ok_or Attribute_syntax (at_items attr)) (\<lambda>items.
       result_bind (version_items found_version items) (\<lambda>found. version_attrs found attrs))
     else version_attrs found_version attrs)"

definition parse_schema_version :: "DeriveInput \<Rightarrow> compile_error + u32" where
  "parse_schema_version input =
    result_bind (version_attrs None (di_attrs input)) (\<lambda>found_version. ok_or Version_missing found_version)"

fun field_types :: "Fields \<Rightarrow> rust_type list" where
  "field_types Unit = []"
| "field_types (Named fs) = map snd fs"
| "field_types (Unnamed tys) = tys"

text \<open>The discriminant of a variant and the loops over the variants.\<close>

definition variant_discriminant_value :: "u32 list \<Rightarrow> Variant \<Rightarrow> compile_error + u32" where
  "variant_discriminant_value seen_discriminants va =
    result_bind (ok_or (Missing_discriminant (va_ident va)) (va_discriminant va)) (\<lambda>disc_expr.
    result_bind (parse_discriminant_value disc_expr) (\<lambda>disc_val.
      if disc_val > 65535 then Inl (Discriminant_too_large disc_val)
      else if disc_val \<in> set seen_discriminants then Inl (Duplicate_discriminant disc_val)
      else Inr disc_val))"

fun admit_variants :: "bytes \<Rightarrow> u32 list \<Rightarrow> Variant list \<Rightarrow> compile_error + (Variant \<times> u32) list" where
  "admit_variants ident seen [] = Inr []"
| "admit_variants ident seen (va # vs) =
    result_bind (variant_discriminant_value seen va) (\<lambda>disc_val.
    result_bind (check_types (field_types (va_fields va)) ident) (\<lambda>_.
    result_bind (admit_variants ident (disc_val # seen) vs) (\<lambda>variant_data. Inr ((va, disc_val) # variant_data))))"

fun admit_schema_variants :: "bytes \<Rightarrow> u32 list \<Rightarrow> bool \<Rightarrow> Variant list \<Rightarrow> compile_error + (Variant \<times> u32) list \<times> bool" where
  "admit_schema_variants ident seen has_tombstone [] = Inr ([], has_tombstone)"
| "admit_schema_variants ident seen has_tombstone (va # vs) =
    result_bind (variant_discriminant_value seen va) (\<lambda>disc_val.
    result_bind (check_tombstone_attr (va_attrs va)) (\<lambda>is_tombstone.
    result_bind (check_types (field_types (va_fields va)) ident) (\<lambda>_.
    result_bind (admit_schema_variants ident (disc_val # seen) (if is_tombstone then True else has_tombstone) vs)
      (\<lambda>(variant_data, tomb). Inr ((va, disc_val) # variant_data, tomb)))))"

section \<open>Generated implementations\<close>

text \<open>An implementation of \<open>PardosaType\<close>. A descriptor is \<open>None\<close> when computing it panics.\<close>

record PardosaImpl =
  im_type_depth :: nat
  im_descriptor_node :: "DescriptorNode option"
  im_encode_type :: "payload \<Rightarrow> encode_error + bytes"
  im_decode_type :: "bytes \<Rightarrow> payload decoded"

fun decimal :: "nat \<Rightarrow> bytes" where
  "decimal n = (if n < 10 then [48 + of_nat n] else decimal (n div 10) @ [48 + of_nat (n mod 10)])"

declare decimal.simps [simp del]

text \<open>Fields with the names their descriptors have.\<close>

fun field_names :: "Fields \<Rightarrow> bytes list" where
  "field_names Unit = []"
| "field_names (Named fs) = map fst fs"
| "field_names (Unnamed tys) = map (\<lambda>idx. 95 # decimal idx) [0 ..< length tys]"

fun encode_values :: "PardosaImpl list \<Rightarrow> payload list \<Rightarrow> encode_error + bytes" where
  "encode_values [] [] = Inr []"
| "encode_values (i # is) (v # vs) =
    result_bind (im_encode_type i v) (\<lambda>bs. result_bind (encode_values is vs) (\<lambda>cs. Inr (bs @ cs)))"
| "encode_values _ _ = Inl (Custom_enc ''ill-typed'')"

fun decode_values :: "PardosaImpl list \<Rightarrow> bytes \<Rightarrow> nat \<Rightarrow> decode_error + payload list \<times> nat" where
  "decode_values [] buf cursor = Inr ([], cursor)"
| "decode_values (i # is) buf cursor =
    result_bind (im_decode_type i (drop cursor buf)) (\<lambda>(v, consumed).
    result_bind (checked_advance cursor consumed (length buf)) (\<lambda>cursor'.
    result_bind (decode_values is buf cursor') (\<lambda>(vs, end). Inr (v # vs, end))))"

definition struct_node :: "(rust_type \<Rightarrow> PardosaImpl) \<Rightarrow> bytes \<Rightarrow> Fields \<Rightarrow> DescriptorNode option" where
  "struct_node impl_of struct_name fs =
    map_option (D_Struct struct_name) (those (map2 (\<lambda>nm ty. map_option (FieldDescriptor nm) (im_descriptor_node (impl_of ty)))
      (field_names fs) (field_types fs)))"

text \<open>\<open>TYPE_DEPTH\<close> of a generated implementation, from the depths of the components below it.\<close>

definition type_depth_const :: "nat list \<Rightarrow> compile_error + nat" where
  "type_depth_const depths =
    (let max_depth = foldr max depths 0 in
     if max_depth \<le> MAX_DESCRIPTOR_DEPTH then Inr max_depth else Inl Depth_assertion)"

definition un_struct :: "payload \<Rightarrow> payload list option" where
  "un_struct v = (case v of V_struct vs \<Rightarrow> Some vs | _ \<Rightarrow> None)"

definition expand_pardosa_type_struct :: "(rust_type \<Rightarrow> PardosaImpl) \<Rightarrow> bytes \<Rightarrow> Fields \<Rightarrow> compile_error + PardosaImpl" where
  "expand_pardosa_type_struct impl_of ident fs =
    result_bind (check_types (field_types fs) ident) (\<lambda>_.
      let impls = map impl_of (field_types fs) in
      result_bind (type_depth_const (map (\<lambda>i. im_type_depth i + 1) impls)) (\<lambda>depth.
        Inr \<lparr>im_type_depth = depth, im_descriptor_node = struct_node impl_of ident fs,
          im_encode_type = enc_as un_struct (encode_values impls),
          im_decode_type = dec_as V_struct (\<lambda>buf. decode_values impls buf 0)\<rparr>))"

subsection \<open>Enums\<close>

definition discriminant_width :: "(Variant \<times> u32) list \<Rightarrow> byte" where
  "discriminant_width variant_data = (if foldr max (map snd variant_data) 0 \<le> 255 then 1 else 2)"

definition variant_payload_node :: "(rust_type \<Rightarrow> PardosaImpl) \<Rightarrow> bytes \<Rightarrow> Variant \<Rightarrow> DescriptorNode option option" where
  "variant_payload_node impl_of ident va =
    (case va_fields va of
       Unit \<Rightarrow> Some None
     | Unnamed [ty] \<Rightarrow> map_option Some (im_descriptor_node (impl_of ty))
     | fs \<Rightarrow> map_option Some (struct_node impl_of (ident @ [95] @ va_ident va) fs))"

definition enum_node :: "(rust_type \<Rightarrow> PardosaImpl) \<Rightarrow> bytes \<Rightarrow> (Variant \<times> u32) list \<Rightarrow> DescriptorNode option" where
  "enum_node impl_of ident variant_data =
    map_option (D_Enum ident (discriminant_width variant_data)) (those (map (\<lambda>(va, disc_val).
      map_option (VariantDescriptor disc_val (va_ident va)) (variant_payload_node impl_of ident va)) variant_data))"

text \<open>How many levels the field of a variant lies below the enum.\<close>

definition variant_overhead :: "Fields \<Rightarrow> nat" where
  "variant_overhead fs = (case fs of Unnamed [ty] \<Rightarrow> 1 | _ \<Rightarrow> 2)"

definition variant_depths :: "(rust_type \<Rightarrow> PardosaImpl) \<Rightarrow> Variant \<Rightarrow> nat list" where
  "variant_depths impl_of va = map (\<lambda>ty. im_type_depth (impl_of ty) + variant_overhead (va_fields va)) (field_types (va_fields va))"

definition encode_disc :: "byte \<Rightarrow> u32 \<Rightarrow> bytes" where
  "encode_disc width disc_val = (if width = 1 then [ucast disc_val] else u16_to_le (ucast disc_val))"

definition decode_disc :: "byte \<Rightarrow> bytes \<Rightarrow> decode_error + u32" where
  "decode_disc width buf =
    (if width = 1 then (if buf = [] then Inl (TruncatedPayload 1 0) else Inr (ucast (buf ! 0)))
     else (if length buf < 2 then Inl (TruncatedPayload 2 (length buf)) else Inr (ucast (u16_from_le (subslice 0 2 buf)))))"

definition un_enum :: "payload \<Rightarrow> (bytes \<times> payload list) option" where
  "un_enum v = (case v of V_enum vident vs \<Rightarrow> Some (vident, vs) | _ \<Rightarrow> None)"

definition encode_variant :: "(rust_type \<Rightarrow> PardosaImpl) \<Rightarrow> (Variant \<times> u32) list \<Rightarrow> bytes \<times> payload list \<Rightarrow> encode_error + bytes" where
  "encode_variant impl_of variant_data v =
    (case v of (vident, vs) \<Rightarrow>
       (case find (\<lambda>(va, _). va_ident va = vident) variant_data of
          None \<Rightarrow> Inl (Custom_enc ''ill-typed'')
        | Some (va, disc_val) \<Rightarrow>
            result_bind (encode_values (map impl_of (field_types (va_fields va))) vs) (\<lambda>bs.
              Inr (encode_disc (discriminant_width variant_data) disc_val @ bs))))"

text \<open>The arm of the decoder for a variant, from the discriminant on. The test of the length repeats the one made when
  the discriminant was read.\<close>

definition decode_arm :: "(rust_type \<Rightarrow> PardosaImpl) \<Rightarrow> nat \<Rightarrow> Variant \<Rightarrow> bytes \<Rightarrow> decode_error + payload \<times> nat" where
  "decode_arm impl_of width va buf =
    (if va_fields va = Unit then Inr (V_enum (va_ident va) [], width)
     else if length buf < width then Inl (TruncatedPayload width (length buf))
     else result_bind (decode_values (map impl_of (field_types (va_fields va))) buf width) (\<lambda>(vs, cursor).
       Inr (V_enum (va_ident va) vs, cursor)))"

definition decode_variant :: "(rust_type \<Rightarrow> PardosaImpl) \<Rightarrow> (Variant \<times> u32) list \<Rightarrow> bytes \<Rightarrow> payload decoded" where
  "decode_variant impl_of variant_data buf =
    result_bind (decode_disc (discriminant_width variant_data) buf) (\<lambda>disc.
      case find (\<lambda>(_, disc_val). disc_val = disc) variant_data of
        None \<Rightarrow> Inl (UnknownVariantDiscriminant disc)
      | Some (va, _) \<Rightarrow> decode_arm impl_of (unat (discriminant_width variant_data)) va buf)"

definition expand_pardosa_type_enum :: "(rust_type \<Rightarrow> PardosaImpl) \<Rightarrow> bytes \<Rightarrow> Variant list \<Rightarrow> compile_error + PardosaImpl" where
  "expand_pardosa_type_enum impl_of ident variants =
    (if variants = [] then Inl Enum_without_variants
     else result_bind (admit_variants ident [] variants) (\<lambda>variant_data.
       result_bind (type_depth_const (concat (map (variant_depths impl_of) variants))) (\<lambda>depth.
         Inr \<lparr>im_type_depth = depth, im_descriptor_node = enum_node impl_of ident variant_data,
           im_encode_type = enc_as un_enum (encode_variant impl_of variant_data),
           im_decode_type = decode_variant impl_of variant_data\<rparr>)))"

definition expand_pardosa_type :: "(rust_type \<Rightarrow> PardosaImpl) \<Rightarrow> DeriveInput \<Rightarrow> compile_error + PardosaImpl" where
  "expand_pardosa_type impl_of input =
    (case di_data input of
       Data_Struct fs \<Rightarrow> expand_pardosa_type_struct impl_of (di_ident input) fs
     | Data_Enum variants \<Rightarrow> expand_pardosa_type_enum impl_of (di_ident input) variants
     | Data_Union \<Rightarrow> Inl Union_unsupported)"

subsection \<open>Payload roots\<close>

record PardosaSchemaImpl =
  ps_schema_version :: u32
  ps_schema_descriptor :: "DescriptorNode option"
  ps_encode_payload :: "payload \<Rightarrow> encode_error + bytes"
  ps_decode_payload :: "bytes \<Rightarrow> decode_error + payload"

text \<open>The arms of a payload root refuse what follows the value.\<close>

definition decode_root :: "(rust_type \<Rightarrow> PardosaImpl) \<Rightarrow> (Variant \<times> u32) list \<Rightarrow> bytes \<Rightarrow> decode_error + payload" where
  "decode_root impl_of variant_data buf =
    result_bind (decode_variant impl_of variant_data buf) (\<lambda>(v, cursor).
      if cursor \<noteq> length buf then Inl (TruncatedPayload cursor (length buf)) else Inr v)"

definition depth_assertions :: "(rust_type \<Rightarrow> PardosaImpl) \<Rightarrow> Variant list \<Rightarrow> bool" where
  "depth_assertions impl_of variants =
    list_all (\<lambda>va. list_all (\<lambda>ty. im_type_depth (impl_of ty) \<le> MAX_DESCRIPTOR_DEPTH - variant_overhead (va_fields va))
      (field_types (va_fields va))) variants"

definition expand_pardosa_schema :: "(rust_type \<Rightarrow> PardosaImpl) \<Rightarrow> DeriveInput \<Rightarrow> compile_error + PardosaSchemaImpl" where
  "expand_pardosa_schema impl_of input =
    (case di_data input of
       Data_Struct _ \<Rightarrow> Inl Struct_root
     | Data_Union \<Rightarrow> Inl Union_unsupported
     | Data_Enum variants \<Rightarrow>
         result_bind (parse_schema_version input) (\<lambda>schema_version.
         result_bind (admit_schema_variants (di_ident input) [] False variants) (\<lambda>(variant_data, has_tombstone).
           if \<not> has_tombstone then Inl Tombstone_missing
           else if \<not> depth_assertions impl_of variants then Inl Depth_assertion
           else Inr \<lparr>ps_schema_version = schema_version,
             ps_schema_descriptor = enum_node impl_of (di_ident input) variant_data,
             ps_encode_payload = enc_as un_enum (encode_variant impl_of variant_data),
             ps_decode_payload = decode_root impl_of variant_data\<rparr>)))"

text \<open>The default method of the trait \<open>PardosaSchema\<close> in \<open>schema.rs\<close>; \<open>None\<close> is its panic.\<close>

definition schema_identity :: "blake3 \<Rightarrow> PardosaSchemaImpl \<Rightarrow> bytes option" where
  "schema_identity H s =
    Option.bind (ps_schema_descriptor s) (\<lambda>root.
      case try_from_descriptor H \<lparr>sd_version = ps_schema_version s, sd_root = root\<rparr> of
        Inr admitted \<Rightarrow> Some (ad_identity admitted)
      | Inl _ \<Rightarrow> None)"

section \<open>The types of the library\<close>

text \<open>The implementations of \<open>schema.rs\<close> under the names a declaration uses for them.\<close>

definition payload_impl :: "payload_type \<Rightarrow> PardosaImpl" where
  "payload_impl t = \<lparr>im_type_depth = TYPE_DEPTH t, im_descriptor_node = payload_descriptor t,
     im_encode_type = payload_encode_type t, im_decode_type = payload_decode_type t\<rparr>"

definition plain_types :: "(bytes \<times> payload_type) list" where
  "plain_types = [(ascii ''u8'', P_u8), (ascii ''u16'', P_u16), (ascii ''u32'', P_u32), (ascii ''u64'', P_u64),
     (ascii ''i8'', P_i8), (ascii ''i16'', P_i16), (ascii ''i32'', P_i32), (ascii ''i64'', P_i64), (ascii ''bool'', P_bool),
     (ascii ''Timestamp'', P_Timestamp), (ascii ''Uuid'', P_Uuid), (ascii ''OrderedF32'', P_OrderedF32),
     (ascii ''OrderedF64'', P_OrderedF64), (ascii ''EventF32'', P_EventF32), (ascii ''EventF64'', P_EventF64)]"

definition const_arg :: "bytes \<Rightarrow> nat" where
  "const_arg digits = foldl (\<lambda>n b. 10 * n + unat (b - 48)) 0 digits"

fun library_type :: "rust_type \<Rightarrow> payload_type option" where
  "library_type (T_Path _ ident []) = map_of plain_types ident"
| "library_type (T_Path _ ident [G_Type ty]) = (if ident = ascii ''Option'' then map_option P_Option (library_type ty) else None)"
| "library_type (T_Path _ ident [G_Other mx]) =
    map_of [(ascii ''EventString'', P_EventString (const_arg mx)), (ascii ''NonEmptyEventString'', P_NonEmptyEventString (const_arg mx)),
      (ascii ''EventBytes'', P_EventBytes (const_arg mx))] ident"
| "library_type (T_Path _ ident [G_Type ty, G_Other mx]) =
    (if ident = ascii ''EventVec'' then map_option (\<lambda>t. P_EventVec t (const_arg mx)) (library_type ty) else None)"
| "library_type _ = None"

definition library_impl :: "rust_type \<Rightarrow> PardosaImpl" where
  "library_impl ty = payload_impl (case library_type ty of Some t \<Rightarrow> t | None \<Rightarrow> P_bool)"

text \<open>The generic implementation for \<open>Option\<close>, and paths resolved after a declaration has been expanded.\<close>

definition option_impl :: "PardosaImpl \<Rightarrow> PardosaImpl" where
  "option_impl i = \<lparr>im_type_depth = im_type_depth i + 1, im_descriptor_node = map_option D_Option (im_descriptor_node i),
     im_encode_type = enc_as un_option (option_encode_type (im_encode_type i)),
     im_decode_type = dec_as V_option (option_decode_type (im_decode_type i))\<rparr>"

fun with_declared :: "bytes \<Rightarrow> PardosaImpl \<Rightarrow> rust_type \<Rightarrow> PardosaImpl" where
  "with_declared name i (T_Path qs ident []) = (if ident = name then i else library_impl (T_Path qs ident []))"
| "with_declared name i (T_Path qs ident [G_Type ty]) =
    (if ident = ascii ''Option'' then option_impl (with_declared name i ty) else library_impl (T_Path qs ident [G_Type ty]))"
| "with_declared name i ty = library_impl ty"

end
