(* ===== verification/Derive_Laws.thy ===== *)
theory Derive_Laws
  imports Derive
begin

text \<open>
  What the derive macros of \<open>pardosa-derive/src/lib.rs\<close> guarantee. The locale \<open>resolved\<close> states what generated code
  relies on: that the implementation found for each field type keeps the contract of \<open>PardosaType\<close>. In it the encoder
  and decoder of a struct and of an enum are shown to keep that contract again; it is interpreted on the implementations
  of \<open>schema.rs\<close>. The loops of the macros are characterised by what they accept, and the descriptors they generate by
  their shape and depth.
\<close>

section \<open>Laws of the generated implementations\<close>

definition lawful :: "PardosaImpl \<Rightarrow> (payload \<Rightarrow> bool) \<Rightarrow> bool" where
  "lawful i adm \<longleftrightarrow> pardosa_type (im_encode_type i) (im_decode_type i) adm"

text \<open>The values of a declared type, from those of its field types.\<close>

fun derived_value :: "(rust_type \<Rightarrow> payload \<Rightarrow> bool) \<Rightarrow> Data \<Rightarrow> payload \<Rightarrow> bool" where
  "derived_value adm (Data_Struct fs) v =
    (case v of V_struct vs \<Rightarrow> list_all2 adm (field_types fs) vs | _ \<Rightarrow> False)"
| "derived_value adm (Data_Enum variants) v =
    (case v of
       V_enum vident vs \<Rightarrow>
         list_ex (\<lambda>va. va_ident va = vident \<and> list_all2 adm (field_types (va_fields va)) vs) variants
     | _ \<Rightarrow> False)"
| "derived_value adm Data_Union v = False"

fun data_types :: "Data \<Rightarrow> rust_type list" where
  "data_types (Data_Struct fs) = field_types fs"
| "data_types (Data_Enum variants) = concat (map (\<lambda>va. field_types (va_fields va)) variants)"
| "data_types Data_Union = []"

text \<open>The compiler rejects two variants of one name.\<close>

fun variants_named_apart :: "Data \<Rightarrow> bool" where
  "variants_named_apart (Data_Enum variants) = distinct (map va_ident variants)"
| "variants_named_apart _ = True"

lemma find_by_key: "distinct (map f xs) \<Longrightarrow> x \<in> set xs \<Longrightarrow> find (\<lambda>y. f y = f x) xs = Some x"
  by (induction xs) auto

lemma find_hit: "find P xs = Some x \<Longrightarrow> x \<in> set xs \<and> P x"
  by (induction xs) (auto split: if_splits)

lemma foldr_max_ge: "x \<in> set xs \<Longrightarrow> x \<le> foldr max xs (b :: 'a :: linorder)"
  by (induction xs) (auto simp: max_def)

lemma discriminant_width_cases: "discriminant_width vd = 1 \<or> discriminant_width vd = 2"
  by (simp add: discriminant_width_def)

lemma within_width:
  assumes "(va, d) \<in> set vd" and "list_all (\<lambda>(va, d). d \<le> 65535) vd"
  shows "discriminant_fits (discriminant_width vd) d"
  using assms foldr_max_ge [of d "map snd vd" 0]
  by (force simp: discriminant_fits_def discriminant_width_def list_all_iff split: if_splits)

lemma u8_of_u32: "(d :: u32) \<le> 255 \<Longrightarrow> ucast (ucast d :: byte) = d"
  by (simp add: word_le_nat_alt word_unat_eq_iff unsigned_ucast_eq unsigned_take_bit_eq take_bit_nat_eq_self)

lemma u16_of_u32: "(d :: u32) \<le> 65535 \<Longrightarrow> ucast (ucast d :: u16) = d"
  by (simp add: word_le_nat_alt word_unat_eq_iff unsigned_ucast_eq unsigned_take_bit_eq take_bit_nat_eq_self)

lemma disc_roundtrip:
  assumes "w = 1 \<or> w = 2" and "discriminant_fits w d"
  shows "decode_disc w (encode_disc w d @ rest) = Inr d" and "length (encode_disc w d) = unat w"
  using assms by (auto simp: decode_disc_def encode_disc_def discriminant_fits_def u8_of_u32 u16_of_u32 bytes_simps)

lemma decode_disc_consumes: "w = 1 \<or> w = 2 \<Longrightarrow> decode_disc w buf = Inr d \<Longrightarrow> unat w \<le> length buf"
  by (auto simp: decode_disc_def Suc_le_eq split: if_splits)

text \<open>What a declaration relies on: that the implementations found for its field types keep the contract of
  \<open>PardosaType\<close>.\<close>

locale resolved =
  fixes impl_of :: "rust_type \<Rightarrow> PardosaImpl" and adm :: "rust_type \<Rightarrow> payload \<Rightarrow> bool" and scope :: "rust_type set"
  assumes field_lawful: "ty \<in> scope \<Longrightarrow> lawful (impl_of ty) (adm ty)"
begin

lemma field_type: "ty \<in> scope \<Longrightarrow> pardosa_type (im_encode_type (impl_of ty)) (im_decode_type (impl_of ty)) (adm ty)"
  using field_lawful by (simp add: lawful_def)

lemma encode_values_total:
  "list_all2 adm tys vs \<Longrightarrow> set tys \<subseteq> scope \<Longrightarrow> \<exists>bs. encode_values (map impl_of tys) vs = Inr bs"
proof (induction rule: list_all2_induct)
  case (Cons ty tys v vs)
  then show ?case using pardosa_type.encode_total [OF field_type] by fastforce
qed simp

lemma decode_values_encoded:
  "list_all2 adm tys vs \<Longrightarrow> set tys \<subseteq> scope \<Longrightarrow> encode_values (map impl_of tys) vs = Inr bs \<Longrightarrow>
    drop cursor buf = bs @ rest \<Longrightarrow> cursor \<le> length buf \<Longrightarrow> length buf \<le> USIZE_MAX \<Longrightarrow>
    decode_values (map impl_of tys) buf cursor = Inr (vs, cursor + length bs)"
proof (induction tys vs arbitrary: bs cursor rule: list_all2_induct)
  case Nil
  then show ?case by simp
next
  case (Cons ty tys v vs)
  then obtain b c where b: "im_encode_type (impl_of ty) v = Inr b" "encode_values (map impl_of tys) vs = Inr c" "bs = b @ c"
    by (auto simp: result_simps)
  have buf: "drop cursor buf = b @ c @ rest" using Cons.prems(3) b(3) by simp
  then have len: "length buf = cursor + length b + length c + length rest"
    using Cons.prems(4) by (metis add.assoc append_take_drop_id length_append length_take min.absorb2)
  have "ty \<in> scope" using Cons.prems(1) by simp
  then have "im_decode_type (impl_of ty) (drop cursor buf) = Inr (v, length b)"
    using pardosa_type.decode_encode [OF field_type, of ty v b "c @ rest"] Cons.hyps(1) Cons.prems(5) b(1) buf len by simp
  moreover have "drop (cursor + length b) buf = c @ rest"
    using buf by (metis add.commute append_eq_conv_conj drop_drop)
  ultimately show ?case
    using Cons.IH [of c "cursor + length b"] Cons.prems(1,5) b(2,3) len by (simp add: result_simps checked_advance_def checked_add_def)
qed

lemma decode_values_sound:
  "set tys \<subseteq> scope \<Longrightarrow> decode_values (map impl_of tys) buf cursor = Inr (vs, end) \<Longrightarrow> cursor \<le> length buf \<Longrightarrow>
    list_all2 adm tys vs \<and> end \<le> length buf"
proof (induction tys arbitrary: cursor vs)
  case Nil
  then show ?case by simp
next
  case (Cons ty tys)
  then show ?case using pardosa_type.decode_sound [OF field_type, of ty] by (auto simp: result_simps)
qed

lemma struct_type:
  assumes "set (field_types fs) \<subseteq> scope"
  shows "pardosa_type (enc_as un_struct (encode_values (map impl_of (field_types fs))))
    (dec_as V_struct (\<lambda>buf. decode_values (map impl_of (field_types fs)) buf 0)) (derived_value adm (Data_Struct fs))"
proof
  fix v assume "derived_value adm (Data_Struct fs) v"
  then show "\<exists>bs. enc_as un_struct (encode_values (map impl_of (field_types fs))) v = Inr bs"
    using encode_values_total assms by (auto simp: enc_as_def un_struct_def split: payload.splits)
next
  fix v bs and rest :: bytes
  assume a: "derived_value adm (Data_Struct fs) v" "enc_as un_struct (encode_values (map impl_of (field_types fs))) v = Inr bs"
    "length (bs @ rest) \<le> USIZE_MAX"
  then obtain vs where "v = V_struct vs" "list_all2 adm (field_types fs) vs" "encode_values (map impl_of (field_types fs)) vs = Inr bs"
    by (auto simp: enc_as_def un_struct_def split: payload.splits)
  with decode_values_encoded [of "field_types fs" vs bs 0 "bs @ rest" rest] a(3) assms
  show "dec_as V_struct (\<lambda>buf. decode_values (map impl_of (field_types fs)) buf 0) (bs @ rest) = Inr (v, length bs)"
    by (simp add: dec_as_def)
next
  fix buf v n
  assume "dec_as V_struct (\<lambda>buf. decode_values (map impl_of (field_types fs)) buf 0) buf = Inr (v, n)"
  then show "derived_value adm (Data_Struct fs) v \<and> n \<le> length buf"
    using decode_values_sound [OF assms, of buf 0] by (auto simp: dec_as_def result_simps)
qed

lemma enum_type:
  assumes types: "set (data_types (Data_Enum (map fst vd))) \<subseteq> scope" and named: "distinct (map (va_ident \<circ> fst) vd)"
    and discs: "distinct (map snd vd)" "list_all (\<lambda>(va, d). d \<le> 65535) vd"
  shows "pardosa_type (enc_as un_enum (encode_variant impl_of vd)) (decode_variant impl_of vd)
    (derived_value adm (Data_Enum (map fst vd)))"
proof
  let ?w = "discriminant_width vd"
  note w = discriminant_width_cases [of vd]
  have arm: "set (field_types (va_fields va)) \<subseteq> scope" if "(va, d) \<in> set vd" for va d using types that by fastforce
  have by_name: "find (\<lambda>(va', _). va_ident va' = va_ident va) vd = Some (va, d)" if "(va, d) \<in> set vd" for va d
    using find_by_key [OF named that] by (simp add: case_prod_beta')
  have by_disc: "find (\<lambda>(_, d'). d' = d) vd = Some (va, d)" if "(va, d) \<in> set vd" for va d
    using find_by_key [OF discs(1) that] by (simp add: case_prod_beta')
  have shape: "\<exists>va d vs. (va, d) \<in> set vd \<and> v = V_enum (va_ident va) vs \<and> list_all2 adm (field_types (va_fields va)) vs"
    if "derived_value adm (Data_Enum (map fst vd)) v" for v
    using that by (fastforce simp: list_ex_iff split: payload.splits)
  {
    fix v assume "derived_value adm (Data_Enum (map fst vd)) v"
    then obtain va d vs where "(va, d) \<in> set vd" "v = V_enum (va_ident va) vs" "list_all2 adm (field_types (va_fields va)) vs"
      using shape by blast
    then show "\<exists>bs. enc_as un_enum (encode_variant impl_of vd) v = Inr bs"
      using encode_values_total [OF _ arm] by_name by (fastforce simp: enc_as_def un_enum_def encode_variant_def)
  next
    fix v bs and rest :: bytes
    assume a: "derived_value adm (Data_Enum (map fst vd)) v" "enc_as un_enum (encode_variant impl_of vd) v = Inr bs"
      "length (bs @ rest) \<le> USIZE_MAX"
    then obtain va d vs cs where v: "(va, d) \<in> set vd" "v = V_enum (va_ident va) vs" "list_all2 adm (field_types (va_fields va)) vs"
      "encode_values (map impl_of (field_types (va_fields va))) vs = Inr cs" "bs = encode_disc ?w d @ cs"
      using shape by_name by (fastforce simp: enc_as_def un_enum_def encode_variant_def result_simps)
    note disc = disc_roundtrip [OF w within_width [OF v(1) discs(2)]]
    have "decode_values (map impl_of (field_types (va_fields va))) (bs @ rest) (unat ?w) = Inr (vs, unat ?w + length cs)"
      using decode_values_encoded [OF v(3) arm [OF v(1)] v(4), of "unat ?w" "bs @ rest" rest] a(3) v(5) disc(2) by simp
    moreover have "cs = [] \<and> vs = []" if "va_fields va = Unit" using that v(3,4) by simp
    ultimately show "decode_variant impl_of vd (bs @ rest) = Inr (v, length bs)"
      using v disc by_disc [OF v(1)] by (auto simp: decode_variant_def decode_arm_def)
  next
    fix buf v n assume "decode_variant impl_of vd buf = Inr (v, n)"
    then obtain d p where d: "decode_disc ?w buf = Inr d" and p: "find (\<lambda>(_, d'). d' = d) vd = Some p"
        and arm_p: "decode_arm impl_of (unat ?w) (fst p) buf = Inr (v, n)"
      by (auto simp: decode_variant_def result_simps split: option.splits prod.splits)
    obtain va where va: "p = (va, d)" "(va, d) \<in> set vd" using find_hit [OF p] by (cases p) auto
    have "unat ?w \<le> length buf" using decode_disc_consumes [OF w d] .
    then obtain vs where "v = V_enum (va_ident va) vs" "list_all2 adm (field_types (va_fields va)) vs" "n \<le> length buf"
      using arm_p va(1) decode_values_sound [OF arm [OF va(2)], of buf "unat ?w"]
      by (auto simp: decode_arm_def result_simps split: if_splits)
    then show "derived_value adm (Data_Enum (map fst vd)) v \<and> n \<le> length buf" using va(2) by (force simp: list_ex_iff)
  }
qed

end

section \<open>What the macros accept\<close>

lemma of_nat_u32_le: "n < 2 ^ 32 \<Longrightarrow> (of_nat n :: u32) > 65535 \<longleftrightarrow> n > 65535"
  by (simp add: word_less_nat_alt unat_of_nat take_bit_nat_eq_self)

text \<open>The discriminant of a variant: a literal that fits two bytes and is not taken.\<close>

definition declares :: "Variant \<Rightarrow> u32 \<Rightarrow> bool" where
  "declares va d \<longleftrightarrow> (\<exists>n. va_discriminant va = Some (Int_literal n) \<and> n \<le> 65535 \<and> d = of_nat n)"

lemma variant_discriminant_value_iff:
  "variant_discriminant_value seen va = Inr d \<longleftrightarrow> declares va d \<and> d \<notin> set seen"
proof (cases "va_discriminant va")
  case (Some e)
  then show ?thesis
    by (cases e) (auto simp: variant_discriminant_value_def declares_def result_simps of_nat_u32_le split: if_splits)
qed (simp add: variant_discriminant_value_def declares_def)

lemma declares_bound: "declares va d \<Longrightarrow> d \<le> 65535"
  using of_nat_u32_le by (fastforce simp: declares_def not_less [symmetric])

lemma admit_variants_iff:
  "admit_variants ident seen vs = Inr vd \<longleftrightarrow> map fst vd = vs \<and> distinct (map snd vd) \<and> set (map snd vd) \<inter> set seen = {} \<and>
    list_all (\<lambda>(va, d). declares va d \<and> check_types (field_types (va_fields va)) ident = Inr ()) vd"
proof (induction vs arbitrary: seen vd)
  case Nil
  then show ?case by auto
next
  case (Cons va vs)
  have "admit_variants ident seen (va # vs) = Inr vd \<longleftrightarrow> (\<exists>d rest. vd = (va, d) # rest \<and> declares va d \<and> d \<notin> set seen \<and>
      check_types (field_types (va_fields va)) ident = Inr () \<and> admit_variants ident (d # seen) vs = Inr rest)"
    by (auto simp: result_simps variant_discriminant_value_iff)
  then show ?case unfolding Cons.IH by (cases vd) (auto simp del: set_map)
qed



















section \<open>Descriptors of declared types\<close>

text \<open>An implementation whose descriptor is complete and as deep as its \<open>TYPE_DEPTH\<close> says.\<close>

definition described :: "PardosaImpl \<Rightarrow> bool" where
  "described i \<longleftrightarrow> (case im_descriptor_node i of
     Some d \<Rightarrow> node_depth d = im_type_depth i \<and> node_wf d \<and> node_complete d | None \<Rightarrow> False)"

















section \<open>The types of the library\<close>

definition library_value :: "rust_type \<Rightarrow> payload \<Rightarrow> bool" where
  "library_value ty = payload_inv (case library_type ty of Some t \<Rightarrow> t | None \<Rightarrow> P_bool)"

lemma library_lawful: "lawful (library_impl ty) (library_value ty)"
  using payload_lawful by (simp add: lawful_def library_impl_def library_value_def payload_impl_def)

interpretation library: resolved library_impl library_value "{ty. library_type ty \<noteq> None}"
  by unfold_locales (rule library_lawful)

lemma payload_impl_Option: "payload_impl (P_Option t) = option_impl (payload_impl t)"
  by (simp add: payload_impl_def option_impl_def)

lemma option_described: "described i \<Longrightarrow> described (option_impl i)"
  by (auto simp: described_def option_impl_def split: option.splits)








section \<open>Properties\<close>

text \<open>C37: the code a derive generates for a struct or an enum keeps the contract of \<open>PardosaType\<close> when the
  implementations of its field types do: every value of the type encodes, its bytes decode to it whatever follows them
  in a buffer, and what the decoder accepts is a value of the type taken from inside the buffer.\<close>

theorem derived_type_lawful:
  assumes "expand_pardosa_type impl_of input = Inr i" and "variants_named_apart (di_data input)"
    and "\<forall>ty \<in> set (data_types (di_data input)). lawful (impl_of ty) (adm ty)"
  shows "(derived_value adm (di_data input) v \<longrightarrow> (\<exists>bs. im_encode_type i v = Inr bs \<and>
      (\<forall>rest. length (bs @ rest) \<le> USIZE_MAX \<longrightarrow> im_decode_type i (bs @ rest) = Inr (v, length bs)))) \<and>
    (im_decode_type i buf = Inr (w, n) \<longrightarrow> derived_value adm (di_data input) w \<and> n \<le> length buf)"
proof -
  have scope: "resolved impl_of adm (set (data_types (di_data input)))" using assms(3) by unfold_locales blast
  have "pardosa_type (im_encode_type i) (im_decode_type i) (derived_value adm (di_data input))"
  proof (cases "di_data input")
    case (Data_Struct fs)
    then show ?thesis
      using assms(1) resolved.struct_type [OF scope, of fs]
      by (auto simp: expand_pardosa_type_def expand_pardosa_type_struct_def result_simps Let_def)
  next
    case (Data_Enum variants)
    then obtain vd where vd: "admit_variants (di_ident input) [] variants = Inr vd"
      "im_encode_type i = enc_as un_enum (encode_variant impl_of vd)" "im_decode_type i = decode_variant impl_of vd"
      using assms(1) by (auto simp: expand_pardosa_type_def expand_pardosa_type_enum_def result_simps split: if_splits)
    note a = vd(1) [unfolded admit_variants_iff]
    have "distinct (map (va_ident \<circ> fst) vd)" using assms(2) Data_Enum a by (simp flip: map_map)
    moreover have "list_all (\<lambda>(va, d). d \<le> 65535) vd" using a declares_bound by (auto simp: list_all_iff)
    ultimately show ?thesis using resolved.enum_type [OF scope, of vd] Data_Enum vd(2,3) a by auto
  next
    case Data_Union
    then show ?thesis using assms(1) by (simp add: expand_pardosa_type_def)
  qed
  from pardosa_type.encode_total [OF this] pardosa_type.decode_encode [OF this] pardosa_type.decode_sound [OF this]
  show ?thesis by blast
qed




definition hollow_enum :: DeriveInput where
  "hollow_enum = \<lparr>di_ident = ascii ''E'', di_attrs = [], di_data = Data_Enum
     [\<lparr>va_ident = ascii ''V'', va_attrs = [], va_discriminant = Some (Int_literal 0), va_fields = Named []\<rparr>]\<rparr>"

definition options_of :: "nat \<Rightarrow> rust_type \<Rightarrow> rust_type" where
  "options_of n ty = ((\<lambda>t. T_Path [] (ascii ''Option'') [G_Type t]) ^^ n) ty"

definition deep_root :: DeriveInput where
  "deep_root = \<lparr>di_ident = ascii ''Root'', di_attrs = [\<lparr>at_is_pardosa = True, at_items = Some [(Version_path, Int_value 1)]\<rparr>],
     di_data = Data_Enum [
       \<lparr>va_ident = ascii ''A'', va_attrs = [], va_discriminant = Some (Int_literal 0),
        va_fields = Unnamed [options_of 15 (T_Path [] (ascii ''E'') [])]\<rparr>,
       \<lparr>va_ident = ascii ''Gone'', va_attrs = [\<lparr>at_is_pardosa = True, at_items = Some [(Tombstone_path, No_value)]\<rparr>],
        va_discriminant = Some (Int_literal 1), va_fields = Unit\<rparr>]\<rparr>"

text \<open>C40: the level a hollow variant adds escapes the check of depths: an enum whose only variant is \<open>V {}\<close> has
  \<open>TYPE_DEPTH\<close> 0 and a descriptor of depth 1, and a root that holds it below fifteen options compiles although its
  descriptor is one level too deep, so that \<open>schema_identity\<close> panics at run time.\<close>

theorem hollow_variant_escapes_depth_check:
  "\<exists>i s. expand_pardosa_type library_impl hollow_enum = Inr i \<and> im_type_depth i = 0 \<and>
    map_option node_depth (im_descriptor_node i) = Some 1 \<and>
    expand_pardosa_schema (with_declared (ascii ''E'') i) deep_root = Inr s \<and>
    map_option node_depth (ps_schema_descriptor s) = Some 17 \<and> schema_identity H s = None"
proof -
  obtain i where i: "expand_pardosa_type library_impl hollow_enum = Inr i" "im_type_depth i = 0"
      "im_descriptor_node i = Some (D_Enum (ascii ''E'') 1 [VariantDescriptor 0 (ascii ''V'') (Some (D_Struct (ascii ''E_V'') []))])"
    by (simp add: hollow_enum_def expand_pardosa_type_def expand_pardosa_type_enum_def variant_discriminant_value_def
        type_depth_const_def variant_depths_def enum_node_def variant_payload_node_def struct_node_def discriminant_width_def ascii_def)
  have opts: "im_type_depth (with_declared (ascii ''E'') i (options_of n (T_Path [] (ascii ''E'') []))) = n \<and>
      map_option node_depth (im_descriptor_node (with_declared (ascii ''E'') i (options_of n (T_Path [] (ascii ''E'') [])))) = Some (Suc n)" for n
    using i(2,3) by (induction n) (auto simp: options_of_def option_impl_def)
  let ?impl = "with_declared (ascii ''E'') i" and ?ty = "options_of 15 (T_Path [] (ascii ''E'') [])"
  obtain d where d: "im_descriptor_node (?impl ?ty) = Some d" "node_depth d = 16" using opts [of 15] by auto
  have "check_type_for_issues (options_of n (T_Path [] (ascii ''E'') [])) (ascii ''Root'') = Inr ()" for n
    by (induction n) (simp_all add: options_of_def ascii_def)
  then obtain s where s: "expand_pardosa_schema ?impl deep_root = Inr s" "ps_schema_descriptor s =
      Some (D_Enum (ascii ''Root'') 1 [VariantDescriptor 0 (ascii ''A'') (Some d), VariantDescriptor 1 (ascii ''Gone'') None])"
    using d opts [of 15] by (simp add: deep_root_def expand_pardosa_schema_def parse_schema_version_def variant_discriminant_value_def
        depth_assertions_def variant_overhead_def MAX_DESCRIPTOR_DEPTH_def enum_node_def variant_payload_node_def discriminant_width_def)
  then have "schema_identity H s = None"
    using d(2) by (auto simp: schema_identity_def try_from_descriptor_eq_Inr MAX_DESCRIPTOR_DEPTH_def split: sum.splits)
  then show ?thesis using i s d(2) by simp
qed

subsection \<open>Witnesses\<close>

definition sample_struct :: DeriveInput where
  "sample_struct = \<lparr>di_ident = ascii ''P'', di_attrs = [], di_data = Data_Struct (Named
     [(ascii ''a'', T_Path [] (ascii ''Option'') [G_Type (T_Path [] (ascii ''u16'') [])]), (ascii ''b'', T_Path [] (ascii ''bool'') [])])\<rparr>"


lemma library_samples:
  "library_type (T_Path [] (ascii ''u16'') []) = Some P_u16"
  "library_type (T_Path [] (ascii ''bool'') []) = Some P_bool"
  "library_type (T_Path [] (ascii ''Option'') [G_Type (T_Path [] (ascii ''u16'') [])]) = Some (P_Option P_u16)"
  by (simp_all add: plain_types_def ascii_def)

lemma sample_impls:
  "library_impl (T_Path [] (ascii ''u16'') []) = payload_impl P_u16"
  "library_impl (T_Path [] (ascii ''bool'') []) = payload_impl P_bool"
  "library_impl (T_Path [] (ascii ''Option'') [G_Type (T_Path [] (ascii ''u16'') [])]) = payload_impl (P_Option P_u16)"
  unfolding library_impl_def library_samples by simp_all

lemma sample_struct_expands:
  "\<exists>i. expand_pardosa_type library_impl sample_struct = Inr i \<and> im_type_depth i = 2 \<and>
     im_encode_type i = enc_as un_struct (encode_values [payload_impl (P_Option P_u16), payload_impl P_bool])"
proof -
  have "check_types (data_types (di_data sample_struct)) (ascii ''P'') = Inr ()" by (simp add: sample_struct_def ascii_def)
  then show ?thesis
    by (simp add: sample_struct_def expand_pardosa_type_def expand_pardosa_type_struct_def type_depth_const_def sample_impls
        payload_impl_def MAX_DESCRIPTOR_DEPTH_def)
qed




theorem derived_type_lawful_witness:
  "\<exists>i. expand_pardosa_type library_impl sample_struct = Inr i \<and>
    im_decode_type i ([1, 5, 0, 1] @ [9]) = Inr (V_struct [V_option (Some (V_u16 5)), V_bool True], 4)"
proof -
  let ?v = "V_struct [V_option (Some (V_u16 5)), V_bool True]"
  obtain i where i: "expand_pardosa_type library_impl sample_struct = Inr i" "im_encode_type i ?v = Inr [1, 5, 0, 1]"
    using sample_struct_expands
    by (auto simp: enc_as_def un_struct_def payload_impl_def un_defs u16_to_le_def u16_encode_type_def bool_encode_type_def)
  have "variants_named_apart (di_data sample_struct)" by (simp add: sample_struct_def)
  moreover have "derived_value library_value (di_data sample_struct) ?v"
    by (simp add: sample_struct_def library_value_def library_samples adm_as_def un_defs del: library_type.simps)
  ultimately have "\<forall>rest. length ([1, 5, 0, 1] @ rest) \<le> USIZE_MAX \<longrightarrow> im_decode_type i ([1, 5, 0, 1] @ rest) = Inr (?v, 4)"
    using derived_type_lawful [OF i(1), of library_value ?v] i(2) library_lawful by force
  from this [rule_format, of "[9]"] show ?thesis using i(1) by (simp add: USIZE_bound)
qed



end
