(* ===== verification/Typed_Artefact.thy ===== *)
theory Typed_Artefact
  imports Reader_Session Derive_Laws
begin

text \<open>
  The program from end to end: an application encodes values of a derived payload root (\<open>encode_payload\<close>), appends
  the bytes through a writer session on a file artefact created with the descriptor of that root, and another session
  reads the envelopes and decodes their payloads (\<open>decode_payload\<close>). The writes of the application are a run of the
  session whose payloads are encodings; what they land on is a run of the underlying session.
\<close>

inductive typed_run :: "('v \<Rightarrow> encode_error + bytes) \<Rightarrow> blake3 \<Rightarrow> crc32c \<Rightarrow> ('e \<Rightarrow> bool) \<Rightarrow> ('c \<Rightarrow> 'e \<Rightarrow> unit operation) \<Rightarrow>
    ('a \<Rightarrow> 'e append_method) \<Rightarrow> 'e Store \<Rightarrow> 'v list \<Rightarrow> EventEnvelope list \<Rightarrow> 'e Store \<Rightarrow> bool"
  for enc H crc unsure check app where
  finished: "typed_run enc H crc unsure check app st [] [] st"
| landed: "typed_run enc H crc unsure check app st vs es st1 \<Longrightarrow> length f = 16 \<Longrightarrow> length i = 16 \<Longrightarrow> enc v = Inr pl \<Longrightarrow>
    fiber_operation oper H crc unsure (check c1) (check c2) (app a) st1 f i pl = (Inr (Landed env), st2) \<Longrightarrow>
    typed_run enc H crc unsure check app st (vs @ [v]) (es @ [env]) st2"
| undetermined: "typed_run enc H crc unsure check app st vs es st1 \<Longrightarrow> enc v = Inr pl \<Longrightarrow>
    fiber_operation oper H crc unsure (check c1) (check c2) (app a) st1 f i pl = (Inr (Undetermined n), st2) \<Longrightarrow>
    typed_run enc H crc unsure check app st vs es st2"
| refused: "typed_run enc H crc unsure check app st vs es st1 \<Longrightarrow> enc v = Inr pl \<Longrightarrow>
    fiber_operation oper H crc unsure (check c1) (check c2) (app a) st1 f i pl = (Inl err, st2) \<Longrightarrow>
    typed_run enc H crc unsure check app st vs es st2"
| unencodable: "typed_run enc H crc unsure check app st vs es st1 \<Longrightarrow> enc v = Inl err \<Longrightarrow>
    typed_run enc H crc unsure check app st vs es st1"

context storage_engine
begin

lemma landed_payload:
  assumes "fiber_operation oper H crc unsure chk chk' (app a) st f i pl = (Inr (Landed env), st')"
  shows "env_payload env = pl"
  using assms
proof (cases rule: fiber_operation_cases)
  case (reached h env1 h' verdict)
  then have "env1 = env" by (auto split: sum.splits WriteLandingVerdict.splits)
  then show ?thesis using reached(2) by (simp add: handle_step_eq_Inr minted_def del: handle_step.simps)
qed simp

lemma typed_run_session:
  "typed_run enc H crc unsure check app st vs es st' \<Longrightarrow>
    session_run H crc unsure check app st es st' \<and> list_all2 (\<lambda>v e. enc v = Inr (env_payload e)) vs es"
proof (induction rule: typed_run.induct)
  case (landed st vs es st1 f i v pl oper c1 c2 a env st2)
  from session_run.landed [where check = check and app = app, OF conjunct1 [OF landed.IH] landed.hyps(2,3,5)]
  have "session_run H crc unsure check app st (es @ [env]) st2" .
  then show ?case using landed.IH landed.hyps(4) landed_payload [OF landed.hyps(5)] by (auto intro!: list_all2_appendI)
qed (auto intro: session_run.intros)

end

section \<open>Opening a typed artefact\<close>






section \<open>Properties\<close>


section \<open>A sample root\<close>



end
