(* ===== verification/Spec2Isabelle.thy ===== *)
theory Spec2Isabelle
  imports Artefact_Reader Migration Nats_Reader Typed_Artefact
begin

text \<open>
  Verification of the pardosa event store (\<open>src/crates/pardosa\<close>), of its derive macros
  (\<open>src/crates/pardosa-derive\<close>) and of its adapter for NATS JetStream (\<open>src/crates/pardosa-nats\<close>).

  \<^bold>\<open>The program.\<close> An artefact is a pair of container files, ownership records (\<open>.meta\<close>) and event data (\<open>.pgno\<close>), or
  a pair of streams on a server that hold the same frames as messages. Events are envelopes; each carries the
  identifier and the BLAKE3 commitment of its precursor, so the events of one fiber form a hash chain from a genesis
  event. A writer session holds an epoch and an exclusive lock on a file or the last sequence number of a stream,
  mints envelopes through fiber handles, checks them against its session index and appends them as checksummed
  frames; readers replay a stream of envelopes and check every link. Schema descriptors describe payloads and are
  bound into the artefact by their identity; derive macros generate them with the codecs of the payload types.

  \<^bold>\<open>Theories and sources.\<close>
  \<^item> \<open>Prelude\<close>: results, machine integers, little-endian bytes, slices, UTF-8, association lists; the collections
    \<open>bytes_simps\<close>, \<open>glue_simps\<close>, \<open>result_simps\<close>. \<open>Errors\<close>: \<open>DecodeError\<close>, \<open>EncodeError\<close> (\<open>encoding.rs\<close>),
    \<open>FailureCondition\<close> (\<open>store.rs\<close>). \<open>Codec\<close>: the locales \<open>codec\<close>, \<open>canonical_codec\<close> and \<open>pardosa_type\<close>, the
    contract of a pair of encoder and decoder.
  \<^item> \<open>Event_Values\<close>, \<open>Envelope\<close>, \<open>Ownership_Records\<close> (\<open>encoding.rs\<close>): bounded strings, bytes, vectors, timestamps;
    headers and envelopes; the nine ownership records. Every codec is an interpretation; the lemmas show round
    trips, canonicity (a decoded value re-encodes to the bytes read) and totality.
  \<^item> \<open>Descriptor\<close>, \<open>Schema_Descriptor\<close> (\<open>schema.rs\<close>): the recursive descriptor, its encoder, decoder, length
    calculation and validation; admission and identity.
  \<^item> \<open>Fiber_State\<close>, \<open>Admission\<close> (\<open>store.rs\<close>): the fiber lifecycle against its documented transition relation;
    fencing, claims, takeover, ordered creation with crashes, open results, precursor links.
  \<^item> \<open>Event_Log\<close>: the abstract specification, a log of envelopes, when one may extend it, and the locales
    \<open>log_keeper\<close> and \<open>complete_log_keeper\<close> of components that keep a log; hash chains determine history.
  \<^item> \<open>Container\<close>, \<open>Meta_File\<close>, \<open>File_Engine\<close> (\<open>file.rs\<close>): frames, the scan with torn tails and their reconciliation;
    reading and appending ownership records; the file driver.
  \<^item> \<open>Artefact_Reader\<close> (\<open>store.rs\<close>), \<open>Fiber_Handle\<close> (\<open>store/fiber_handle.rs\<close>), \<open>Session_Index\<close>
    (\<open>store/session_index.rs\<close>): each refines \<open>Event_Log\<close>; the index is interpreted as a complete log keeper.
  \<^item> \<open>Store_Pipeline\<close> (\<open>store/pipeline.rs\<close>) and \<open>Store_Session\<close>: the generic store, the engine contract
    \<open>storage_engine\<close>, its interpretation on the file engine (on the NATS engine in \<open>Nats_Engine\<close>), and what
    sessions, crashes and reopening guarantee end to end. \<open>Engine_Recovery\<close> (\<open>store/engine.rs\<close>): the trait's default
    chunked reads and recovery.
  \<^item> \<open>File_Adapter\<close> (\<open>FileStorageAdapter\<close> of \<open>file.rs\<close>): creation that may stop at any call and byte, its completion,
    opening for writing and reading; the life of an artefact from creation through sessions and undetermined writes
    to the next session. \<open>File_Paths\<close>: which files an adapter addresses.
    \<open>Read_Contract\<close>: what readers rely on, as the locale \<open>readable_engine\<close>; \<open>Reader_Session\<close> and \<open>Nats_Reader\<close>: its
    interpretations on the file engine and the NATS engine, and what whole reads and streaming return there.
  \<^item> \<open>Floats\<close> (\<open>schema/floats.rs\<close>): floats as IEEE-754 bit patterns, their order and numbers; \<open>Payload_Types\<close>
    (\<open>schema.rs\<close>): the implementations of \<open>PardosaType\<close> as interpretations of its contract, and all types that can
    be built from them. \<open>Migration\<close> (\<open>migration.rs\<close>): version adjacency, its wrapper, and the disabled migration manager.
  \<^item> \<open>Derive\<close>, \<open>Derive_Laws\<close> (\<open>pardosa-derive/src/lib.rs\<close>): both derive macros as functions from declarations to
    compile errors or implementations; which declarations they accept, that generated code keeps the contract of
    \<open>PardosaType\<close> (the locale \<open>resolved\<close>), that payload roots decode exactly whole payloads, and how deep the
    generated descriptors are.
  \<^item> \<open>Nats_Client\<close>, \<open>Nats_Engine\<close>, \<open>Nats_Session\<close> (\<open>adapter.rs\<close> of \<open>pardosa-nats\<close>): how streams are read and when
    reading fails; the JetStream driver as a second interpretation of \<open>storage_engine\<close>; that file and stream are
    read alike, that acknowledged writes of competing writers are kept in order, and what sessions store.
    \<open>Nats_Locator\<close>: names and subjects. \<open>Nats_Adapter\<close>: creation, completion, opening, records and deletion;
    exclusive creation, the life of an artefact on a server, and how undetermined writes are resolved.
  \<^item> \<open>Typed_Artefact\<close>: the components composed from end to end: values of a derived payload root, encoded, appended by
    a writer session to an artefact created with the generated descriptor, and decoded by a later reader session.

  \<^bold>\<open>Conventions.\<close> The target is 64-bit: \<open>usize\<close> is \<open>nat\<close> with \<open>USIZE_MAX\<close> checks written out, \<open>u8\<close> to \<open>u64\<close> are
  words. Fixed-size arrays are byte lists, their lengths are well-formedness predicates. Encoders return the bytes
  they append. \<open>&mut self\<close> is an updated state in the result. An \<open>OperationFailure\<close> is its condition; diagnostic
  texts are not modelled. Hash maps are association lists, hash sets duplicate-free lists. BLAKE3 (\<open>H\<close>), CRC32C
  (\<open>crc\<close>) and the capacity of a payload vector (\<open>cap\<close>) are parameters; the only hypothesis on them is that digests
  have 32 bytes, and safety results that depend on the hash name the collision. What the operating system answers is
  an explicit input of every operation that asks it; within one operation of the file adapter no other process
  changes the two files; paths are lists of components whose names are
  text. A JetStream server is a parameter: \<open>publish\<close> and \<open>create_stream\<close> act on an arbitrary state
  of the world, in which other clients may act during the call, under the hypotheses \<open>jetstream_law\<close> (messages stay;
  an acknowledged message is stored right behind the expected last one) and \<open>creator_law\<close> (creating a stream removes
  no message); the answers to reads are inputs, \<open>truthful\<close> when what they report is so and \<open>serves\<close> when every
  request is also answered. Witnesses run on concrete servers. No definition uses fuel: the scan of a container
  terminates because every frame consumes at least eight bytes, the recursive descriptor decoder because nesting is
  limited by \<open>MAX_DESCRIPTOR_DEPTH\<close>; the chunk loop of \<open>Engine_Recovery\<close> is a partial function shown to return on
  file engines, that of the NATS engine terminates because the sequence number grows up to the last one.

  The token streams of the derive macros are modelled by the implementations they denote, for declarations whose
  generic parameters are instantiated; the implementations the compiler finds for field types are a parameter
  (\<open>impl_of\<close>), those of \<open>schema.rs\<close> an instance of it.

  \<^bold>\<open>Not modelled.\<close> Parsing declarations and the positions and texts of compile errors, connecting to a server and
  driving its asynchronous runtime (requests are single calls; sixteen reads run at a time in the code and are
  consumed in order), \<open>Display\<close> texts, the repository scripts and what exists in test builds or behind the feature
  \<open>unstable-test-support\<close> only.
\<close>

end
